(* ===== verification/Prelude.thy ===== *)
theory Prelude
  imports Main "HOL-Library.Word"
begin

text \<open>
  Shared vocabulary of the development: the types of bytes and machine words, the ways in
  which the process can stop, the sequencing of steps that can stop, C strings, little-endian
  32-bit fields, and generic lemmas on lists and words used by the component theories.
  Bytes are HOL characters (a \<^typ>\<open>char\<close> is exactly an 8-bit value), so a byte buffer and a
  C++ string are both a \<^typ>\<open>string\<close>; \<open>of_char\<close> reads a byte as an unsigned number.
\<close>

unbundle bit_operations_syntax

section \<open>Types\<close>

type_synonym bytes = string
type_synonym u8 = "8 word"
type_synonym u16 = "16 word"
type_synonym u32 = "32 word"
type_synonym u64 = "64 word"

named_theorems adb_defs \<open>definitions unfolded by the component proofs\<close>
named_theorems adb_frame \<open>state components an operation does not change\<close>

section \<open>Ways to stop, and sequencing\<close>

text \<open>
  \<open>Abort\<close> is \<open>fatal\<close>, a failed \<open>CHECK\<close> or \<open>LOG(FATAL)\<close>; \<open>Exit\<close> is \<open>exit(n)\<close>; the next three
  are undefined behaviour of the C++ program; \<open>OutOfFuel\<close> marks a call depth the model did not
  provide for (each use comes with a lemma that the provided depth is enough).
\<close>

datatype crash = Abort string | Exit int | UseAfterFree | NullDeref | OutOfBounds | OutOfFuel

type_synonym 'a res = "crash + 'a"

definition rbind :: "'a res \<Rightarrow> ('a \<Rightarrow> 'b res) \<Rightarrow> 'b res" where
  "rbind m f = (case m of Inl e \<Rightarrow> Inl e | Inr x \<Rightarrow> f x)"

lemma rbind_Inl [simp]: "rbind (Inl e) f = Inl e"
  by (simp add: rbind_def)

lemma rbind_Inr [simp]: "rbind (Inr x) f = f x"
  by (simp add: rbind_def)

lemma rbind_eq_Inr: "rbind m f = Inr y \<longleftrightarrow> (\<exists>x. m = Inr x \<and> f x = Inr y)"
  by (cases m) simp_all

lemma rbind_eq_Inl: "rbind m f = Inl e \<longleftrightarrow> m = Inl e \<or> (\<exists>x. m = Inr x \<and> f x = Inl e)"
  by (cases m) simp_all

lemma rbind_assoc: "rbind (rbind m f) g = rbind m (\<lambda>x. rbind (f x) g)"
  by (cases m) simp_all

lemma rbind_InrE [elim!]:
  assumes "rbind m f = Inr y"
  obtains x where "m = Inr x" "f x = Inr y"
  using assms by (auto simp: rbind_eq_Inr)

lemma rbind_cong [fundef_cong]:
  "m = m' \<Longrightarrow> (\<And>x. m' = Inr x \<Longrightarrow> f x = f' x) \<Longrightarrow> rbind m f = rbind m' f'"
  by (cases m') simp_all

definition check_that :: "bool \<Rightarrow> string \<Rightarrow> unit res" where
  "check_that b msg = (if b then Inr () else Inl (Abort msg))"

lemma check_that_True [simp]: "check_that True msg = Inr ()"
  and check_that_False [simp]: "check_that False msg = Inl (Abort msg)"
  by (simp_all add: check_that_def)

lemma check_that_Inr [simp]: "check_that b msg = Inr u \<longleftrightarrow> b"
  by (cases b) simp_all

section \<open>The width of \<open>size_t\<close>\<close>

text \<open>
  A \<open>size_t\<close> is a natural number below \<open>2 ^ 64\<close>; its subtraction wraps around.
\<close>

definition size_sub :: "nat \<Rightarrow> nat \<Rightarrow> nat" where
  "size_sub a b = (if b \<le> a then a - b else 2 ^ 64 + a - b)"

lemma size_sub_le [simp]: "b \<le> a \<Longrightarrow> size_sub a b = a - b"
  by (simp add: size_sub_def)

lemma size_sub_0 [simp]: "size_sub a 0 = a"
  by simp

section \<open>C strings\<close>

definition NUL :: char where
  "NUL = CHR 0x00"

definition c_str :: "string \<Rightarrow> string" where
  "c_str s = takeWhile (\<lambda>c. c \<noteq> NUL) s"

lemma c_str_id [simp]: "NUL \<notin> set s \<Longrightarrow> c_str s = s"
  by (simp add: c_str_def takeWhile_eq_all_conv) blast

lemma c_str_no_NUL [simp]: "NUL \<notin> set (c_str s)"
  by (auto simp: c_str_def dest: set_takeWhileD)

lemma c_str_append_NUL: "NUL \<notin> set s \<Longrightarrow> c_str (s @ NUL # t) = s"
  unfolding c_str_def by (subst takeWhile_append2) auto

text \<open>\<open>strncmp(s, p, strlen(p)) == 0\<close> on NUL-terminated \<open>s\<close> and literal \<open>p\<close>.\<close>

definition strncmp_prefix :: "string \<Rightarrow> string \<Rightarrow> bool" where
  "strncmp_prefix s p = (take (length p) (c_str s) = p)"

lemma strncmp_prefix_iff:
  "strncmp_prefix s p \<longleftrightarrow> (\<exists>t. c_str s = p @ t)"
  unfolding strncmp_prefix_def by (metis append_eq_conv_conj append_take_drop_id)

section \<open>Little-endian 32-bit fields\<close>

definition byte_at :: "nat \<Rightarrow> nat \<Rightarrow> char" where
  "byte_at i n = char_of (n div 256 ^ i)"

definition le32 :: "u32 \<Rightarrow> bytes" where
  "le32 w = [byte_at 0 (unat w), byte_at 1 (unat w), byte_at 2 (unat w), byte_at 3 (unat w)]"

fun le_nat :: "bytes \<Rightarrow> nat" where
  "le_nat [] = 0"
| "le_nat (c # cs) = of_char c + 256 * le_nat cs"

definition of_le32 :: "bytes \<Rightarrow> u32" where
  "of_le32 bs = of_nat (le_nat (take 4 bs))"

lemma length_le32 [simp]: "length (le32 w) = 4"
  by (simp add: le32_def)

lemma le_nat_bound: "le_nat bs < 256 ^ length bs"
proof (induction bs)
  case (Cons c cs)
  have aux: "a + 256 * x < 256 * m" if "a < 256" "x < m" for a x m :: nat
    using that by arith
  from aux [OF nat_of_char_less_256 Cons.IH] have "le_nat (c # cs) < 256 * 256 ^ length cs"
    by simp
  then show ?case by simp
qed simp

lemma four_digits_256:
  fixes n :: nat
  assumes "n < 256 ^ 4"
  shows "n mod 256 + 256 * (n div 256 mod 256 + 256 * (n div 256\<^sup>2 mod 256
           + 256 * (n div 256 ^ 3 mod 256))) = n"
proof -
  have d2: "n div 256\<^sup>2 = n div 256 div 256" and d3: "n div 256 ^ 3 = n div 256 div 256 div 256"
    by (simp_all add: div_mult2_eq [symmetric])
  have "n div 256 div 256 div 256 < 256"
    using assms by (simp add: div_mult2_eq [symmetric] less_mult_imp_div_less)
  then show ?thesis
    unfolding d2 d3 by (simp add: mod_mult_div_eq)
qed

lemma le_nat_le32 [simp]: "le_nat (le32 w) = unat w"
proof -
  have "unat w < 256 ^ 4" using unsigned_less [of w] by simp
  then show ?thesis
    using four_digits_256 [of "unat w"]
    by (simp add: le32_def byte_at_def numeral_2_eq_2 numeral_3_eq_3)
qed

lemma of_le32_le32 [simp]: "of_le32 (le32 w @ rest) = w"
  by (simp add: of_le32_def)

lemma unat_of_le32: "length bs = 4 \<Longrightarrow> unat (of_le32 bs) = le_nat bs"
  using le_nat_bound [of bs] by (simp add: of_le32_def unat_of_nat)

section \<open>Lists\<close>

lemma take_drop_mid: "take n (drop m xs) @ drop (m + n) xs = drop m xs"
  by (metis add.commute append_take_drop_id drop_drop)

lemma concat_drop_front:
  "k \<le> length x \<Longrightarrow> drop k (concat (x # xs)) = drop k x @ concat xs"
  by simp

end
