(* ===== verification/Cstdlib.thy ===== *)
theory Cstdlib
  imports Prelude
begin

text \<open>
  The parts of the C library the sources use on text: character classes of the C locale, the
  \<open>strto*\<close> family, and the integer conversions of \<open>printf\<close>. The round-trip lemmas between printing
  and parsing are what the protocol theories build on.
\<close>

section \<open>Character classes\<close>

abbreviation code :: "char \<Rightarrow> nat" where
  "code c \<equiv> of_char c"

definition isspace :: "char \<Rightarrow> bool" where
  "isspace c \<longleftrightarrow> code c = 32 \<or> (9 \<le> code c \<and> code c \<le> 13)"

definition isdigit :: "char \<Rightarrow> bool" where
  "isdigit c \<longleftrightarrow> 48 \<le> code c \<and> code c \<le> 57"

definition islower :: "char \<Rightarrow> bool" where
  "islower c \<longleftrightarrow> 97 \<le> code c \<and> code c \<le> 122"

definition isupper :: "char \<Rightarrow> bool" where
  "isupper c \<longleftrightarrow> 65 \<le> code c \<and> code c \<le> 90"

definition isalnum :: "char \<Rightarrow> bool" where
  "isalnum c \<longleftrightarrow> isdigit c \<or> islower c \<or> isupper c"

definition isprint :: "char \<Rightarrow> bool" where
  "isprint c \<longleftrightarrow> 32 \<le> code c \<and> code c \<le> 126"

definition tolower :: "char \<Rightarrow> char" where
  "tolower c = (if isupper c then char_of (code c + 32) else c)"

text \<open>The value of a digit in the usual alphanumeric notation, if it is one of the base.\<close>

definition digit_val :: "nat \<Rightarrow> char \<Rightarrow> nat option" where
  "digit_val base c =
     (let d = (if isdigit c then code c - 48
               else if islower c then code c - 87
               else if isupper c then code c - 55 else 36)
      in if d < base \<and> d < 36 then Some d else None)"

section \<open>Parsing integers\<close>

fun scan_digits :: "nat \<Rightarrow> nat \<Rightarrow> string \<Rightarrow> nat \<times> string" where
  "scan_digits base acc [] = (acc, [])"
| "scan_digits base acc (c # cs) =
     (case digit_val base c of
        None \<Rightarrow> (acc, c # cs)
      | Some d \<Rightarrow> scan_digits base (acc * base + d) cs)"

definition hex_prefix :: "string \<Rightarrow> bool" where
  "hex_prefix s = (case s of
      z # x # h # _ \<Rightarrow> z = CHR ''0'' \<and> (x = CHR ''x'' \<or> x = CHR ''X'') \<and> digit_val 16 h \<noteq> None
    | _ \<Rightarrow> False)"

text \<open>
  The subject sequence of \<open>strtol\<close>: white space, a sign, a prefix \<open>0x\<close> where the base allows it, and
  digits. The result is the sign, the magnitude and the rest of the string, or \<open>None\<close> when no
  conversion is performed (\<open>endptr == nptr\<close>).
\<close>

definition strto_subject :: "nat \<Rightarrow> string \<Rightarrow> (bool \<times> nat \<times> string) option" where
  "strto_subject base0 s0 =
     (let s1 = dropWhile isspace (c_str s0);
          neg = (s1 \<noteq> [] \<and> hd s1 = CHR ''-'');
          s2 = (if s1 \<noteq> [] \<and> (hd s1 = CHR ''-'' \<or> hd s1 = CHR ''+'') then tl s1 else s1);
          base = (if base0 = 0
                  then (if hex_prefix s2 then 16
                        else if s2 \<noteq> [] \<and> hd s2 = CHR ''0'' then 8 else 10)
                  else base0);
          s3 = (if base = 16 \<and> hex_prefix s2 then drop 2 s2 else s2)
      in case s3 of
           [] \<Rightarrow> None
         | c # _ \<Rightarrow> (if digit_val base c = None then None
                     else (let (n, rest) = scan_digits base 0 s3 in Some (neg, n, rest))))"

definition LLONG_MAX :: int where "LLONG_MAX = 2 ^ 63 - 1"
definition LLONG_MIN :: int where "LLONG_MIN = - (2 ^ 63)"

text \<open>\<open>strtoll\<close>: value, whether \<open>errno\<close> was set to \<open>ERANGE\<close>, and the rest of the string.\<close>

definition strtoll :: "nat \<Rightarrow> string \<Rightarrow> int \<times> bool \<times> string" where
  "strtoll base s =
     (case strto_subject base s of
        None \<Rightarrow> (0, False, c_str s)
      | Some (neg, n, rest) \<Rightarrow>
          (let v = (if neg then - int n else int n)
           in if v > LLONG_MAX then (LLONG_MAX, True, rest)
              else if v < LLONG_MIN then (LLONG_MIN, True, rest)
              else (v, False, rest)))"

definition strtoul :: "nat \<Rightarrow> string \<Rightarrow> nat \<times> bool \<times> string" where
  "strtoul base s =
     (case strto_subject base s of
        None \<Rightarrow> (0, False, c_str s)
      | Some (neg, n, rest) \<Rightarrow>
          (if n \<ge> 2 ^ 64 then (2 ^ 64 - 1, True, rest)
           else if neg \<and> n \<noteq> 0 then (2 ^ 64 - n, False, rest)
           else (n, False, rest)))"

text \<open>\<open>sscanf(s, "%d", &v)\<close>, with the conversion to \<open>int\<close> of the parsed long.\<close>

definition to_int32 :: "int \<Rightarrow> int" where
  "to_int32 v = (v + 2 ^ 31) mod 2 ^ 32 - 2 ^ 31"

definition sscanf_d :: "string \<Rightarrow> int option" where
  "sscanf_d s = (case strto_subject 10 s of
       None \<Rightarrow> None
     | Some _ \<Rightarrow> Some (to_int32 (fst (strtoll 10 s))))"

section \<open>Printing integers\<close>

definition digit_char :: "nat \<Rightarrow> char" where
  "digit_char d = (if d < 10 then char_of (48 + d) else char_of (87 + d))"

fun digits :: "nat \<Rightarrow> nat \<Rightarrow> string" where
  "digits base n = (if base < 2 \<or> n < base then [digit_char n]
                    else digits base (n div base) @ [digit_char (n mod base)])"

declare digits.simps [simp del]

definition pad0 :: "nat \<Rightarrow> string \<Rightarrow> string" where
  "pad0 w s = replicate (w - length s) (CHR ''0'') @ s"

abbreviation hex04 :: "nat \<Rightarrow> string" where
  "hex04 n \<equiv> pad0 4 (digits 16 n)"

abbreviation hex02 :: "nat \<Rightarrow> string" where
  "hex02 n \<equiv> pad0 2 (digits 16 n)"

definition dec :: "int \<Rightarrow> string" where
  "dec v = (if v < 0 then CHR ''-'' # digits 10 (nat (- v)) else digits 10 (nat v))"

section \<open>Printing and parsing are inverse\<close>

lemma digit_char_0 [simp]: "digit_char 0 = CHR ''0''"
  by code_simp

lemma digit_val_digit_char:
  assumes "d < base" "base \<le> 36"
  shows "digit_val base (digit_char d) = Some d"
  using assms
  by (auto simp: digit_val_def digit_char_def isdigit_def islower_def isupper_def Let_def)

lemma scan_digits_append:
  assumes "\<forall>c \<in> set xs. digit_val base c \<noteq> None"
  shows "scan_digits base acc (xs @ ys) =
         scan_digits base (fst (scan_digits base acc xs)) ys"
  using assms by (induction xs arbitrary: acc) auto

lemma digits_are_digits: "2 \<le> base \<Longrightarrow> base \<le> 36 \<Longrightarrow> \<forall>c \<in> set (digits base n). digit_val base c \<noteq> None"
proof (induction base n rule: digits.induct)
  case (1 base n)
  have nm: "n mod base < base" using "1.prems" by simp
  show ?case
  proof (cases "n < base")
    case True
    with "1.prems" show ?thesis
      by (simp add: digits.simps [of base n] digit_val_digit_char)
  next
    case False
    with 1 nm show ?thesis
      by (simp add: digits.simps [of base n] digit_val_digit_char)
  qed
qed

lemma scan_digits_digits:
  assumes "2 \<le> base" "base \<le> 36"
  shows "scan_digits base 0 (digits base n) = (n, [])"
  using assms
proof (induction base n rule: digits.induct)
  case (1 base n)
  show ?case
  proof (cases "n < base")
    case True
    with "1.prems" show ?thesis
      by (simp add: digits.simps [of base n] digit_val_digit_char)
  next
    case False
    with 1 have IH: "scan_digits base 0 (digits base (n div base)) = (n div base, [])" by simp
    have "n mod base < base" using "1.prems" by simp
    with False "1.prems" IH show ?thesis
      by (simp add: digits.simps [of base n] scan_digits_append digits_are_digits
          digit_val_digit_char)
  qed
qed

lemma scan_digits_stop:
  assumes "\<forall>c \<in> set xs. digit_val base c \<noteq> None" "ys = [] \<or> digit_val base (hd ys) = None"
  shows "scan_digits base acc (xs @ ys) = (fst (scan_digits base acc xs), ys)"
  using assms
proof (induction xs arbitrary: acc)
  case Nil
  then show ?case by (cases ys) auto
qed auto

lemma digits_nonempty [simp]: "digits base n \<noteq> []"
  by (subst digits.simps) simp

lemma digits_length: "2 \<le> base \<Longrightarrow> 0 < k \<Longrightarrow> n < base ^ k \<Longrightarrow> length (digits base n) \<le> k"
proof (induction base n arbitrary: k rule: digits.induct)
  case (1 base n)
  show ?case
  proof (cases "n < base")
    case True
    with "1.prems" show ?thesis by (simp add: digits.simps [of base n])
  next
    case False
    then obtain j where k: "k = Suc j" "0 < j"
      using "1.prems" by (cases k; cases "k - 1") auto
    with "1.prems" have "n div base < base ^ j"
      by (simp add: less_mult_imp_div_less mult.commute)
    with 1 False k have "length (digits base (n div base)) \<le> j" by simp
    with False k "1.prems" show ?thesis by (simp add: digits.simps [of base n])
  qed
qed

lemma scan_digits_zeros:
  "2 \<le> base \<Longrightarrow> scan_digits base 0 (replicate k (CHR ''0'') @ s) = scan_digits base 0 s"
  by (induction k) (simp_all add: digit_val_def isdigit_def Let_def)

lemma length_hex04: "n < 65536 \<Longrightarrow> length (hex04 n) = 4"
  using digits_length [of 16 4 n] by (simp add: pad0_def)

lemma digit_not_space: "digit_val base c \<noteq> None \<Longrightarrow> \<not> isspace c"
  by (auto simp: digit_val_def isspace_def isdigit_def islower_def isupper_def Let_def
      split: if_splits)

lemma digit_not_sign:
  "digit_val base c \<noteq> None \<Longrightarrow> c \<noteq> CHR ''-'' \<and> c \<noteq> CHR ''+'' \<and> c \<noteq> NUL"
  by (auto simp: digit_val_def isdigit_def islower_def isupper_def Let_def NUL_def
      split: if_splits)

lemma digits_no_x: "base \<le> 33 \<Longrightarrow> digit_val base (CHR ''x'') = None \<and> digit_val base (CHR ''X'') = None"
  by (simp add: digit_val_def isdigit_def islower_def isupper_def Let_def)

lemma strto_subject_digits:
  assumes xs: "xs \<noteq> []" "\<forall>c \<in> set xs. digit_val base c \<noteq> None"
    and base: "0 < base" "base \<le> 33"
  shows "strto_subject base xs = Some (False, fst (scan_digits base 0 xs), [])"
proof -
  obtain c cs where [simp]: "xs = c # cs" using xs(1) by (cases xs) auto
  have c: "digit_val base c \<noteq> None" using xs(2) by simp
  have "NUL \<notin> set xs" using xs(2) digit_not_sign by blast
  then have 1: "c_str xs = xs" by (rule c_str_id)
  have "set xs \<inter> {CHR ''x'', CHR ''X''} = {}" using xs(2) digits_no_x [OF base(2)] by auto
  then have 2: "\<not> hex_prefix xs"
    by (auto simp: hex_prefix_def split: list.splits)
  have 3: "scan_digits base 0 xs = (fst (scan_digits base 0 xs), [])"
    using scan_digits_stop [OF xs(2), of "[]" 0] by simp
  show ?thesis
    using 1 2 3 c base digit_not_space [OF c] digit_not_sign [OF c]
    by (auto simp: strto_subject_def Let_def split: prod.splits)
qed

lemma padded_digits:
  assumes "2 \<le> base" "base \<le> 33"
  shows "\<forall>c \<in> set (pad0 w (digits base n)). digit_val base c \<noteq> None"
    "fst (scan_digits base 0 (pad0 w (digits base n))) = n" "pad0 w (digits base n) \<noteq> []"
proof -
  have "digit_val base (CHR ''0'') \<noteq> None"
    using assms by (simp add: digit_val_def isdigit_def Let_def)
  then show "\<forall>c \<in> set (pad0 w (digits base n)). digit_val base c \<noteq> None"
    using digits_are_digits [of base n] assms by (auto simp: pad0_def)
  show "fst (scan_digits base 0 (pad0 w (digits base n))) = n"
    using assms by (simp add: pad0_def scan_digits_zeros scan_digits_digits)
qed (simp add: pad0_def)

text \<open>Reading back what \<open>%0<w>x\<close> or \<open>%d\<close> wrote.\<close>

lemma strtoul_padded:
  assumes "2 \<le> base" "base \<le> 33" "n < 2 ^ 64"
  shows "strtoul base (pad0 w (digits base n)) = (n, False, [])"
  using strto_subject_digits [OF padded_digits(3,1) [OF assms(1,2)]] assms
  by (simp add: strtoul_def padded_digits(2))

lemma pad0_0 [simp]: "pad0 0 s = s"
  by (simp add: pad0_def)

lemma digits_no_nul: "2 \<le> base \<Longrightarrow> base \<le> 36 \<Longrightarrow> NUL \<notin> set (digits base n)"
  using digits_are_digits [of base n] digit_not_sign [of base NUL] by blast

lemma strto_subject_neg:
  assumes "2 \<le> base" "base \<le> 33"
  shows "strto_subject base (CHR ''-'' # digits base n) = Some (True, n, [])"
proof -
  obtain c cs where d: "digits base n = c # cs" using digits_nonempty by (metis list.exhaust)
  have all: "\<forall>c \<in> set (digits base n). digit_val base c \<noteq> None"
    using digits_are_digits assms by simp
  then have c: "digit_val base c \<noteq> None" using d by simp
  have "NUL \<notin> set (CHR ''-'' # digits base n)"
    using digits_no_nul [of base n] assms by (simp add: NUL_def)
  then have 1: "c_str (CHR ''-'' # digits base n) = CHR ''-'' # digits base n"
    by (rule c_str_id)
  have "set (digits base n) \<inter> {CHR ''x'', CHR ''X''} = {}"
    using all digits_no_x [OF assms(2)] by auto
  then have 2: "\<not> hex_prefix (digits base n)"
    by (auto simp: hex_prefix_def split: list.splits)
  show ?thesis
    using 1 2 c assms scan_digits_digits [of base n]
    by (simp add: strto_subject_def Let_def isspace_def d)
qed

lemma strtoll_dec:
  assumes "LLONG_MIN \<le> v" "v \<le> LLONG_MAX"
  shows "strtoll 10 (dec v) = (v, False, [])"
proof (cases "v < 0")
  case True
  then show ?thesis
    using strto_subject_neg [of 10 "nat (- v)"] assms
    by (simp add: strtoll_def dec_def)
next
  case False
  have "strto_subject 10 (digits 10 (nat v)) = Some (False, nat v, [])"
    using strto_subject_digits [of "digits 10 (nat v)" 10] digits_are_digits [of 10 "nat v"]
    by (simp add: scan_digits_digits)
  then show ?thesis using False assms by (simp add: strtoll_def dec_def)
qed

lemma digits_length_ge: "2 \<le> base \<Longrightarrow> base ^ k \<le> n \<Longrightarrow> k < length (digits base n)"
proof (induction base n arbitrary: k rule: digits.induct)
  case (1 base n)
  show ?case
  proof (cases k)
    case 0
    then show ?thesis by simp
  next
    case (Suc j)
    have b1: "1 \<le> base ^ j" using "1.prems" by (simp add: Suc_le_eq)
    have bb: "base * base ^ j \<le> n" using "1.prems" Suc by simp
    have "base * 1 \<le> base * base ^ j" by (rule mult_le_mono2 [OF b1])
    from order_trans [OF this bb] have "base \<le> n" by simp
    moreover have "base ^ j \<le> n div base"
      using "1.prems" Suc by (simp add: less_eq_div_iff_mult_less_eq mult.commute)
    ultimately show ?thesis using 1 Suc by (simp add: digits.simps [of base n])
  qed
qed

end
