(* ===== verification/Os.thy ===== *)
theory Os
  imports Cstdlib
begin

text \<open>
  The operating system as the sources see it through \<open>sysdeps.h\<close>: file descriptors that are read,
  written, shut down and closed. What a descriptor will do is a script, so every behaviour of the
  peer and of the kernel (short reads, short writes, \<open>EAGAIN\<close>, errors, end of file) is a value the
  theorems quantify over. An exhausted read script means that no more data arrives (\<open>EAGAIN\<close>); an
  exhausted write script means that the kernel accepts everything.
\<close>

section \<open>Errors\<close>

datatype errno =
    E_OK | EAGAIN | EPIPE | ECONNRESET | EMSGSIZE | EINVAL | EIO | EACCES | EEXIST | EFAULT | EFBIG | EINTR | EISDIR
  | ELOOP | EMFILE | ENAMETOOLONG | ENFILE | ENOENT | ENOMEM | ENOSPC | ENOTDIR | EOVERFLOW | EPERM | EROFS | ETXTBSY
  | ENOTSUP | ENOPROTOOPT

fun strerror :: "errno \<Rightarrow> string" where
  "strerror E_OK = ''Success''"
| "strerror EAGAIN = ''Resource temporarily unavailable''"
| "strerror EPIPE = ''Broken pipe''"
| "strerror ECONNRESET = ''Connection reset by peer''"
| "strerror EMSGSIZE = ''Message too long''"
| "strerror EINVAL = ''Invalid argument''"
| "strerror EIO = ''Input/output error''"
| "strerror EACCES = ''Permission denied''"
| "strerror EEXIST = ''File exists''"
| "strerror EFAULT = ''Bad address''"
| "strerror EFBIG = ''File too large''"
| "strerror EINTR = ''Interrupted system call''"
| "strerror EISDIR = ''Is a directory''"
| "strerror ELOOP = ''Too many levels of symbolic links''"
| "strerror EMFILE = ''Too many open files''"
| "strerror ENAMETOOLONG = ''File name too long''"
| "strerror ENFILE = ''Too many open files in system''"
| "strerror ENOENT = ''No such file or directory''"
| "strerror ENOMEM = ''Cannot allocate memory''"
| "strerror ENOSPC = ''No space left on device''"
| "strerror ENOTDIR = ''Not a directory''"
| "strerror EOVERFLOW = ''Value too large for defined data type''"
| "strerror EPERM = ''Operation not permitted''"
| "strerror EROFS = ''Read-only file system''"
| "strerror ETXTBSY = ''Text file busy''"
| "strerror ENOTSUP = ''Operation not supported''"
| "strerror ENOPROTOOPT = ''Protocol not available''"

definition perror_str :: "string \<Rightarrow> errno \<Rightarrow> string" where
  "perror_str msg e = msg @ '': '' @ strerror e"

section \<open>Descriptors\<close>

datatype read_result = RData bytes | REof | RFail errno
datatype write_result = WTake nat | WFail errno

record os =
  os_reads :: "int \<Rightarrow> read_result list"
  os_writes :: "int \<Rightarrow> write_result list"
  os_written :: "int \<Rightarrow> bytes"
  os_shutdown :: "int list"
  os_closed :: "int list"
  os_open :: "int list"
  os_new :: "int list"

definition os_init :: os where
  "os_init = \<lparr>os_reads = (\<lambda>_. []), os_writes = (\<lambda>_. []), os_written = (\<lambda>_. []),
              os_shutdown = [], os_closed = [], os_open = [], os_new = []\<rparr>"

text \<open>
  \<open>adb_read(fd, buf, len)\<close>: the bytes stored in the buffer (none of them at end of file), or the
  error number of a result \<open>-1\<close>. End of file is not consumed.
\<close>

definition adb_read :: "int \<Rightarrow> nat \<Rightarrow> os \<Rightarrow> (errno + bytes) \<times> os" where
  "adb_read fd len w =
     (case os_reads w fd of
        [] \<Rightarrow> (Inl EAGAIN, w)
      | REof # _ \<Rightarrow> (Inr [], w)
      | RFail e # rs \<Rightarrow> (Inl e, w\<lparr>os_reads := (os_reads w)(fd := rs)\<rparr>)
      | RData bs # rs \<Rightarrow>
          (Inr (take len bs),
           w\<lparr>os_reads := (os_reads w)(fd := (if length bs \<le> len then rs
                                                else RData (drop len bs) # rs))\<rparr>))"

definition adb_write :: "int \<Rightarrow> bytes \<Rightarrow> os \<Rightarrow> (errno + nat) \<times> os" where
  "adb_write fd bs w =
     (case os_writes w fd of
        [] \<Rightarrow> (Inr (length bs), w\<lparr>os_written := (os_written w)(fd := os_written w fd @ bs)\<rparr>)
      | WFail e # ws \<Rightarrow> (Inl e, w\<lparr>os_writes := (os_writes w)(fd := ws)\<rparr>)
      | WTake n # ws \<Rightarrow>
          (Inr (min n (length bs)),
           w\<lparr>os_writes := (os_writes w)(fd := ws),
             os_written := (os_written w)(fd := os_written w fd @ take n bs)\<rparr>))"

definition adb_writev :: "int \<Rightarrow> bytes list \<Rightarrow> os \<Rightarrow> (errno + nat) \<times> os" where
  "adb_writev fd iov = adb_write fd (concat iov)"

definition adb_close :: "int \<Rightarrow> os \<Rightarrow> os" where
  "adb_close fd w =
     w\<lparr>os_closed := os_closed w @ [fd], os_open := filter (\<lambda>x. x \<noteq> fd) (os_open w)\<rparr>"

text \<open>
  A call that makes a descriptor (\<open>accept\<close>, \<open>connect\<close>, \<open>socket\<close>): the next scripted result, which is
  \<open>-1\<close> for a failure. The kernel never hands out a descriptor that is still open.
\<close>

definition new_fd :: "os \<Rightarrow> int \<times> os" where
  "new_fd w =
     (case os_new w of
        [] \<Rightarrow> (-1, w)
      | fd # rest \<Rightarrow>
          if 0 \<le> fd \<and> fd \<notin> set (os_open w)
          then (fd, w\<lparr>os_open := fd # os_open w, os_new := rest\<rparr>)
          else (-1, w\<lparr>os_new := rest\<rparr>))"

text \<open>
  The calls of \<open>sysdeps/network.h\<close> and \<open>cutils/sockets.h\<close> that open a stream to an address, or listen
  on one. What they do is up to the operating system: a parameter, of which is used that a call
  either fails and leaves the descriptors alone, or returns a descriptor that was not open before.
\<close>

datatype net_request =
    network_loopback_client_r int
  | network_connect_r string int
  | network_local_client_r string nat
  | network_inaddr_any_server_r int
  | network_loopback_server_r int
  | network_local_server_r string nat

definition network_ok :: "(net_request \<Rightarrow> os \<Rightarrow> (string + int) \<times> os) \<Rightarrow> bool" where
  "network_ok net \<longleftrightarrow>
     (\<forall>r w. case net r w of
              (Inl e, w') \<Rightarrow> w' = w\<lparr>os_new := os_new w'\<rparr>
            | (Inr fd, w') \<Rightarrow> 0 \<le> fd \<and> fd \<notin> set (os_open w)
                 \<and> w' = w\<lparr>os_open := fd # os_open w, os_new := os_new w'\<rparr>)"

definition net_script :: "net_request \<Rightarrow> os \<Rightarrow> (string + int) \<times> os" where
  "net_script r w =
     (case new_fd w of (fd, w') \<Rightarrow> (if fd < 0 then Inl ''Connection refused'' else Inr fd, w'))"

definition adb_shutdown :: "int \<Rightarrow> os \<Rightarrow> os" where
  "adb_shutdown fd w = w\<lparr>os_shutdown := os_shutdown w @ [fd]\<rparr>"

section \<open>What a descriptor delivers\<close>

text \<open>The bytes that can be read before the descriptor first fails or ends.\<close>

fun script_bytes :: "read_result list \<Rightarrow> bytes" where
  "script_bytes [] = []"
| "script_bytes (RData bs # rs) = (if bs = [] then [] else bs @ script_bytes rs)"
| "script_bytes (_ # rs) = []"

definition incoming :: "os \<Rightarrow> int \<Rightarrow> bytes" where
  "incoming w fd = script_bytes (os_reads w fd)"

text \<open>A descriptor whose writes never fail for good: short writes and \<open>EAGAIN\<close> only.\<close>

definition writable_script :: "write_result list \<Rightarrow> bool" where
  "writable_script ws \<longleftrightarrow> (\<forall>r \<in> set ws. case r of WTake _ \<Rightarrow> True | WFail e \<Rightarrow> e = EAGAIN)"

lemma adb_read_incoming:
  assumes "incoming w fd \<noteq> []" "0 < len"
  obtains bs w' where "adb_read fd len w = (Inr bs, w')" "bs \<noteq> []" "length bs \<le> len"
    "incoming w fd = bs @ incoming w' fd"
    "\<And>fd'. fd' \<noteq> fd \<Longrightarrow> os_reads w' fd' = os_reads w fd'"
    "os_writes w' = os_writes w" "os_written w' = os_written w" "os_shutdown w' = os_shutdown w"
    "os_closed w' = os_closed w"
proof (cases "os_reads w fd")
  case Nil
  with assms show ?thesis by (simp add: incoming_def)
next
  case (Cons r rs)
  with assms obtain bs where r: "r = RData bs" "bs \<noteq> []"
    by (cases r) (auto simp: incoming_def split: if_splits)
  let ?w = "w\<lparr>os_reads := (os_reads w)(fd := (if length bs \<le> len then rs
                                                 else RData (drop len bs) # rs))\<rparr>"
  show ?thesis
    by (rule that [of "take len bs" ?w])
      (use Cons r assms in \<open>auto simp: adb_read_def incoming_def\<close>)
qed

lemma adb_write_frame:
  assumes "adb_write fd bs w = (r, w')"
  shows "os_reads w' = os_reads w" "os_closed w' = os_closed w" "os_shutdown w' = os_shutdown w"
    "os_open w' = os_open w"
    "fd' \<noteq> fd \<Longrightarrow> os_written w' fd' = os_written w fd'"
    "fd' \<noteq> fd \<Longrightarrow> os_writes w' fd' = os_writes w fd'"
  using assms by (auto simp: adb_write_def split: list.splits write_result.splits)

lemma adb_write_Inr:
  assumes "adb_write fd bs w = (Inr n, w')"
  shows "n \<le> length bs" "os_written w' fd = os_written w fd @ take n bs"
  using assms by (auto simp: adb_write_def min_def split: list.splits write_result.splits)

lemma adb_write_Inl:
  assumes "adb_write fd bs w = (Inl e, w')"
  shows "os_written w' = os_written w"
  using assms by (auto simp: adb_write_def split: list.splits write_result.splits)

lemma adb_write_script:
  assumes "adb_write fd bs w = (r, w')"
  shows "os_writes w' fd = tl (os_writes w fd)"
    "os_writes w fd = [] \<Longrightarrow> r = Inr (length bs)"
  using assms by (auto simp: adb_write_def split: list.splits write_result.splits)

lemma adb_read_frame:
  assumes "adb_read fd len w = (r, w')"
  shows "os_writes w' = os_writes w" "os_written w' = os_written w" "os_closed w' = os_closed w"
    "os_shutdown w' = os_shutdown w" "os_open w' = os_open w"
    "fd' \<noteq> fd \<Longrightarrow> os_reads w' fd' = os_reads w fd'"
  using assms by (auto simp: adb_read_def split: list.splits read_result.splits)

lemma new_fd_cases:
  obtains w' where "new_fd w = (-1, w')" "w' = w\<lparr>os_new := os_new w'\<rparr>"
  | fd w' where "new_fd w = (fd, w')" "0 \<le> fd" "fd \<notin> set (os_open w)"
      "w' = w\<lparr>os_open := fd # os_open w, os_new := os_new w'\<rparr>"
proof (cases "os_new w")
  case Nil
  then show thesis by (intro that(1) [of w]) (simp_all add: new_fd_def)
next
  case (Cons fd rest)
  show thesis
  proof (cases "0 \<le> fd \<and> fd \<notin> set (os_open w)")
    case True
    with Cons show thesis
      by (intro that(2) [of fd "w\<lparr>os_open := fd # os_open w, os_new := rest\<rparr>"]) (simp_all add: new_fd_def)
  next
    case False
    with Cons show thesis by (intro that(1) [of "w\<lparr>os_new := rest\<rparr>"]) (auto simp: new_fd_def)
  qed
qed

lemma net_script_ok: "network_ok net_script"
  unfolding network_ok_def
proof (intro allI)
  fix r w
  show "case net_script r w of (Inl e, w') \<Rightarrow> w' = w\<lparr>os_new := os_new w'\<rparr>
      | (Inr fd, w') \<Rightarrow> 0 \<le> fd \<and> fd \<notin> set (os_open w)
          \<and> w' = w\<lparr>os_open := fd # os_open w, os_new := os_new w'\<rparr>"
    by (rule new_fd_cases [of w]) (auto simp: net_script_def)
qed

lemma adb_read_length:
  assumes "adb_read fd len w = (Inr bs, w')"
  shows "length bs \<le> len"
  using assms by (auto simp: adb_read_def split: list.splits read_result.splits)

end
