(* ===== verification/IOVector.thy ===== *)
theory IOVector
  imports Prelude
begin

text \<open>
  The byte containers of \<open>src/src/types.h\<close>: \<open>Block\<close>, a fixed-capacity buffer, and \<open>IOVector\<close>, a
  chain of immutable shared blocks with an offset into its first and its last block. A block is
  never changed once it is in a chain (\<open>shared_ptr<const Block>\<close>), so sharing between chains is
  plain value sharing here. The abstraction function \<open>IOVector_bytes\<close> reads a chain as the bytes
  it stands for; every operation is shown to act on that byte list as a queue does.
\<close>

section \<open>Block\<close>

record Block =
  blk_data :: "bytes option"
  blk_capacity :: nat
  blk_size :: nat

definition Block_new :: Block where
  "Block_new = \<lparr>blk_data = None, blk_capacity = 0, blk_size = 0\<rparr>"

definition Block_allocate :: "nat \<Rightarrow> Block \<Rightarrow> Block res" where
  "Block_allocate n b =
     rbind (check_that (blk_data b = None) ''data_ == nullptr'') (\<lambda>_.
     rbind (check_that (blk_capacity b = 0) ''0 == capacity_'') (\<lambda>_.
     rbind (check_that (blk_size b = 0) ''0 == size_'') (\<lambda>_.
     if n \<noteq> 0 then Inr \<lparr>blk_data = Some (replicate n NUL), blk_capacity = n, blk_size = n\<rparr>
     else Inr b)))"

definition Block_clear :: "Block \<Rightarrow> Block" where
  "Block_clear b = b\<lparr>blk_data := None, blk_capacity := 0, blk_size := 0\<rparr>"

definition Block_resize :: "nat \<Rightarrow> Block \<Rightarrow> Block res" where
  "Block_resize new_size b =
     (case blk_data b of
        None \<Rightarrow> Block_allocate new_size b
      | Some _ \<Rightarrow> rbind (check_that (blk_capacity b \<ge> new_size) ''capacity_ >= new_size'')
                        (\<lambda>_. Inr (b\<lparr>blk_size := new_size\<rparr>)))"

definition memcpy_at :: "nat \<Rightarrow> bytes \<Rightarrow> bytes \<Rightarrow> bytes res" where
  "memcpy_at off src dst =
     (if off + length src \<le> length dst
      then Inr (take off dst @ src @ drop (off + length src) dst) else Inl OutOfBounds)"

definition Block_store :: "nat \<Rightarrow> bytes \<Rightarrow> Block \<Rightarrow> Block res" where
  "Block_store off src b =
     (case blk_data b of
        None \<Rightarrow> (if src = [] then Inr b else Inl NullDeref)
      | Some d \<Rightarrow> rbind (memcpy_at off src d) (\<lambda>d'. Inr (b\<lparr>blk_data := Some d'\<rparr>)))"

definition Block_assign :: "bytes \<Rightarrow> Block \<Rightarrow> Block res" where
  "Block_assign src b =
     rbind (Block_allocate (length src) (Block_clear b)) (\<lambda>b. Block_store 0 src b)"

definition Block_bytes :: "Block \<Rightarrow> bytes" where
  "Block_bytes b = (case blk_data b of None \<Rightarrow> [] | Some d \<Rightarrow> take (blk_size b) d)"

definition Block_eq :: "Block \<Rightarrow> Block \<Rightarrow> bool" where
  "Block_eq a b = (blk_size a = blk_size b \<and> Block_bytes a = Block_bytes b)"

definition Block_inv :: "Block \<Rightarrow> bool" where
  "Block_inv b \<longleftrightarrow>
     (case blk_data b of None \<Rightarrow> blk_capacity b = 0 \<and> blk_size b = 0
      | Some d \<Rightarrow> length d = blk_capacity b \<and> blk_size b \<le> blk_capacity b)"

text \<open>A block that holds exactly the given bytes.\<close>

definition Block_of :: "bytes \<Rightarrow> Block" where
  "Block_of src = (if src = [] then Block_new
                   else \<lparr>blk_data = Some src, blk_capacity = length src, blk_size = length src\<rparr>)"

lemma Block_inv_new [simp]: "Block_inv Block_new"
  by (simp add: Block_inv_def Block_new_def)

lemma length_Block_bytes [simp]: "Block_inv b \<Longrightarrow> length (Block_bytes b) = blk_size b"
  by (auto simp: Block_inv_def Block_bytes_def split: option.splits)

lemma Block_of_inv [simp]: "Block_inv (Block_of src)"
  by (simp add: Block_of_def Block_inv_def Block_new_def)

lemma Block_bytes_of [simp]: "Block_bytes (Block_of src) = src"
  by (simp add: Block_of_def Block_bytes_def Block_new_def)

lemma size_Block_of [simp]: "blk_size (Block_of src) = length src"
  by (simp add: Block_of_def Block_new_def)

lemma Block_assign_of: "Block_assign src b = Inr (Block_of src)"
  by (cases "src = []")
     (simp_all add: Block_assign_def Block_clear_def Block_allocate_def Block_store_def
        memcpy_at_def Block_of_def Block_new_def)

lemma Block_resize_shrink:
  assumes "Block_inv b" "n \<le> blk_size b"
  shows "\<exists>b'. Block_resize n b = Inr b' \<and> Block_inv b' \<and> Block_bytes b' = take n (Block_bytes b)"
  using assms
  by (auto simp: Block_resize_def Block_inv_def Block_bytes_def Block_allocate_def
      split: option.splits)

lemma Block_resize_new: "n \<noteq> 0 \<Longrightarrow> Block_resize n Block_new = Inr (Block_of (replicate n NUL))"
  by (simp add: Block_resize_def Block_new_def Block_allocate_def Block_of_def)

lemma Block_store_of:
  assumes "off + length src \<le> length d" "d \<noteq> []"
  shows "Block_store off src (Block_of d) = Inr (Block_of (take off d @ src @ drop (off + length src) d))"
  using assms by (auto simp: Block_store_def Block_of_def memcpy_at_def Block_new_def)

section \<open>IOVector: the state and its accessors\<close>

record IOVector =
  chain_length :: nat
  begin_offset :: nat
  end_offset :: nat
  iov_chain :: "Block list"

definition IOVector_new :: IOVector where
  "IOVector_new = \<lparr>chain_length = 0, begin_offset = 0, end_offset = 0, iov_chain = []\<rparr>"

definition IOVector_size :: "IOVector \<Rightarrow> nat" where
  "IOVector_size v = size_sub (size_sub (chain_length v) (begin_offset v)) (end_offset v)"

definition IOVector_empty :: "IOVector \<Rightarrow> bool" where
  "IOVector_empty v = (IOVector_size v = 0)"

definition IOVector_clear :: "IOVector \<Rightarrow> IOVector" where
  "IOVector_clear v = v\<lparr>chain_length := 0, begin_offset := 0, end_offset := 0, iov_chain := []\<rparr>"

definition IOVector_move :: "IOVector \<Rightarrow> IOVector \<times> IOVector" where
  "IOVector_move v =
     (\<lparr>chain_length = chain_length v, begin_offset = begin_offset v,
       end_offset = end_offset v, iov_chain = iov_chain v\<rparr>,
      v\<lparr>iov_chain := [], chain_length := 0, begin_offset := 0, end_offset := 0\<rparr>)"

text \<open>\<open>iov_chain.front()\<close> and \<open>iov_chain.pop_front()\<close> of an empty deque are undefined.\<close>

definition IOVector_front :: "IOVector \<Rightarrow> Block res" where
  "IOVector_front v = (case iov_chain v of [] \<Rightarrow> Inl NullDeref | b # _ \<Rightarrow> Inr b)"

definition IOVector_append :: "Block \<Rightarrow> IOVector \<Rightarrow> IOVector res" where
  "IOVector_append b v =
     rbind (check_that (0 \<noteq> blk_size b) ''0 != block->size()'') (\<lambda>_.
     rbind (check_that (0 = end_offset v) ''0 == end_offset_'') (\<lambda>_.
     Inr (v\<lparr>chain_length := chain_length v + blk_size b, iov_chain := iov_chain v @ [b]\<rparr>)))"

definition IOVector_append_shared :: "Block \<Rightarrow> IOVector \<Rightarrow> IOVector res" where
  "IOVector_append_shared b v =
     rbind (check_that (0 \<noteq> blk_size b) ''0 != block->size()'') (\<lambda>_.
     rbind (check_that (0 = end_offset v) ''0 == end_offset_'') (\<lambda>_.
     Inr (v\<lparr>chain_length := chain_length v + blk_size b, iov_chain := iov_chain v @ [b]\<rparr>)))"

definition IOVector_pop_front_block :: "IOVector \<Rightarrow> IOVector res" where
  "IOVector_pop_front_block v =
     (case iov_chain v of
        [] \<Rightarrow> Inl NullDeref
      | b # bs \<Rightarrow> Inr (v\<lparr>chain_length := size_sub (chain_length v) (blk_size b),
                          begin_offset := 0, iov_chain := bs\<rparr>))"

section \<open>IOVector: splitting, trimming, reading\<close>

lemma pop_front_block_shorter:
  "IOVector_pop_front_block v = Inr v' \<Longrightarrow> length (iov_chain v') < length (iov_chain v)"
  by (auto simp: IOVector_pop_front_block_def split: list.splits)

function take_front_loop :: "nat \<Rightarrow> IOVector \<Rightarrow> IOVector \<Rightarrow> (IOVector \<times> IOVector) res" where
  "take_front_loop len head v =
     (if IOVector_size head < len then
        rbind (IOVector_pop_front_block v) (\<lambda>v.
        rbind (check_that (iov_chain v \<noteq> []) ''!chain_.empty()'') (\<lambda>_.
        rbind (IOVector_front v) (\<lambda>b.
        rbind (IOVector_append_shared b head) (\<lambda>head.
        take_front_loop len head v))))
      else Inr (head, v))"
  by pat_completeness auto
termination
  by (relation "measure (\<lambda>(len, head, v). length (iov_chain v))")
     (auto dest: pop_front_block_shorter)

declare take_front_loop.simps [simp del]

definition IOVector_take_front :: "nat \<Rightarrow> IOVector \<Rightarrow> (IOVector \<times> IOVector) res" where
  "IOVector_take_front len v =
     (if len = 0 then Inr (IOVector_new, v)
      else
        rbind (check_that (IOVector_size v \<ge> len) ''size() >= len'') (\<lambda>_.
        rbind (IOVector_front v) (\<lambda>first_block.
        rbind (check_that (blk_size first_block \<ge> begin_offset v)
                 ''first_block->size() >= begin_offset_'') (\<lambda>_.
        rbind (IOVector_append_shared first_block IOVector_new) (\<lambda>head.
        rbind (take_front_loop len (head\<lparr>begin_offset := begin_offset v\<rparr>) v) (\<lambda>(head, v).
        if IOVector_size head = len then
          rbind (IOVector_pop_front_block (v\<lparr>begin_offset := 0\<rparr>)) (\<lambda>v.
          Inr (head\<lparr>end_offset := 0\<rparr>, v))
        else
          (let bytes_taken = size_sub (IOVector_size head) len in
           rbind (IOVector_front v) (\<lambda>b.
           rbind (check_that (blk_size b \<ge> bytes_taken) ''chain_.front()->size() >= bytes_taken'')
             (\<lambda>_. Inr (head\<lparr>end_offset := bytes_taken\<rparr>,
                       v\<lparr>begin_offset := size_sub (blk_size b) bytes_taken\<rparr>))))))))))"

definition IOVector_trim_front :: "IOVector \<Rightarrow> IOVector res" where
  "IOVector_trim_front v =
     (if begin_offset v = 0 then Inr v
      else
        rbind (IOVector_front v) (\<lambda>first_block.
        Inr (v\<lparr>iov_chain := Block_of (drop (begin_offset v) (Block_bytes first_block)) # tl (iov_chain v),
               chain_length := size_sub (chain_length v) (begin_offset v),
               begin_offset := 0\<rparr>)))"

text \<open>
  \<open>iterate_blocks\<close> hands the callback one segment per block; the model returns the segments in
  order. The index of the loop is \<open>i\<close>, the number of blocks \<open>n\<close>.
\<close>

fun iterate_blocks_from :: "nat \<Rightarrow> nat \<Rightarrow> IOVector \<Rightarrow> Block list \<Rightarrow> bytes list res" where
  "iterate_blocks_from i n v [] = Inr []"
| "iterate_blocks_from i n v (b # bs) =
     rbind (if i = 0
            then rbind (check_that (blk_size b \<ge> begin_offset v) ''block->size() >= begin_offset_'')
                   (\<lambda>_. Inr (begin_offset v, size_sub (blk_size b) (begin_offset v)))
            else Inr (0, blk_size b)) (\<lambda>(begin, len).
     rbind (if i = n - 1
            then rbind (check_that (len \<ge> end_offset v) ''length >= end_offset_'')
                   (\<lambda>_. Inr (size_sub len (end_offset v)))
            else Inr len) (\<lambda>len.
     rbind (iterate_blocks_from (Suc i) n v bs) (\<lambda>segs.
     Inr (take len (drop begin (Block_bytes b)) # segs))))"

definition IOVector_iterate_blocks :: "IOVector \<Rightarrow> bytes list res" where
  "IOVector_iterate_blocks v = iterate_blocks_from 0 (length (iov_chain v)) v (iov_chain v)"

definition IOVector_iovecs :: "IOVector \<Rightarrow> bytes list res" where
  "IOVector_iovecs v = IOVector_iterate_blocks v"

fun coalesce_copy :: "nat \<Rightarrow> bytes list \<Rightarrow> Block \<Rightarrow> Block res" where
  "coalesce_copy offset [] result = Inr result"
| "coalesce_copy offset (s # ss) result =
     rbind (Block_store offset s result) (\<lambda>result. coalesce_copy (offset + length s) ss result)"

definition IOVector_coalesce :: "IOVector \<Rightarrow> Block res" where
  "IOVector_coalesce v =
     (if IOVector_size v = 0 then Inr Block_new
      else rbind (Block_resize (IOVector_size v) Block_new) (\<lambda>result.
           rbind (IOVector_iterate_blocks v) (\<lambda>segs. coalesce_copy 0 segs result)))"

definition IOVector_coalesced :: "(bytes \<Rightarrow> 'a) \<Rightarrow> IOVector \<Rightarrow> 'a res" where
  "IOVector_coalesced f v =
     (if length (iov_chain v) = 1
      then rbind (IOVector_front v) (\<lambda>b.
           Inr (f (take (IOVector_size v) (drop (begin_offset v) (Block_bytes b)))))
      else rbind (IOVector_coalesce v) (\<lambda>b. Inr (f (Block_bytes b))))"

section \<open>Invariant and abstraction\<close>

definition chain_bytes :: "Block list \<Rightarrow> bytes" where
  "chain_bytes bs = concat (map Block_bytes bs)"

definition IOVector_inv :: "IOVector \<Rightarrow> bool" where
  "IOVector_inv v \<longleftrightarrow>
     (\<forall>b \<in> set (iov_chain v). Block_inv b \<and> 0 < blk_size b)
     \<and> chain_length v = sum_list (map blk_size (iov_chain v))
     \<and> begin_offset v + end_offset v \<le> chain_length v
     \<and> (iov_chain v \<noteq> [] \<longrightarrow> begin_offset v < blk_size (hd (iov_chain v))
                          \<and> end_offset v \<le> blk_size (last (iov_chain v)))"

definition IOVector_bytes :: "IOVector \<Rightarrow> bytes" where
  "IOVector_bytes v = take (IOVector_size v) (drop (begin_offset v) (chain_bytes (iov_chain v)))"


abbreviation blocks_ok :: "Block list \<Rightarrow> bool" where
  "blocks_ok bs \<equiv> \<forall>b \<in> set bs. Block_inv b \<and> 0 < blk_size b"

abbreviation total_size :: "Block list \<Rightarrow> nat" where
  "total_size bs \<equiv> sum_list (map blk_size bs)"

lemma chain_bytes_simps [simp]:
  "chain_bytes [] = []"
  "chain_bytes (b # bs) = Block_bytes b @ chain_bytes bs"
  "chain_bytes (as @ bs) = chain_bytes as @ chain_bytes bs"
  by (simp_all add: chain_bytes_def)

lemma length_chain_bytes [simp]: "blocks_ok bs \<Longrightarrow> length (chain_bytes bs) = total_size bs"
  by (induction bs) simp_all

lemma IOVector_invI:
  assumes "blocks_ok (iov_chain v)" "chain_length v = total_size (iov_chain v)"
    and "begin_offset v + end_offset v \<le> chain_length v"
    and "iov_chain v \<noteq> [] \<Longrightarrow> begin_offset v < blk_size (hd (iov_chain v))"
    and "iov_chain v \<noteq> [] \<Longrightarrow> end_offset v \<le> blk_size (last (iov_chain v))"
  shows "IOVector_inv v"
  using assms by (simp add: IOVector_inv_def)

lemma IOVector_size_inv:
  "IOVector_inv v \<Longrightarrow>
     IOVector_size v = total_size (iov_chain v) - begin_offset v - end_offset v"
  by (auto simp: IOVector_inv_def IOVector_size_def size_sub_def)

lemma length_IOVector_bytes [simp]: "IOVector_inv v \<Longrightarrow> length (IOVector_bytes v) = IOVector_size v"
  by (simp add: IOVector_size_inv IOVector_bytes_def) (simp add: IOVector_inv_def)

lemma IOVector_new_inv [simp]: "IOVector_inv IOVector_new"
  and IOVector_new_bytes [simp]: "IOVector_bytes IOVector_new = []"
  and IOVector_new_size [simp]: "IOVector_size IOVector_new = 0"
  and IOVector_new_end [simp]: "end_offset IOVector_new = 0"
  by (simp_all add: IOVector_new_def IOVector_inv_def IOVector_bytes_def IOVector_size_def)

lemma IOVector_clear_new: "IOVector_clear v = IOVector_new"
  by (simp add: IOVector_clear_def IOVector_new_def)

lemma IOVector_empty_iff: "IOVector_inv v \<Longrightarrow> IOVector_empty v \<longleftrightarrow> IOVector_bytes v = []"
  by (metis IOVector_empty_def length_0_conv length_IOVector_bytes)

lemma IOVector_append_shared_eq: "IOVector_append_shared = IOVector_append"
  by (intro ext) (simp add: IOVector_append_shared_def IOVector_append_def)

lemma IOVector_append_spec:
  assumes "IOVector_inv v" "Block_inv b" "0 < blk_size b" "end_offset v = 0"
  shows "\<exists>v'. IOVector_append b v = Inr v' \<and> IOVector_inv v' \<and> end_offset v' = 0
              \<and> IOVector_bytes v' = IOVector_bytes v @ Block_bytes b"
proof -
  let ?v = "v\<lparr>chain_length := chain_length v + blk_size b, iov_chain := iov_chain v @ [b]\<rparr>"
  have inv: "IOVector_inv ?v"
    using assms by (cases "iov_chain v") (auto simp: IOVector_inv_def)
  have "IOVector_bytes ?v = IOVector_bytes v @ Block_bytes b"
    using assms inv by (simp add: IOVector_bytes_def IOVector_size_inv) (simp add: IOVector_inv_def)
  with inv assms show ?thesis
    by (simp add: IOVector_append_def)
qed

text \<open>The loop of \<open>take_front\<close>: the last block of the head is the first block of the rest.\<close>

lemma take_front_loop_spec:
  assumes "blocks_ok (x # rest)" "iov_chain v = x # rest" "chain_length v = total_size (x # rest)"
    and "iov_chain head = hs @ [x]" "chain_length head = total_size (hs @ [x])"
    and "end_offset head = 0" "begin_offset head \<le> total_size (hs @ [x])"
    and "len \<le> IOVector_size head + total_size rest"
  shows "\<exists>mid y rest' head' v'. x # rest = mid @ y # rest'
           \<and> take_front_loop len head v = Inr (head', v')
           \<and> iov_chain head' = hs @ mid @ [y] \<and> chain_length head' = total_size (hs @ mid @ [y])
           \<and> begin_offset head' = begin_offset head \<and> end_offset head' = 0
           \<and> iov_chain v' = y # rest' \<and> chain_length v' = total_size (y # rest')
           \<and> end_offset v' = end_offset v
           \<and> len \<le> IOVector_size head'
           \<and> (mid = [] \<or> IOVector_size head' < len + blk_size y)"
  using assms
proof (induction rest arbitrary: x v head hs)
  case Nil
  then have "take_front_loop len head v = Inr (head, v)"
    by (subst take_front_loop.simps) simp
  with Nil show ?case
    by (intro exI [of _ "[]"] exI [of _ x] exI [of _ "[]"] exI [of _ head] exI [of _ v]) simp
next
  case (Cons z rest)
  show ?case
  proof (cases "IOVector_size head < len")
    case False
    then have "take_front_loop len head v = Inr (head, v)"
      by (subst take_front_loop.simps) simp
    with False Cons.prems show ?thesis
      by (intro exI [of _ "[]"] exI [of _ x] exI [of _ "z # rest"] exI [of _ head] exI [of _ v]) simp
  next
    case True
    let ?v = "v\<lparr>chain_length := size_sub (chain_length v) (blk_size x), begin_offset := 0,
                iov_chain := z # rest\<rparr>"
    let ?h = "head\<lparr>chain_length := chain_length head + blk_size z,
                   iov_chain := (hs @ [x]) @ [z]\<rparr>"
    have sz: "IOVector_size ?h = IOVector_size head + blk_size z"
      using Cons.prems by (simp add: IOVector_size_def)
    have step: "take_front_loop len head v = take_front_loop len ?h ?v"
      using True Cons.prems
      by (subst take_front_loop.simps)
         (simp add: IOVector_pop_front_block_def IOVector_front_def IOVector_append_shared_def)
    obtain mid y rest' head' v' where *: "z # rest = mid @ y # rest'"
        "take_front_loop len ?h ?v = Inr (head', v')"
        "iov_chain head' = (hs @ [x]) @ mid @ [y]"
        "chain_length head' = total_size ((hs @ [x]) @ mid @ [y])"
        "begin_offset head' = begin_offset ?h" "end_offset head' = 0"
        "iov_chain v' = y # rest'" "chain_length v' = total_size (y # rest')"
        "end_offset v' = end_offset ?v" "len \<le> IOVector_size head'"
        "mid = [] \<or> IOVector_size head' < len + blk_size y"
    proof -
      have "\<exists>mid y rest' head' v'. z # rest = mid @ y # rest'
          \<and> take_front_loop len ?h ?v = Inr (head', v')
          \<and> iov_chain head' = (hs @ [x]) @ mid @ [y]
          \<and> chain_length head' = total_size ((hs @ [x]) @ mid @ [y])
          \<and> begin_offset head' = begin_offset ?h \<and> end_offset head' = 0
          \<and> iov_chain v' = y # rest' \<and> chain_length v' = total_size (y # rest')
          \<and> end_offset v' = end_offset ?v \<and> len \<le> IOVector_size head'
          \<and> (mid = [] \<or> IOVector_size head' < len + blk_size y)"
        using Cons.prems sz by (intro Cons.IH) simp_all
      then show thesis using that by blast
    qed
    have "IOVector_size head' < len + blk_size y"
    proof (cases "mid = []")
      case True
      with * have "IOVector_size head' = IOVector_size ?h"
        using Cons.prems by (simp add: IOVector_size_def)
      with True \<open>IOVector_size head < len\<close> sz * show ?thesis by simp
    qed (use * in simp)
    with * step Cons.prems show ?thesis
      by (intro exI [of _ "x # mid"] exI [of _ y] exI [of _ rest'] exI [of _ head'] exI [of _ v'])
         simp
  qed
qed


text \<open>
  What \<open>take_front\<close> does to the chain: the blocks up to the one holding the last wanted byte go to
  the head, which keeps that block too when it is only partly wanted.
\<close>

lemma take_front_chain:
  assumes inv: "IOVector_inv v" and len: "0 < len" "len \<le> IOVector_size v"
  obtains mid y rest head v' where
    "IOVector_take_front len v = Inr (head, v')" "iov_chain v = mid @ y # rest"
    "iov_chain head = mid @ [y]" "chain_length head = total_size (mid @ [y])"
    "begin_offset head = begin_offset v" "end_offset v' = end_offset v"
    "begin_offset v + len \<le> total_size (mid @ [y])"
    "end_offset head = total_size (mid @ [y]) - begin_offset v - len"
    "end_offset head < blk_size y \<or> mid = []"
    "(end_offset head = 0 \<and> iov_chain v' = rest \<and> chain_length v' = total_size rest
       \<and> begin_offset v' = 0)
     \<or> (0 < end_offset head \<and> iov_chain v' = y # rest \<and> chain_length v' = total_size (y # rest)
       \<and> begin_offset v' = blk_size y - end_offset head)"
proof -
  have size: "IOVector_size v = total_size (iov_chain v) - begin_offset v - end_offset v"
    by (rule IOVector_size_inv [OF inv])
  with len obtain x xs where chain: "iov_chain v = x # xs"
    by (cases "iov_chain v") auto
  have ok: "blocks_ok (x # xs)" and cl: "chain_length v = total_size (x # xs)"
    and be: "begin_offset v < blk_size x"
    using inv chain by (auto simp: IOVector_inv_def)
  let ?h = "IOVector_new\<lparr>chain_length := blk_size x, iov_chain := [x], begin_offset := begin_offset v\<rparr>"
  have hs: "IOVector_size ?h = blk_size x - begin_offset v"
    using be by (simp add: IOVector_size_def IOVector_new_def)
  have "\<exists>mid y rest' head' v'. x # xs = mid @ y # rest'
       \<and> take_front_loop len ?h v = Inr (head', v')
       \<and> iov_chain head' = [] @ mid @ [y] \<and> chain_length head' = total_size ([] @ mid @ [y])
       \<and> begin_offset head' = begin_offset ?h \<and> end_offset head' = 0
       \<and> iov_chain v' = y # rest' \<and> chain_length v' = total_size (y # rest')
       \<and> end_offset v' = end_offset v \<and> len \<le> IOVector_size head'
       \<and> (mid = [] \<or> IOVector_size head' < len + blk_size y)"
    using ok chain cl be len size hs
    by (intro take_front_loop_spec) (simp_all add: IOVector_new_def)
  then obtain mid y rest head v' where loop: "x # xs = mid @ y # rest"
      "take_front_loop len ?h v = Inr (head, v')"
      "iov_chain head = mid @ [y]" "chain_length head = total_size (mid @ [y])"
      "begin_offset head = begin_offset v" "end_offset head = 0"
      "iov_chain v' = y # rest" "chain_length v' = total_size (y # rest)"
      "end_offset v' = end_offset v" "len \<le> IOVector_size head"
      "mid = [] \<or> IOVector_size head < len + blk_size y"
    by auto
  have tf: "IOVector_take_front len v =
     (if IOVector_size head = len
      then rbind (IOVector_pop_front_block (v'\<lparr>begin_offset := 0\<rparr>)) (\<lambda>v. Inr (head\<lparr>end_offset := 0\<rparr>, v))
      else rbind (IOVector_front v') (\<lambda>b.
           rbind (check_that (blk_size b \<ge> size_sub (IOVector_size head) len)
                    ''chain_.front()->size() >= bytes_taken'') (\<lambda>_.
           Inr (head\<lparr>end_offset := size_sub (IOVector_size head) len\<rparr>,
                v'\<lparr>begin_offset := size_sub (blk_size b) (size_sub (IOVector_size head) len)\<rparr>))))"
    using len ok be chain loop(2)
    by (simp add: IOVector_take_front_def IOVector_front_def IOVector_append_shared_def
        IOVector_new_def Let_def)
  have bsum: "begin_offset v \<le> total_size (mid @ [y])"
    using loop(1) be by (cases mid) auto
  then have hsz: "IOVector_size head = total_size (mid @ [y]) - begin_offset v"
    using loop by (simp add: IOVector_size_def)
  show thesis
  proof (cases "IOVector_size head = len")
    case True
    show thesis
      by (rule that [of "head\<lparr>end_offset := 0\<rparr>"
              "v'\<lparr>chain_length := total_size rest, begin_offset := 0, iov_chain := rest\<rparr>" mid y rest])
         (use True tf loop chain hsz bsum ok in
           \<open>auto simp: IOVector_pop_front_block_def\<close>)
  next
    case False
    define e where "e = IOVector_size head - len"
    from False loop have e: "0 < e" "size_sub (IOVector_size head) len = e"
      "len + e = IOVector_size head" by (auto simp: e_def)
    have ey: "e < blk_size y \<or> mid = []" and ey': "e \<le> blk_size y"
      using loop(11) e hsz len by (auto simp: e_def)
    show thesis
      by (rule that [of "head\<lparr>end_offset := e\<rparr>" "v'\<lparr>begin_offset := blk_size y - e\<rparr>" mid y rest])
         (use False tf loop chain hsz bsum e ey ey' in \<open>auto simp: IOVector_front_def\<close>)
  qed
qed

lemma IOVector_take_front_spec:
  assumes inv: "IOVector_inv v" and len: "len \<le> IOVector_size v"
  shows "\<exists>head v'. IOVector_take_front len v = Inr (head, v') \<and> IOVector_inv head \<and> IOVector_inv v'
           \<and> IOVector_bytes head = take len (IOVector_bytes v)
           \<and> IOVector_bytes v' = drop len (IOVector_bytes v) \<and> end_offset v' = end_offset v"
proof (cases "len = 0")
  case True
  with inv show ?thesis by (simp add: IOVector_take_front_def)
next
  case False
  then have "0 < len" by simp
  obtain mid y rest head v' where tf:
    "IOVector_take_front len v = Inr (head, v')" "iov_chain v = mid @ y # rest"
    "iov_chain head = mid @ [y]" "chain_length head = total_size (mid @ [y])"
    "begin_offset head = begin_offset v" "end_offset v' = end_offset v"
    "begin_offset v + len \<le> total_size (mid @ [y])"
    "end_offset head = total_size (mid @ [y]) - begin_offset v - len"
    "end_offset head < blk_size y \<or> mid = []"
    "(end_offset head = 0 \<and> iov_chain v' = rest \<and> chain_length v' = total_size rest
       \<and> begin_offset v' = 0)
     \<or> (0 < end_offset head \<and> iov_chain v' = y # rest \<and> chain_length v' = total_size (y # rest)
       \<and> begin_offset v' = blk_size y - end_offset head)"
    by (rule take_front_chain [OF inv \<open>0 < len\<close> len])
  have ok: "blocks_ok (mid @ y # rest)" and be: "begin_offset v + end_offset v \<le> total_size (mid @ y # rest)"
    and bh: "begin_offset v < blk_size (hd (mid @ y # rest))"
    and el: "end_offset v \<le> blk_size (last (mid @ y # rest))"
    using inv tf(2) by (auto simp: IOVector_inv_def)
  have size: "IOVector_size v = total_size (mid @ y # rest) - begin_offset v - end_offset v"
    using IOVector_size_inv [OF inv] tf(2) by simp
  have ey: "end_offset head \<le> blk_size y"
    using tf(8,9) False by auto
  have invh: "IOVector_inv head"
    using tf ok bh ey by (intro IOVector_invI) (cases mid; auto)+
  have eh: "begin_offset v' + end_offset v' \<le> chain_length v'"
    using tf(6-8,10) size len be ey False by auto
  have invv: "IOVector_inv v'"
    using tf(6,8-10) ok el eh ey False
    by (intro IOVector_invI) (auto split: if_splits dest: hd_in_set)
  have lens: "length (chain_bytes mid) = total_size mid" "length (Block_bytes y) = blk_size y"
    using ok by simp_all
  have sv': "IOVector_size v' = IOVector_size v - len"
    using IOVector_size_inv [OF invv] size tf(6-8,10) ey by auto
  have dv': "drop (begin_offset v') (chain_bytes (iov_chain v')) =
             drop (begin_offset v + len) (chain_bytes (iov_chain v))"
    using tf(2,7,8,10) lens ey by auto
  have "IOVector_bytes v' = drop len (IOVector_bytes v)"
    by (simp add: IOVector_bytes_def sv' dv' drop_take add.commute)
  moreover have "IOVector_bytes head = take len (IOVector_bytes v)"
  proof -
    have sh: "IOVector_size head = len"
      using IOVector_size_inv [OF invh] tf(3,5,7,8) by simp
    let ?w = "chain_bytes (mid @ [y])"
    have "take len (drop (begin_offset v) (?w @ chain_bytes rest)) = take len (drop (begin_offset v) ?w)"
      using tf(7) lens by simp
    moreover have "chain_bytes (iov_chain v) = ?w @ chain_bytes rest"
      using tf(2) by simp
    moreover have "take len (IOVector_bytes v) = take len (drop (begin_offset v) (chain_bytes (iov_chain v)))"
      using len by (simp add: IOVector_bytes_def min_absorb1)
    moreover have "IOVector_bytes head = take len (drop (begin_offset v) ?w)"
      by (simp only: IOVector_bytes_def sh tf(3,5))
    ultimately show ?thesis by metis
  qed
  ultimately show ?thesis
    using tf(1,6) invh invv by simp
qed


section \<open>Reading a chain\<close>

lemma iterate_blocks_from_spec:
  assumes "blocks_ok bs" "0 < i" "i + length bs = n"
    and "bs \<noteq> [] \<Longrightarrow> end_offset v \<le> blk_size (last bs)"
  shows "\<exists>segs. iterate_blocks_from i n v bs = Inr segs \<and> length segs = length bs
           \<and> concat segs = take (total_size bs - end_offset v) (chain_bytes bs)"
  using assms
proof (induction bs arbitrary: i)
  case (Cons b bs)
  show ?case
  proof (cases "bs = []")
    case True
    with Cons.prems show ?thesis by auto
  next
    case False
    with Cons.prems obtain segs where segs: "iterate_blocks_from (Suc i) n v bs = Inr segs"
      "length segs = length bs" "concat segs = take (total_size bs - end_offset v) (chain_bytes bs)"
      using Cons.IH [of "Suc i"] by auto
    have "end_offset v \<le> total_size bs"
      using Cons.prems(4) False member_le_sum_list [of "blk_size (last bs)" "map blk_size bs"] by simp
    moreover from False have "i \<noteq> n - 1" using Cons.prems(3) by (cases bs) auto
    ultimately show ?thesis
      using segs Cons.prems by simp
  qed
qed simp

lemma IOVector_iterate_blocks_spec:
  assumes inv: "IOVector_inv v"
  shows "\<exists>segs. IOVector_iterate_blocks v = Inr segs \<and> length segs = length (iov_chain v)
           \<and> concat segs = IOVector_bytes v"
proof (cases "iov_chain v")
  case Nil
  then show ?thesis by (simp add: IOVector_iterate_blocks_def IOVector_bytes_def)
next
  case (Cons b bs)
  have ok: "blocks_ok (b # bs)" and bo: "begin_offset v < blk_size b"
    and tot: "begin_offset v + end_offset v \<le> blk_size b + total_size bs"
    and el: "bs \<noteq> [] \<Longrightarrow> end_offset v \<le> blk_size (last bs)"
    using inv Cons by (auto simp: IOVector_inv_def)
  have size: "IOVector_size v = blk_size b + total_size bs - begin_offset v - end_offset v"
    using IOVector_size_inv [OF inv] Cons by simp
  show ?thesis
  proof (cases "bs = []")
    case True
    moreover from this tot have "end_offset v \<le> blk_size b - begin_offset v" by simp
    ultimately show ?thesis
      using Cons ok bo size by (simp add: IOVector_iterate_blocks_def IOVector_bytes_def)
  next
    case False
    with ok el obtain segs where segs: "iterate_blocks_from 1 (Suc (length bs)) v bs = Inr segs"
      "length segs = length bs" "concat segs = take (total_size bs - end_offset v) (chain_bytes bs)"
      using iterate_blocks_from_spec [of bs 1 "Suc (length bs)" v] by auto
    have "end_offset v \<le> total_size bs"
      using el False member_le_sum_list [of "blk_size (last bs)" "map blk_size bs"] by simp
    with Cons False segs ok bo size show ?thesis
      by (simp add: IOVector_iterate_blocks_def IOVector_bytes_def)
  qed
qed

lemma IOVector_iovecs_spec:
  "IOVector_inv v \<Longrightarrow> \<exists>segs. IOVector_iovecs v = Inr segs \<and> concat segs = IOVector_bytes v"
  using IOVector_iterate_blocks_spec by (auto simp: IOVector_iovecs_def)

lemma coalesce_copy_spec:
  assumes "blk_data b = Some d" "offset + length (concat segs) \<le> length d"
  shows "coalesce_copy offset segs b =
           Inr (b\<lparr>blk_data := Some (take offset d @ concat segs @
                                  drop (offset + length (concat segs)) d)\<rparr>)"
  using assms
proof (induction segs arbitrary: offset b d)
  case (Cons s segs)
  let ?d = "take offset d @ s @ drop (offset + length s) d"
  have "coalesce_copy offset (s # segs) b = coalesce_copy (offset + length s) segs (b\<lparr>blk_data := Some ?d\<rparr>)"
    using Cons.prems by (simp add: Block_store_def memcpy_at_def)
  also have "\<dots> = Inr (b\<lparr>blk_data := Some (take (offset + length s) ?d @ concat segs @
                 drop (offset + length s + length (concat segs)) ?d)\<rparr>)"
    using Cons.prems by (subst Cons.IH [of _ ?d]) simp_all
  finally show ?case
    using Cons.prems by (simp add: ac_simps)
qed simp

lemma IOVector_coalesce_spec:
  assumes inv: "IOVector_inv v"
  shows "IOVector_coalesce v = Inr (Block_of (IOVector_bytes v))"
proof (cases "IOVector_size v = 0")
  case True
  with length_IOVector_bytes [OF inv] have "IOVector_bytes v = []" by simp
  with True show ?thesis by (simp add: IOVector_coalesce_def Block_of_def)
next
  case False
  obtain segs where segs: "IOVector_iterate_blocks v = Inr segs" "concat segs = IOVector_bytes v"
    using IOVector_iterate_blocks_spec [OF inv] by blast
  let ?n = "IOVector_size v"
  let ?b = "\<lparr>blk_data = Some (replicate ?n NUL), blk_capacity = ?n, blk_size = ?n\<rparr>"
  have len: "length (IOVector_bytes v) = ?n"
    using inv by simp
  have "IOVector_coalesce v = coalesce_copy 0 segs ?b"
    using False segs by (simp add: IOVector_coalesce_def Block_resize_def Block_allocate_def Block_new_def)
  also have "\<dots> = Inr (?b\<lparr>blk_data := Some (IOVector_bytes v)\<rparr>)"
    using segs len by (subst coalesce_copy_spec [of ?b "replicate ?n NUL"]) simp_all
  finally show ?thesis
    using False len by (auto simp: Block_of_def)
qed

lemma IOVector_coalesced_spec:
  assumes inv: "IOVector_inv v"
  shows "IOVector_coalesced f v = Inr (f (IOVector_bytes v))"
proof (cases "length (iov_chain v) = 1")
  case True
  then obtain b where "iov_chain v = [b]" by (cases "iov_chain v") auto
  then show ?thesis by (simp add: IOVector_coalesced_def IOVector_front_def IOVector_bytes_def)
next
  case False
  then show ?thesis
    using IOVector_coalesce_spec [OF inv] by (simp add: IOVector_coalesced_def)
qed

lemma IOVector_trim_front_spec:
  assumes inv: "IOVector_inv v"
  shows "\<exists>v'. IOVector_trim_front v = Inr v' \<and> IOVector_inv v' \<and> begin_offset v' = 0
           \<and> IOVector_bytes v' = IOVector_bytes v"
proof (cases "begin_offset v = 0")
  case True
  with inv show ?thesis by (simp add: IOVector_trim_front_def)
next
  case False
  then obtain b bs where chain: "iov_chain v = b # bs"
    using inv by (cases "iov_chain v") (auto simp: IOVector_inv_def)
  have ok: "blocks_ok (b # bs)" and bo: "begin_offset v < blk_size b"
    and cl: "chain_length v = total_size (b # bs)"
    and tot: "begin_offset v + end_offset v \<le> blk_size b + total_size bs"
    and el: "bs \<noteq> [] \<Longrightarrow> end_offset v \<le> blk_size (last bs)"
    using inv chain by (auto simp: IOVector_inv_def)
  let ?c = "Block_of (drop (begin_offset v) (Block_bytes b))"
  let ?v = "v\<lparr>iov_chain := ?c # bs, chain_length := chain_length v - begin_offset v,
              begin_offset := 0\<rparr>"
  have inv': "IOVector_inv ?v"
    using ok bo cl tot el by (intro IOVector_invI) auto
  have "IOVector_bytes ?v = IOVector_bytes v"
    using IOVector_size_inv [OF inv] IOVector_size_inv [OF inv'] chain ok bo
    by (simp add: IOVector_bytes_def)
  with False chain cl bo inv' show ?thesis
    by (simp add: IOVector_trim_front_def IOVector_front_def)
qed


section \<open>The queue contract\<close>

text \<open>
  What a client of the chain relies on: pushing appends non-empty data at the end, pulling removes
  data from the front. The contract is an interface over any representation \<open>'q\<close>; a run of pushes
  and pulls of the representation is then the run of the byte list it stands for.
\<close>

datatype fifo_op = Push bytes | Pull nat

fun fifo_spec :: "fifo_op list \<Rightarrow> bytes \<Rightarrow> (bytes \<times> bytes) option" where
  "fifo_spec [] c = Some ([], c)"
| "fifo_spec (Push bs # ops) c = (if bs = [] then None else fifo_spec ops (c @ bs))"
| "fifo_spec (Pull n # ops) c =
     (if n \<le> length c
      then map_option (\<lambda>(out, rest). (take n c @ out, rest)) (fifo_spec ops (drop n c))
      else None)"

fun fifo_run :: "(bytes \<Rightarrow> 'q \<Rightarrow> 'q res) \<Rightarrow> (nat \<Rightarrow> 'q \<Rightarrow> (bytes \<times> 'q) res) \<Rightarrow> fifo_op list
                   \<Rightarrow> 'q \<Rightarrow> (bytes \<times> 'q) res" where
  "fifo_run push pull [] q = Inr ([], q)"
| "fifo_run push pull (Push bs # ops) q = rbind (push bs q) (\<lambda>q. fifo_run push pull ops q)"
| "fifo_run push pull (Pull n # ops) q =
     rbind (pull n q) (\<lambda>(got, q).
     rbind (fifo_run push pull ops q) (\<lambda>(out, q). Inr (got @ out, q)))"

fun pushed :: "fifo_op list \<Rightarrow> bytes" where
  "pushed [] = []"
| "pushed (Push bs # ops) = bs @ pushed ops"
| "pushed (Pull n # ops) = pushed ops"

lemma fifo_spec_conserves: "fifo_spec ops c = Some (out, rest) \<Longrightarrow> out @ rest = c @ pushed ops"
proof (induction ops c arbitrary: out rest rule: fifo_spec.induct)
  case (2 bs ops c)
  then show ?case by (auto split: if_splits)
next
  case (3 n ops c)
  then show ?case
    by (auto split: if_splits)
qed simp

locale byte_fifo =
  fixes invar :: "'q \<Rightarrow> bool"
    and content :: "'q \<Rightarrow> bytes"
    and push :: "bytes \<Rightarrow> 'q \<Rightarrow> 'q res"
    and pull :: "nat \<Rightarrow> 'q \<Rightarrow> (bytes \<times> 'q) res"
  assumes push_spec: "invar q \<Longrightarrow> bs \<noteq> [] \<Longrightarrow>
      \<exists>q'. push bs q = Inr q' \<and> invar q' \<and> content q' = content q @ bs"
    and pull_spec: "invar q \<Longrightarrow> n \<le> length (content q) \<Longrightarrow>
      \<exists>q'. pull n q = Inr (take n (content q), q') \<and> invar q' \<and> content q' = drop n (content q)"
begin

lemma run_refines:
  "invar q \<Longrightarrow> fifo_spec ops (content q) = Some (out, rest) \<Longrightarrow>
     \<exists>q'. fifo_run push pull ops q = Inr (out, q') \<and> invar q' \<and> content q' = rest"
proof (induction ops arbitrary: q out)
  case (Cons op ops)
  show ?case
  proof (cases op)
    case (Push bs)
    with Cons.prems have "bs \<noteq> []" "fifo_spec ops (content q @ bs) = Some (out, rest)"
      by (simp_all split: if_splits)
    with push_spec [OF Cons.prems(1)] Cons.IH Push show ?thesis by fastforce
  next
    case (Pull n)
    with Cons.prems obtain out' where n: "n \<le> length (content q)"
      and sp: "fifo_spec ops (drop n (content q)) = Some (out', rest)"
      and out: "out = take n (content q) @ out'"
      by (auto split: if_splits)
    obtain q' where q': "pull n q = Inr (take n (content q), q')" "invar q'"
        "content q' = drop n (content q)"
      using pull_spec [OF Cons.prems(1) n] by blast
    with Cons.IH [of q' out'] sp Pull out show ?thesis by auto
  qed
qed simp

end

definition IOVector_push :: "bytes \<Rightarrow> IOVector \<Rightarrow> IOVector res" where
  "IOVector_push bs v = IOVector_append (Block_of bs) v"

definition IOVector_pull :: "nat \<Rightarrow> IOVector \<Rightarrow> (bytes \<times> IOVector) res" where
  "IOVector_pull n v =
     rbind (IOVector_take_front n v) (\<lambda>(head, v).
     rbind (IOVector_coalesce head) (\<lambda>b. Inr (Block_bytes b, v)))"

definition IOVector_open :: "IOVector \<Rightarrow> bool" where
  "IOVector_open v \<longleftrightarrow> IOVector_inv v \<and> end_offset v = 0"

interpretation iov: byte_fifo IOVector_open IOVector_bytes IOVector_push IOVector_pull
proof unfold_locales
  fix q :: IOVector and bs :: bytes
  assume "IOVector_open q" "bs \<noteq> []"
  then show "\<exists>q'. IOVector_push bs q = Inr q' \<and> IOVector_open q'
                  \<and> IOVector_bytes q' = IOVector_bytes q @ bs"
    using IOVector_append_spec [of q "Block_of bs"]
    by (auto simp: IOVector_push_def IOVector_open_def)
next
  fix q :: IOVector and n :: nat
  assume "IOVector_open q" "n \<le> length (IOVector_bytes q)"
  then show "\<exists>q'. IOVector_pull n q = Inr (take n (IOVector_bytes q), q') \<and> IOVector_open q'
                  \<and> IOVector_bytes q' = drop n (IOVector_bytes q)"
    using IOVector_take_front_spec [of q n]
    by (auto simp: IOVector_pull_def IOVector_open_def IOVector_coalesce_spec)
qed

lemma IOVector_open_new [simp]: "IOVector_open IOVector_new"
  by (simp add: IOVector_open_def)


section \<open>Properties\<close>

text \<open>
  Property C5. An \<open>IOVector\<close> is a faithful byte queue: for every legal sequence of appends of
  non-empty blocks and of \<open>take_front(n).coalesce()\<close> calls, starting from the empty chain, no
  \<open>CHECK\<close> fails, the bytes handed out are the ones the abstract queue hands out, and together with
  the bytes still held they are exactly the bytes appended, in order.
\<close>

theorem IOVector_stream:
  assumes "fifo_spec ops [] = Some (out, rest)"
  shows "\<exists>v. fifo_run IOVector_push IOVector_pull ops IOVector_new = Inr (out, v)
           \<and> IOVector_inv v \<and> IOVector_bytes v = rest \<and> out @ rest = pushed ops"
proof -
  obtain v where "fifo_run IOVector_push IOVector_pull ops IOVector_new = Inr (out, v)"
      "IOVector_open v" "IOVector_bytes v = rest"
    using iov.run_refines [of IOVector_new ops out rest] assms by auto
  with fifo_spec_conserves [OF assms] show ?thesis
    by (auto simp: IOVector_open_def)
qed

theorem IOVector_stream_witness:
  "\<exists>v. fifo_run IOVector_push IOVector_pull
         [Push ''abc'', Push ''de'', Pull 4, Push ''f'', Pull 1] IOVector_new = Inr (''abcde'', v)
       \<and> IOVector_inv v \<and> IOVector_bytes v = ''f'' \<and> ''abcde'' @ ''f'' = pushed
         [Push ''abc'', Push ''de'', Pull 4, Push ''f'', Pull 1]"
  by (rule IOVector_stream) simp

text \<open>
  Property C11. \<open>take_front(len)\<close> on a well-formed chain that holds at least \<open>len\<close> bytes passes all
  its checks, returns a well-formed head holding exactly the first \<open>len\<close> bytes, and leaves a
  well-formed chain holding exactly the others; asking for more than the chain holds aborts.
\<close>

theorem take_front_splits:
  assumes "IOVector_inv v"
  shows "(len \<le> IOVector_size v \<longrightarrow>
            (\<exists>head v'. IOVector_take_front len v = Inr (head, v') \<and> IOVector_inv head
               \<and> IOVector_inv v' \<and> IOVector_bytes head = take len (IOVector_bytes v)
               \<and> IOVector_bytes v' = drop len (IOVector_bytes v)))
         \<and> (len > IOVector_size v \<longrightarrow> IOVector_take_front len v = Inl (Abort ''size() >= len''))"
  using IOVector_take_front_spec [OF assms, of len] by (auto simp: IOVector_take_front_def)

theorem take_front_splits_witness:
  "let v = \<lparr>chain_length = 5, begin_offset = 1, end_offset = 0,
            iov_chain = [Block_of ''abc'', Block_of ''de'']\<rparr>
   in \<exists>head v'. IOVector_take_front 3 v = Inr (head, v')
        \<and> IOVector_bytes head = ''bcd'' \<and> IOVector_bytes v' = ''e''"
proof -
  let ?v = "\<lparr>chain_length = 5, begin_offset = 1, end_offset = 0,
             iov_chain = [Block_of ''abc'', Block_of ''de'']\<rparr>"
  have inv: "IOVector_inv ?v" by (simp add: IOVector_inv_def)
  have "IOVector_bytes ?v = ''bcde''" "IOVector_size ?v = 4"
    by (simp_all add: IOVector_bytes_def IOVector_size_def)
  with take_front_splits [OF inv, of 3] show ?thesis
    unfolding Let_def by (auto simp: numeral_3_eq_3)
qed

text \<open>
  Property C12. The three ways of reading a chain agree: \<open>coalesce()\<close> (one copy), \<open>coalesced(f)\<close>
  (which skips the copy for a single block) and \<open>iovecs()\<close> (scatter/gather segments) all present
  exactly the bytes of the chain, and \<open>trim_front()\<close> changes the representation but not the bytes.
\<close>

theorem IOVector_readers_agree:
  assumes "IOVector_inv v"
  shows "IOVector_coalesce v = Inr (Block_of (IOVector_bytes v))
         \<and> IOVector_coalesced f v = Inr (f (IOVector_bytes v))
         \<and> (\<exists>segs. IOVector_iovecs v = Inr segs \<and> concat segs = IOVector_bytes v)
         \<and> (\<exists>v'. IOVector_trim_front v = Inr v' \<and> IOVector_inv v' \<and> begin_offset v' = 0
                  \<and> IOVector_bytes v' = IOVector_bytes v)"
  using assms IOVector_coalesce_spec IOVector_coalesced_spec IOVector_iovecs_spec
    IOVector_trim_front_spec by blast

theorem IOVector_readers_agree_witness:
  "IOVector_coalesced length \<lparr>chain_length = 3, begin_offset = 1, end_offset = 1,
                              iov_chain = [Block_of ''abc'']\<rparr> = Inr 1"
proof -
  let ?v = "\<lparr>chain_length = 3, begin_offset = 1, end_offset = 1, iov_chain = [Block_of ''abc'']\<rparr>"
  have inv: "IOVector_inv ?v" by (simp add: IOVector_inv_def)
  have "IOVector_bytes ?v = ''b''"
    by (simp add: IOVector_bytes_def IOVector_size_def)
  with IOVector_readers_agree [OF inv, of length] show ?thesis by simp
qed

end
