(* ===== verification/Protocol.thy ===== *)
theory Protocol
  imports IOVector Cstdlib
begin

text \<open>
  The constants, enumerations and message types of \<open>adb.h\<close> and \<open>types.h\<close>: packet commands, protocol
  versions, payload limits, connection states, and the packet with its 24-byte little-endian header.
\<close>

section \<open>Constants\<close>

definition MAX_PAYLOAD_V1 :: nat where "MAX_PAYLOAD_V1 = 4 * 1024"
definition MAX_PAYLOAD :: nat where "MAX_PAYLOAD = 1024 * 1024"

definition A_SYNC :: u32 where "A_SYNC = 0x434e5953"
definition A_CNXN :: u32 where "A_CNXN = 0x4e584e43"
definition A_OPEN :: u32 where "A_OPEN = 0x4e45504f"
definition A_OKAY :: u32 where "A_OKAY = 0x59414b4f"
definition A_CLSE :: u32 where "A_CLSE = 0x45534c43"
definition A_WRTE :: u32 where "A_WRTE = 0x45545257"
definition A_AUTH :: u32 where "A_AUTH = 0x48545541"

lemmas command_defs = A_SYNC_def A_CNXN_def A_OPEN_def A_OKAY_def A_CLSE_def A_WRTE_def A_AUTH_def

definition A_VERSION_MIN :: int where "A_VERSION_MIN = 0x01000000"
definition A_VERSION_SKIP_CHECKSUM :: int where "A_VERSION_SKIP_CHECKSUM = 0x01000001"
definition A_VERSION :: int where "A_VERSION = 0x01000001"
definition ADB_SERVER_VERSION :: nat where "ADB_SERVER_VERSION = 40"
definition TOKEN_SIZE :: nat where "TOKEN_SIZE = 20"

section \<open>Enumerations\<close>

datatype TransportType = kTransportUsb | kTransportLocal | kTransportAny | kTransportHost

datatype ConnectionState =
    kCsAny | kCsConnecting | kCsAuthorizing | kCsUnauthorized | kCsNoPerm | kCsOffline
  | kCsBootloader | kCsDevice | kCsHost | kCsRecovery | kCsSideload

fun ConnectionStateIsOnline :: "ConnectionState \<Rightarrow> bool" where
  "ConnectionStateIsOnline kCsBootloader = True"
| "ConnectionStateIsOnline kCsDevice = True"
| "ConnectionStateIsOnline kCsHost = True"
| "ConnectionStateIsOnline kCsRecovery = True"
| "ConnectionStateIsOnline kCsSideload = True"
| "ConnectionStateIsOnline _ = False"

section \<open>Packets\<close>

record amessage =
  command :: u32
  arg0 :: u32
  arg1 :: u32
  data_length :: u32
  data_check :: u32
  magic :: u32

record apacket =
  msg :: amessage
  payload :: Block

text \<open>\<open>get_apacket\<close>: a new packet with a zeroed header and an empty payload.\<close>

definition get_apacket :: apacket where
  "get_apacket =
     \<lparr>msg = \<lparr>command = 0, arg0 = 0, arg1 = 0, data_length = 0, data_check = 0, magic = 0\<rparr>,
      payload = Block_new\<rparr>"

text \<open>The object representation of the header on a little-endian host.\<close>

definition amessage_bytes :: "amessage \<Rightarrow> bytes" where
  "amessage_bytes m =
     le32 (command m) @ le32 (arg0 m) @ le32 (arg1 m) @ le32 (data_length m)
     @ le32 (data_check m) @ le32 (magic m)"

definition amessage_of :: "bytes \<Rightarrow> amessage" where
  "amessage_of bs =
     \<lparr>command = of_le32 bs, arg0 = of_le32 (drop 4 bs), arg1 = of_le32 (drop 8 bs),
      data_length = of_le32 (drop 12 bs), data_check = of_le32 (drop 16 bs),
      magic = of_le32 (drop 20 bs)\<rparr>"

text \<open>
  \<open>calculate_apacket_checksum\<close>: the sum of the first \<open>data_length\<close> payload bytes, modulo \<open>2 ^ 32\<close>.
  The subscript is not checked, so a header that announces more than the payload reads outside it.
\<close>

fun checksum_loop :: "bytes \<Rightarrow> u32 \<Rightarrow> u32" where
  "checksum_loop [] acc = acc"
| "checksum_loop (c # cs) acc = checksum_loop cs (acc + of_nat (of_char c))"

definition calculate_apacket_checksum :: "apacket \<Rightarrow> u32 res" where
  "calculate_apacket_checksum p =
     (if unat (data_length (msg p)) \<le> blk_size (payload p)
      then Inr (checksum_loop (take (unat (data_length (msg p))) (Block_bytes (payload p))) 0)
      else Inl OutOfBounds)"

section \<open>Lemmas\<close>

lemma length_amessage_bytes [simp]: "length (amessage_bytes m) = 24"
  by (simp add: amessage_bytes_def)

lemma amessage_of_bytes [simp]: "amessage_of (amessage_bytes m) = m"
proof -
  have last: "of_le32 (le32 w) = w" for w using of_le32_le32 [of w "[]"] by simp
  show ?thesis by (cases m) (simp add: amessage_of_def amessage_bytes_def last)
qed

lemma checksum_loop_sum: "checksum_loop bs a = a + of_nat (sum_list (map of_char bs))"
  by (induction bs arbitrary: a) simp_all

lemma calculate_apacket_checksum_sum:
  "unat (data_length (msg p)) = blk_size (payload p) \<Longrightarrow> Block_inv (payload p) \<Longrightarrow>
   calculate_apacket_checksum p = Inr (of_nat (sum_list (map of_char (Block_bytes (payload p)))))"
  by (simp add: calculate_apacket_checksum_def checksum_loop_sum)

lemma commands_distinct [simp]:
  "A_SYNC \<noteq> A_CNXN" "A_SYNC \<noteq> A_OPEN" "A_SYNC \<noteq> A_OKAY" "A_SYNC \<noteq> A_CLSE" "A_SYNC \<noteq> A_WRTE"
  "A_SYNC \<noteq> A_AUTH" "A_CNXN \<noteq> A_OPEN" "A_CNXN \<noteq> A_OKAY" "A_CNXN \<noteq> A_CLSE" "A_CNXN \<noteq> A_WRTE"
  "A_CNXN \<noteq> A_AUTH" "A_OPEN \<noteq> A_OKAY" "A_OPEN \<noteq> A_CLSE" "A_OPEN \<noteq> A_WRTE" "A_OPEN \<noteq> A_AUTH"
  "A_OKAY \<noteq> A_CLSE" "A_OKAY \<noteq> A_WRTE" "A_OKAY \<noteq> A_AUTH" "A_CLSE \<noteq> A_WRTE" "A_CLSE \<noteq> A_AUTH"
  "A_WRTE \<noteq> A_AUTH"
  by (simp_all add: command_defs)

lemmas commands_distinct' [simp] = commands_distinct [symmetric]

end
