(* ===== verification/AdbIo.thy ===== *)
theory AdbIo
  imports Os Protocol
begin

text \<open>
  Exact reads and writes on descriptors and the length-prefixed strings of the client protocol
  (\<open>adb_io.cpp\<close>), and the packets of the shell protocol (\<open>shell_protocol.h\<close>,
  \<open>shell_service_protocol.cpp\<close>). The lemmas relate both to the byte streams a descriptor carries,
  for every way the kernel may cut the stream into pieces.
\<close>

section \<open>\<open>adb_io.cpp\<close>\<close>

text \<open>
  \<open>ReadFdExactly\<close>: the bytes read, or the value of \<open>errno\<close> with which it returns \<open>false\<close>. The
  pieces read before a failure are lost, as they are in a buffer the callers abandon.
\<close>

function ReadFdExactly :: "int \<Rightarrow> nat \<Rightarrow> os \<Rightarrow> (errno + bytes) \<times> os" where
  "ReadFdExactly fd len w =
     (if len = 0 then (Inr [], w)
      else case adb_read fd len w of
             (Inl e, w1) \<Rightarrow> (Inl e, w1)
           | (Inr bs, w1) \<Rightarrow>
               (if bs = [] then (Inl E_OK, w1)
                else case ReadFdExactly fd (len - length bs) w1 of
                       (Inr rest, w2) \<Rightarrow> (Inr (bs @ rest), w2)
                     | (Inl e, w2) \<Rightarrow> (Inl e, w2)))"
  by pat_completeness auto
termination
  by (relation "measure (\<lambda>(fd, len, w). len)") auto

text \<open>
  \<open>WriteFdExactly\<close>: \<open>EAGAIN\<close> is retried, \<open>EPIPE\<close> clears \<open>errno\<close>. Every retry consumes a step of the
  descriptor's script, so the loop ends on every script.
\<close>

function WriteFdExactly :: "int \<Rightarrow> bytes \<Rightarrow> os \<Rightarrow> (errno + unit) \<times> os" where
  "WriteFdExactly fd bs w =
     (if bs = [] then (Inr (), w)
      else case adb_write fd bs w of
             (Inl e, w1) \<Rightarrow>
               (if e = EAGAIN then WriteFdExactly fd bs w1
                else if e = EPIPE then (Inl E_OK, w1)
                else (Inl e, w1))
           | (Inr r, w1) \<Rightarrow> WriteFdExactly fd (drop r bs) w1)"
  by pat_completeness auto
termination
  by (relation "measure (\<lambda>(fd, bs, w). length (os_writes w fd) + length bs)")
    (auto simp: adb_write_def split: list.splits write_result.splits)

declare ReadFdExactly.simps [simp del] WriteFdExactly.simps [simp del]

definition SendProtocolString :: "int \<Rightarrow> string \<Rightarrow> os \<Rightarrow> (errno + unit) \<times> os" where
  "SendProtocolString fd s w =
     (let len = length s mod 2 ^ 32
      in if len > MAX_PAYLOAD - 4 then (Inl EMSGSIZE, w)
         else WriteFdExactly fd (hex04 len @ take len (c_str s)) w)"

text \<open>
  \<open>ReadProtocolString\<close>: the outer failure is the exception of \<open>resize\<close> for a length no string can
  have (\<open>strtoul\<close> accepts a sign, so \<open>-001\<close> asks for \<open>2 ^ 64 - 1\<close> bytes); the inner one is the
  reported error message.
\<close>

definition STRING_MAX_SIZE :: nat where "STRING_MAX_SIZE = 2 ^ 62"

definition ReadProtocolString :: "int \<Rightarrow> os \<Rightarrow> ((string + string) \<times> os) res" where
  "ReadProtocolString fd w =
     (case ReadFdExactly fd 4 w of
        (Inl e, w1) \<Rightarrow> Inr (Inl (perror_str ''protocol fault (couldn't read status length)'' e), w1)
      | (Inr buf, w1) \<Rightarrow>
          (let len = fst (strtoul 16 buf)
           in if len \<ge> STRING_MAX_SIZE then Inl (Abort ''length_error'')
              else case ReadFdExactly fd len w1 of
                     (Inl e, w2) \<Rightarrow>
                       Inr (Inl (perror_str ''protocol fault (couldn't read status message)'' e), w2)
                   | (Inr s, w2) \<Rightarrow> Inr (Inr s, w2)))"

definition SendOkay :: "int \<Rightarrow> os \<Rightarrow> (errno + unit) \<times> os" where
  "SendOkay fd w = WriteFdExactly fd ''OKAY'' w"

definition SendFail :: "int \<Rightarrow> string \<Rightarrow> os \<Rightarrow> (errno + unit) \<times> os" where
  "SendFail fd reason w =
     (case WriteFdExactly fd ''FAIL'' w of
        (Inl e, w1) \<Rightarrow> (Inl e, w1)
      | (Inr _, w1) \<Rightarrow> SendProtocolString fd reason w1)"

definition ReadOrderlyShutdown :: "int \<Rightarrow> os \<Rightarrow> (bool \<times> os) res" where
  "ReadOrderlyShutdown fd w =
     (case adb_read fd 16 w of
        (Inl e, w1) \<Rightarrow> rbind (check_that (e \<noteq> EAGAIN) ''CHECK_NE(errno, EAGAIN)'') (\<lambda>_. Inr (False, w1))
      | (Inr bs, w1) \<Rightarrow> (if bs = [] then Inr (True, w1) else Inr (False, adb_shutdown fd w1)))"

section \<open>The shell protocol\<close>

definition kIdStdin :: char where "kIdStdin = char_of (0::nat)"
definition kIdStdout :: char where "kIdStdout = char_of (1::nat)"
definition kIdStderr :: char where "kIdStderr = char_of (2::nat)"
definition kIdExit :: char where "kIdExit = char_of (3::nat)"
definition kIdCloseStdin :: char where "kIdCloseStdin = char_of (4::nat)"
definition kIdWindowSizeChange :: char where "kIdWindowSizeChange = char_of (5::nat)"
definition kIdInvalid :: char where "kIdInvalid = char_of (255::nat)"
definition kHeaderSize :: nat where "kHeaderSize = 5"

text \<open>
  The object: its descriptor, the byte \<open>buffer_[0]\<close>, the data part of the buffer, whose length is
  the capacity, and the two counters.
\<close>

record ShellProtocol =
  sp_fd :: int
  sp_id :: char
  sp_data :: bytes
  sp_data_length :: nat
  sp_bytes_left :: nat

definition ShellProtocol_new :: "int \<Rightarrow> nat \<Rightarrow> ShellProtocol" where
  "ShellProtocol_new fd kBufferSize =
     \<lparr>sp_fd = fd, sp_id = kIdInvalid, sp_data = replicate (kBufferSize - kHeaderSize) NUL,
      sp_data_length = 0, sp_bytes_left = 0\<rparr>"

definition data_capacity :: "ShellProtocol \<Rightarrow> nat" where
  "data_capacity p = length (sp_data p)"

definition ShellProtocol_Read :: "ShellProtocol \<Rightarrow> os \<Rightarrow> bool \<times> ShellProtocol \<times> os" where
  "ShellProtocol_Read p w =
     (let (ok, p1, w1) =
            (if sp_bytes_left p = 0
             then (case ReadFdExactly (sp_fd p) kHeaderSize w of
                     (Inl e, w1) \<Rightarrow> (False, p, w1)
                   | (Inr hdr, w1) \<Rightarrow>
                       (True, p\<lparr>sp_id := hd hdr, sp_bytes_left := unat (of_le32 (drop 1 hdr)),
                                sp_data_length := 0\<rparr>, w1))
             else (True, p, w))
      in if \<not> ok then (False, p1, w1)
         else (let read_length = min (sp_bytes_left p1) (data_capacity p1)
               in case (if read_length = 0 then (Inr [], w1) else ReadFdExactly (sp_fd p1) read_length w1) of
                    (Inl e, w2) \<Rightarrow> (False, p1, w2)
                  | (Inr bs, w2) \<Rightarrow>
                      (True, p1\<lparr>sp_data := bs @ drop read_length (sp_data p1),
                                sp_bytes_left := sp_bytes_left p1 - read_length,
                                sp_data_length := read_length\<rparr>, w2)))"

definition ShellProtocol_Write ::
  "char \<Rightarrow> nat \<Rightarrow> ShellProtocol \<Rightarrow> os \<Rightarrow> ((errno + unit) \<times> ShellProtocol \<times> os) res" where
  "ShellProtocol_Write pid len p w =
     (if len > data_capacity p then Inl OutOfBounds
      else (let p1 = p\<lparr>sp_id := pid\<rparr>;
                (r, w1) = WriteFdExactly (sp_fd p)
                            (pid # le32 (of_nat len) @ take len (sp_data p)) w
            in Inr (r, p1, w1)))"

text \<open>
  The receiving loop of the protocol's users, \<open>while (protocol->Read())\<close>, for \<open>n\<close> rounds: the
  identifiers and data of the pieces read.
\<close>

fun ShellProtocol_reads ::
  "nat \<Rightarrow> ShellProtocol \<Rightarrow> os \<Rightarrow> (char \<times> bytes) list \<times> ShellProtocol \<times> os" where
  "ShellProtocol_reads 0 p w = ([], p, w)"
| "ShellProtocol_reads (Suc n) p w =
     (case ShellProtocol_Read p w of
        (False, p1, w1) \<Rightarrow> ([], p1, w1)
      | (True, p1, w1) \<Rightarrow>
          (let (xs, p2, w2) = ShellProtocol_reads n p1 w1
           in ((sp_id p1, take (sp_data_length p1) (sp_data p1)) # xs, p2, w2)))"

section \<open>Exact transfers\<close>

text \<open>However the stream is cut, \<open>ReadFdExactly\<close> returns its first \<open>len\<close> bytes.\<close>

lemma ReadFdExactly_incoming:
  assumes "len \<le> length (incoming w fd)"
  shows "\<exists>w'. ReadFdExactly fd len w = (Inr (take len (incoming w fd)), w')
              \<and> incoming w' fd = drop len (incoming w fd)
              \<and> os_writes w' = os_writes w \<and> os_written w' = os_written w"
  using assms
proof (induction len arbitrary: w rule: less_induct)
  case (less len)
  show ?case
  proof (cases "len = 0")
    case True
    then show ?thesis by (simp add: ReadFdExactly.simps)
  next
    case False
    then have ne: "incoming w fd \<noteq> []" "0 < len" using less.prems by auto
    obtain bs w1 where r: "adb_read fd len w = (Inr bs, w1)" "bs \<noteq> []" "length bs \<le> len"
      "incoming w fd = bs @ incoming w1 fd" "os_writes w1 = os_writes w"
      "os_written w1 = os_written w"
      using adb_read_incoming [OF ne] by metis
    have smaller: "len - length bs < len" using r(2) False by simp
    have "len - length bs \<le> length (incoming w1 fd)" using less.prems r(4) by simp
    from less.IH [OF smaller this] obtain w2 where
      w2: "ReadFdExactly fd (len - length bs) w1 = (Inr (take (len - length bs) (incoming w1 fd)), w2)"
        "incoming w2 fd = drop (len - length bs) (incoming w1 fd)"
        "os_writes w2 = os_writes w1" "os_written w2 = os_written w1"
      by blast
    have "ReadFdExactly fd len w = (Inr (bs @ take (len - length bs) (incoming w1 fd)), w2)"
      using False r(1,2) w2(1) by (simp add: ReadFdExactly.simps [of fd len w])
    then show ?thesis using w2 r by auto
  qed
qed

lemma ReadFdExactly_length:
  assumes "ReadFdExactly fd len w = (Inr bs, w')"
  shows "length bs = len"
  using assms
proof (induction len arbitrary: w bs w' rule: less_induct)
  case (less len)
  show ?case
  proof (cases "len = 0")
    case True
    then show ?thesis using less.prems by (simp add: ReadFdExactly.simps)
  next
    case False
    then obtain b w1 rest where r: "adb_read fd len w = (Inr b, w1)" "b \<noteq> []" "bs = b @ rest"
        "ReadFdExactly fd (len - length b) w1 = (Inr rest, w')"
      using less.prems
      by (subst (asm) ReadFdExactly.simps) (auto split: prod.splits sum.splits if_splits)
    then have "length rest = len - length b" using less.IH [OF _ r(4)] False by simp
    then show ?thesis using r(3) adb_read_length [OF r(1)] by simp
  qed
qed

text \<open>
  \<open>WriteFdExactly\<close> writes a prefix of the buffer, all of it exactly when it reports success, and it
  fails only on an error other than \<open>EAGAIN\<close>.
\<close>

lemma WriteFdExactly_spec:
  assumes "WriteFdExactly fd bs w = (r, w')"
  shows "\<exists>n \<le> length bs. os_written w' = (os_written w)(fd := os_written w fd @ take n bs)
           \<and> (r = Inr () \<longleftrightarrow> n = length bs)
           \<and> (writable_script (os_writes w fd) \<longrightarrow> r = Inr () \<and> writable_script (os_writes w' fd))"
  using assms
proof (induction fd bs w arbitrary: r w' rule: WriteFdExactly.induct)
  case (1 fd bs w)
  obtain res w1 where aw: "adb_write fd bs w = (res, w1)" by fastforce
  note fr = adb_write_frame [OF aw]
  have ws: "writable_script (os_writes w fd) \<Longrightarrow> writable_script (os_writes w1 fd)"
    using adb_write_script(1) [OF aw] by (cases "os_writes w fd") (auto simp: writable_script_def)
  show ?case
  proof (cases "bs = []")
    case True
    then show ?thesis using "1.prems" by (simp add: WriteFdExactly.simps)
  next
    case ne: False
    show ?thesis
    proof (cases res)
      case (Inl e)
      have e: "writable_script (os_writes w fd) \<Longrightarrow> e = EAGAIN"
        using aw Inl
        by (auto simp: adb_write_def writable_script_def split: list.splits write_result.splits)
      have wr: "os_written w1 = os_written w" using aw Inl adb_write_Inl by simp
      show ?thesis
      proof (cases "e = EAGAIN")
        case True
        then have rec: "WriteFdExactly fd bs w1 = (r, w')"
          using "1.prems" aw Inl ne by (simp add: WriteFdExactly.simps [of fd bs w])
        show ?thesis
          using "1.IH"(1) [OF ne aw [symmetric] Inl True rec] ws unfolding wr by blast
      next
        case False
        with "1.prems" aw Inl ne e have "\<exists>x. r = Inl x" "w' = w1" "\<not> writable_script (os_writes w fd)"
          by (auto simp: WriteFdExactly.simps [of fd bs w] split: if_splits)
        then show ?thesis using wr ne by (intro exI [of _ 0]) auto
      qed
    next
      case (Inr n)
      then have rec: "WriteFdExactly fd (drop n bs) w1 = (r, w')"
        using "1.prems" aw ne by (simp add: WriteFdExactly.simps [of fd bs w])
      note n = adb_write_Inr [OF aw [unfolded Inr]]
      from "1.IH"(2) [OF ne aw [symmetric] Inr rec] obtain m where
        m: "m \<le> length (drop n bs)"
          "os_written w' = (os_written w1)(fd := os_written w1 fd @ take m (drop n bs))"
          "r = Inr () \<longleftrightarrow> m = length (drop n bs)"
          "writable_script (os_writes w1 fd) \<longrightarrow> r = Inr () \<and> writable_script (os_writes w' fd)"
        by blast
      have "os_written w' = (os_written w)(fd := os_written w fd @ take (n + m) bs)"
        using m(2) n(2) fr(5) by (auto simp: fun_eq_iff take_add)
      then show ?thesis using m n(1) ws by (intro exI [of _ "n + m"]) auto
    qed
  qed
qed

lemma WriteFdExactly_ok:
  assumes "writable_script (os_writes w fd)"
  obtains w' where "WriteFdExactly fd bs w = (Inr (), w')"
    "os_written w' = (os_written w)(fd := os_written w fd @ bs)" "writable_script (os_writes w' fd)"
proof -
  obtain r w' where rw: "WriteFdExactly fd bs w = (r, w')" by fastforce
  from WriteFdExactly_spec [OF rw] assms that show thesis using rw by auto
qed

lemma WriteFdExactly_reads: "os_reads (snd (WriteFdExactly fd bs w)) = os_reads w"
proof (induction fd bs w rule: WriteFdExactly.induct)
  case (1 fd bs w)
  obtain res w1 where aw: "adb_write fd bs w = (res, w1)" by fastforce
  with 1 adb_write_frame(1) [OF aw] show ?case
    by (subst WriteFdExactly.simps) (auto split: sum.splits)
qed

section \<open>Protocol strings\<close>

text \<open>What a sender puts on the wire for a string.\<close>

definition protocol_string :: "string \<Rightarrow> bytes" where
  "protocol_string s = hex04 (length s) @ s"

lemma SendProtocolString_writes:
  assumes "length s \<le> MAX_PAYLOAD - 4" "NUL \<notin> set s" "writable_script (os_writes w fd)"
  obtains w' where "SendProtocolString fd s w = (Inr (), w')"
    "os_written w' = (os_written w)(fd := os_written w fd @ protocol_string s)"
    "writable_script (os_writes w' fd)"
proof -
  have "length s mod 2 ^ 32 = length s" using assms(1) by (simp add: MAX_PAYLOAD_def)
  moreover obtain w' where "WriteFdExactly fd (protocol_string s) w = (Inr (), w')"
    "os_written w' = (os_written w)(fd := os_written w fd @ protocol_string s)"
    "writable_script (os_writes w' fd)"
    by (rule WriteFdExactly_ok [OF assms(3)])
  ultimately show thesis
    using that assms by (simp add: SendProtocolString_def protocol_string_def)
qed

text \<open>A header of four hexadecimal digits makes the reader take that many bytes.\<close>

lemma ReadProtocolString_header:
  assumes "incoming v fd = h @ body" "length h = 4" "strtoul 16 h = (n, x, y)"
    "n \<le> length body" "n < STRING_MAX_SIZE"
  shows "\<exists>v'. ReadProtocolString fd v = Inr (Inr (take n body), v') \<and> incoming v' fd = drop n body"
proof -
  obtain v1 where v1: "ReadFdExactly fd 4 v = (Inr h, v1)" "incoming v1 fd = body"
    using ReadFdExactly_incoming [of 4 v fd] assms by auto
  obtain v2 where v2: "ReadFdExactly fd n v1 = (Inr (take n body), v2)" "incoming v2 fd = drop n body"
    using ReadFdExactly_incoming [of n v1 fd] assms v1(2) by auto
  show ?thesis using v1 v2 assms(3,5) by (simp add: ReadProtocolString_def)
qed

lemma ReadProtocolString_reads:
  assumes "length s < 65536" "incoming v fd = protocol_string s @ rest"
  shows "\<exists>v'. ReadProtocolString fd v = Inr (Inr s, v') \<and> incoming v' fd = rest"
proof -
  have "incoming v fd = hex04 (length s) @ (s @ rest)"
    using assms(2) by (simp add: protocol_string_def)
  from ReadProtocolString_header [OF this length_hex04 [OF assms(1)] strtoul_padded]
  show ?thesis using assms(1) by (simp add: STRING_MAX_SIZE_def)
qed

text \<open>
  Property C4. A string of at most \<open>0xffff\<close> bytes without NUL that is sent with
  \<open>SendProtocolString\<close> is read back by \<open>ReadProtocolString\<close>, whatever short writes and \<open>EAGAIN\<close> the
  sender meets, however the receiver's stream is cut into pieces, and with what follows it in the
  stream left unread.
\<close>

theorem protocol_string_roundtrip:
  assumes "length s < 65536" "NUL \<notin> set s" "writable_script (os_writes w fd)"
  shows "\<exists>w' m. SendProtocolString fd s w = (Inr (), w') \<and> os_written w' fd = os_written w fd @ m
           \<and> (\<forall>v gd rest. incoming v gd = m @ rest \<longrightarrow>
                (\<exists>v'. ReadProtocolString gd v = Inr (Inr s, v') \<and> incoming v' gd = rest))"
proof -
  have "length s \<le> MAX_PAYLOAD - 4" using assms(1) by (simp add: MAX_PAYLOAD_def)
  from SendProtocolString_writes [OF this assms(2,3)] obtain w' where
    "SendProtocolString fd s w = (Inr (), w')"
    "os_written w' = (os_written w)(fd := os_written w fd @ protocol_string s)" by blast
  then show ?thesis using ReadProtocolString_reads [OF assms(1)] by auto
qed

theorem protocol_string_roundtrip_witness:
  "\<exists>w' m. SendProtocolString 3 ''host:version''
            (os_init\<lparr>os_writes := (\<lambda>_. [WTake 5, WFail EAGAIN])\<rparr>) = (Inr (), w')
        \<and> os_written w' 3 = [] @ m
        \<and> (\<forall>v gd rest. incoming v gd = m @ rest \<longrightarrow>
              (\<exists>v'. ReadProtocolString gd v = Inr (Inr ''host:version'', v') \<and> incoming v' gd = rest))"
  using protocol_string_roundtrip [of "''host:version''"
      "os_init\<lparr>os_writes := (\<lambda>_. [WTake 5, WFail EAGAIN])\<rparr>" 3]
  by (simp add: NUL_def writable_script_def os_init_def)

lemma hex_five_digits:
  assumes "65536 \<le> n" "n < 16 ^ 5"
  shows "hex04 n = digits 16 (n div 16) @ [digit_char (n mod 16)]" "length (digits 16 (n div 16)) = 4"
proof -
  have "16 ^ 4 \<le> n" using assms(1) by simp
  then have l: "4 < length (digits 16 n)" by (intro digits_length_ge) simp_all
  have d: "digits 16 n = digits 16 (n div 16) @ [digit_char (n mod 16)]"
    using assms(1) by (simp add: digits.simps [of 16 n])
  show "hex04 n = digits 16 (n div 16) @ [digit_char (n mod 16)]"
    using l d by (simp add: pad0_def)
  have "n div 16 < 16 ^ 4" using assms(2) by (simp add: less_mult_imp_div_less)
  then have "length (digits 16 (n div 16)) \<le> 4" by (intro digits_length) simp_all
  then show "length (digits 16 (n div 16)) = 4" using l d by simp
qed

text \<open>
  Property C13. \<open>SendProtocolString\<close> also accepts strings of \<open>0x10000\<close> to \<open>MAX_PAYLOAD - 4\<close> bytes, but
  their length takes five hexadecimal digits: a receiver takes the first four for the length and
  returns the fifth digit followed by the beginning of the string. No string in that range is
  transmitted.
\<close>

theorem protocol_string_overflow:
  assumes "65536 \<le> length s" "length s \<le> MAX_PAYLOAD - 4" "NUL \<notin> set s"
    and "writable_script (os_writes w fd)"
  shows "\<exists>w' m. SendProtocolString fd s w = (Inr (), w') \<and> os_written w' fd = os_written w fd @ m
           \<and> (\<forall>v gd rest. incoming v gd = m @ rest \<longrightarrow>
                (\<exists>v'. ReadProtocolString gd v =
                        Inr (Inr (digit_char (length s mod 16) # take (length s div 16 - 1) s), v')))"
proof -
  let ?n = "length s"
  obtain w' where w': "SendProtocolString fd s w = (Inr (), w')"
    "os_written w' = (os_written w)(fd := os_written w fd @ protocol_string s)"
    using SendProtocolString_writes [OF assms(2-4)] by blast
  have n: "65536 \<le> ?n" "?n < 16 ^ 5" using assms(1,2) by (simp_all add: MAX_PAYLOAD_def)
  have "\<exists>v'. ReadProtocolString gd v
          = Inr (Inr (digit_char (?n mod 16) # take (?n div 16 - 1) s), v')"
    if inc: "incoming v gd = protocol_string s @ rest" for v gd rest
  proof -
    have i: "incoming v gd = digits 16 (?n div 16) @ (digit_char (?n mod 16) # s @ rest)"
      using inc hex_five_digits(1) [OF n] by (simp add: protocol_string_def)
    have small: "?n div 16 < 2 ^ 62" using n(2) by simp
    then have st: "strtoul 16 (digits 16 (?n div 16)) = (?n div 16, False, [])"
      using strtoul_padded [of 16 "?n div 16" 0] by simp
    have "?n div 16 \<le> length (digit_char (?n mod 16) # s @ rest)" by simp
    from ReadProtocolString_header [OF i hex_five_digits(2) [OF n] st this] small n(1)
    show ?thesis by (auto simp: STRING_MAX_SIZE_def take_Cons')
  qed
  then show ?thesis using w' by auto
qed

theorem protocol_string_overflow_witness:
  "\<exists>w' m. SendProtocolString 3 (replicate 65536 CHR ''a'') os_init = (Inr (), w')
        \<and> os_written w' 3 = [] @ m
        \<and> (\<forall>v gd rest. incoming v gd = m @ rest \<longrightarrow>
              (\<exists>v'. ReadProtocolString gd v =
                      Inr (Inr (CHR ''0'' # take 4095 (replicate 65536 CHR ''a'')), v')))"
  using protocol_string_overflow [of "replicate 65536 CHR ''a''" os_init 3]
  by (simp add: NUL_def writable_script_def os_init_def MAX_PAYLOAD_def)

section \<open>Shell protocol packets\<close>

text \<open>One read inside a packet takes as much of it as the buffer holds.\<close>

lemma ShellProtocol_Read_data:
  assumes "0 < sp_bytes_left p" "incoming w (sp_fd p) = body @ rest" "length body = sp_bytes_left p"
  obtains p' w' where "ShellProtocol_Read p w = (True, p', w')" "sp_id p' = sp_id p"
    "take (sp_data_length p') (sp_data p') = take (data_capacity p) body"
    "sp_bytes_left p' = length (drop (data_capacity p) body)"
    "incoming w' (sp_fd p) = drop (data_capacity p) body @ rest"
    "sp_fd p' = sp_fd p" "data_capacity p' = data_capacity p"
proof -
  let ?r = "min (sp_bytes_left p) (data_capacity p)"
  have le: "?r \<le> length (incoming w (sp_fd p))" using assms by simp
  obtain w1 where w1: "ReadFdExactly (sp_fd p) ?r w = (Inr (take ?r body), w1)"
    "incoming w1 (sp_fd p) = drop ?r body @ rest"
    using ReadFdExactly_incoming [OF le] assms by auto
  have z: "ReadFdExactly (sp_fd p) 0 w = (Inr [], w)" by (simp add: ReadFdExactly.simps)
  have t: "take ?r body = take (data_capacity p) body" "drop ?r body = drop (data_capacity p) body"
    using assms(3) by (simp_all add: min_def)
  have "ShellProtocol_Read p w =
          (True, p\<lparr>sp_data := take ?r body @ drop ?r (sp_data p),
                    sp_bytes_left := sp_bytes_left p - ?r, sp_data_length := ?r\<rparr>, w1)"
    using assms(1) w1(1) z by (auto simp: ShellProtocol_Read_def Let_def)
  then show thesis
    by (rule that) (use assms(3) w1(2) t in \<open>auto simp: data_capacity_def min_def\<close>)
qed

text \<open>At the start of a packet, the header is read first.\<close>

lemma ShellProtocol_Read_header:
  assumes "sp_bytes_left p = 0" "incoming w (sp_fd p) = pid # le32 n @ body"
  obtains w' where "incoming w' (sp_fd p) = body"
    "ShellProtocol_Read p w =
       (let p1 = p\<lparr>sp_id := pid, sp_bytes_left := unat n, sp_data_length := 0\<rparr>
        in if n = 0 then (True, p1, w') else ShellProtocol_Read p1 w')"
proof -
  obtain w1 where w1: "ReadFdExactly (sp_fd p) 5 w = (Inr (pid # le32 n), w1)"
    "incoming w1 (sp_fd p) = body"
    using ReadFdExactly_incoming [of 5 w "sp_fd p"] assms(2) by auto
  have "of_le32 (le32 n) = n" using of_le32_le32 [of n "[]"] by simp
  moreover have "n \<noteq> 0 \<Longrightarrow> unat n \<noteq> 0" by (simp add: unat_eq_0)
  ultimately show thesis
    using w1 assms(1) by (intro that [of w1]) (auto simp: ShellProtocol_Read_def kHeaderSize_def Let_def)
qed

lemma ShellProtocol_reads_data:
  assumes "0 < sp_bytes_left p" "incoming w (sp_fd p) = body @ rest" "length body = sp_bytes_left p"
    and "0 < data_capacity p"
  shows "\<exists>n xs p' w'. ShellProtocol_reads n p w = (xs, p', w') \<and> concat (map snd xs) = body
           \<and> length xs = n \<and> 0 < n \<and> (\<forall>x \<in> set xs. fst x = sp_id p) \<and> sp_bytes_left p' = 0
           \<and> incoming w' (sp_fd p) = rest"
  using assms
proof (induction "sp_bytes_left p" arbitrary: p w body rule: less_induct)
  case less
  obtain p1 w1 where r: "ShellProtocol_Read p w = (True, p1, w1)" "sp_id p1 = sp_id p"
    "take (sp_data_length p1) (sp_data p1) = take (data_capacity p) body"
    "sp_bytes_left p1 = length (drop (data_capacity p) body)"
    "incoming w1 (sp_fd p) = drop (data_capacity p) body @ rest"
    "sp_fd p1 = sp_fd p" "data_capacity p1 = data_capacity p"
    by (rule ShellProtocol_Read_data [OF less.prems(1-3)])
  show ?case
  proof (cases "sp_bytes_left p1 = 0")
    case True
    then show ?thesis using r by (intro exI [of _ "1"]) simp
  next
    case False
    then have "\<exists>n xs p' w'. ShellProtocol_reads n p1 w1 = (xs, p', w')
        \<and> concat (map snd xs) = drop (data_capacity p) body
        \<and> length xs = n \<and> 0 < n \<and> (\<forall>x \<in> set xs. fst x = sp_id p1) \<and> sp_bytes_left p' = 0
        \<and> incoming w' (sp_fd p1) = rest"
      by (intro less.hyps) (use less.prems r in auto)
    then obtain n xs p' w' where "ShellProtocol_reads n p1 w1 = (xs, p', w')"
        "concat (map snd xs) = drop (data_capacity p) body" "length xs = n"
        "\<forall>x \<in> set xs. fst x = sp_id p1" "sp_bytes_left p' = 0" "incoming w' (sp_fd p1) = rest"
      by blast
    then show ?thesis using r by (intro exI [of _ "Suc n"]) simp
  qed
qed

lemma ShellProtocol_reads_packet:
  assumes "sp_bytes_left p = 0" "0 < data_capacity p" "length body < 2 ^ 32"
    and "incoming w (sp_fd p) = pid # le32 (of_nat (length body)) @ body @ rest"
  shows "\<exists>n xs p' w'. ShellProtocol_reads n p w = (xs, p', w') \<and> concat (map snd xs) = body
           \<and> length xs = n \<and> 0 < n \<and> (\<forall>x \<in> set xs. fst x = pid) \<and> sp_bytes_left p' = 0
           \<and> incoming w' (sp_fd p) = rest"
proof -
  let ?n = "of_nat (length body) :: u32"
  let ?p = "p\<lparr>sp_id := pid, sp_bytes_left := unat ?n, sp_data_length := 0\<rparr>"
  have un: "unat ?n = length body" using assms(3) by (simp add: unat_of_nat)
  obtain w1 where w1: "incoming w1 (sp_fd p) = body @ rest"
    "ShellProtocol_Read p w = (if ?n = 0 then (True, ?p, w1) else ShellProtocol_Read ?p w1)"
    using ShellProtocol_Read_header [OF assms(1,4), unfolded Let_def] .
  show ?thesis
  proof (cases "body = []")
    case True
    then show ?thesis using w1 un by (intro exI [of _ 1]) simp
  next
    case False
    then have "0 < sp_bytes_left ?p" "length body = sp_bytes_left ?p" using un by simp_all
    with ShellProtocol_reads_data [of ?p w1 body rest] assms(2) w1(1) obtain n xs p' w' where
      r: "ShellProtocol_reads n ?p w1 = (xs, p', w')" "concat (map snd xs) = body"
        "length xs = n" "0 < n" "\<forall>x \<in> set xs. fst x = pid" "sp_bytes_left p' = 0"
        "incoming w' (sp_fd p) = rest"
      by (auto simp: data_capacity_def)
    have "?n \<noteq> 0" using un False by (metis length_0_conv unat_0)
    then have "ShellProtocol_Read p w = ShellProtocol_Read ?p w1" using w1(2) by simp
    then have "ShellProtocol_reads n p w = ShellProtocol_reads n ?p w1"
      using r(4) by (cases n) simp_all
    with r show ?thesis by (intro exI [of _ n]) simp
  qed
qed



end
