(* ===== verification/FdEvent.thy ===== *)
theory FdEvent
  imports Os
begin

text \<open>
  \<open>fdevent.cpp\<close>: the table of descriptors the main loop polls, the list of pending events and the
  queue of functions to run on the main thread. A callback and its argument are one value of the
  type \<^typ>\<open>'f\<close>, a queued function is a value of \<^typ>\<open>'r\<close>; the programs that call them are in the later
  theories. Objects live in a heap indexed by their identifier, so a dangling pointer is a missing
  entry. The state owns the operating system, because destroying an event closes its descriptor.
\<close>

section \<open>Flags\<close>

definition FDE_READ :: u16 where "FDE_READ = 0x0001"
definition FDE_WRITE :: u16 where "FDE_WRITE = 0x0002"
definition FDE_ERROR :: u16 where "FDE_ERROR = 0x0004"
definition FDE_EVENTMASK :: u16 where "FDE_EVENTMASK = 0x00ff"
definition FDE_STATEMASK :: u16 where "FDE_STATEMASK = 0xff00"
definition FDE_ACTIVE :: u16 where "FDE_ACTIVE = 0x0100"
definition FDE_PENDING :: u16 where "FDE_PENDING = 0x0200"
definition FDE_CREATED :: u16 where "FDE_CREATED = 0x0400"

definition POLLIN :: u16 where "POLLIN = 0x0001"
definition POLLOUT :: u16 where "POLLOUT = 0x0004"
definition POLLERR :: u16 where "POLLERR = 0x0008"
definition POLLHUP :: u16 where "POLLHUP = 0x0010"
definition POLLNVAL :: u16 where "POLLNVAL = 0x0020"
definition POLLRDHUP :: u16 where "POLLRDHUP = 0x2000"

text \<open>The test \<open>if (x & f)\<close>.\<close>

definition has :: "u16 \<Rightarrow> u16 \<Rightarrow> bool" where
  "has x f \<longleftrightarrow> x AND f \<noteq> 0"

section \<open>State\<close>

record 'f fdevent =
  fde_id :: nat
  fde_fd :: int
  fde_state :: u16
  fde_events :: u16
  fde_func :: 'f

record ('f, 'r) fdevents =
  fde_heap :: "nat \<rightharpoonup> 'f fdevent"
  poll_node_map :: "int \<rightharpoonup> nat \<times> u16"
  pending_list :: "nat list"
  fdevent_id :: nat
  run_needs_flush :: bool
  run_queue_notify_fd :: int
  run_queue :: "'r list"
  terminate_loop :: bool
  fd_os :: os

definition fdevents_init :: "os \<Rightarrow> ('f, 'r) fdevents" where
  "fdevents_init w =
     \<lparr>fde_heap = (\<lambda>_. None), poll_node_map = (\<lambda>_. None), pending_list = [], fdevent_id = 0,
      run_needs_flush = False, run_queue_notify_fd = -1, run_queue = [], terminate_loop = False,
      fd_os = w\<rparr>"

definition fde_deref :: "nat \<Rightarrow> ('f, 'r) fdevents \<Rightarrow> 'f fdevent res" where
  "fde_deref i s = (case fde_heap s i of None \<Rightarrow> Inl UseAfterFree | Some f \<Rightarrow> Inr f)"

definition fde_put :: "nat \<Rightarrow> 'f fdevent \<Rightarrow> ('f, 'r) fdevents \<Rightarrow> ('f, 'r) fdevents" where
  "fde_put i f s = s\<lparr>fde_heap := (fde_heap s)(i \<mapsto> f)\<rparr>"

section \<open>Operations\<close>

definition fdevent_create ::
  "int \<Rightarrow> 'f \<Rightarrow> ('f, 'r) fdevents \<Rightarrow> (nat \<times> ('f, 'r) fdevents) res" where
  "fdevent_create fd func s =
     rbind (check_that (fd \<ge> 0) ''CHECK_GE(fd, 0)'') (\<lambda>_.
     (let i = fdevent_id s;
          fde = \<lparr>fde_id = i, fde_fd = fd, fde_state = FDE_ACTIVE, fde_events = 0, fde_func = func\<rparr>;
          s1 = s\<lparr>fdevent_id := fdevent_id s + 1\<rparr>
      in rbind (check_that (poll_node_map s1 fd = None) ''install existing fd'') (\<lambda>_.
         Inr (i, (fde_put i (fde\<lparr>fde_state := fde_state fde OR FDE_CREATED\<rparr>) s1)
                  \<lparr>poll_node_map := (poll_node_map s1)(fd \<mapsto> (i, POLLRDHUP))\<rparr>))))"

text \<open>\<open>fdevent_destroy\<close> of a non-null pointer.\<close>

definition fdevent_destroy :: "nat \<Rightarrow> ('f, 'r) fdevents \<Rightarrow> ('f, 'r) fdevents res" where
  "fdevent_destroy i s =
     rbind (fde_deref i s) (\<lambda>fde.
     rbind (check_that (has (fde_state fde) FDE_CREATED)
              ''destroying fde not created by fdevent_create()'') (\<lambda>_.
     (let s1 =
        (if has (fde_state fde) FDE_ACTIVE
         then s\<lparr>poll_node_map := (poll_node_map s)(fde_fd fde := None),
                pending_list := (if has (fde_state fde) FDE_PENDING
                                 then filter (\<lambda>j. j \<noteq> i) (pending_list s) else pending_list s),
                fd_os := adb_close (fde_fd fde) (fd_os s)\<rparr>
         else s)
      in Inr (s1\<lparr>fde_heap := (fde_heap s1)(i := None)\<rparr>))))"

definition poll_update :: "u16 \<Rightarrow> u16 \<Rightarrow> u16" where
  "poll_update events pe =
     (let p1 = (if has events FDE_READ then pe OR POLLIN else pe AND NOT POLLIN)
      in if has events FDE_WRITE then p1 OR POLLOUT else p1 AND NOT POLLOUT)"

definition fdevent_update :: "nat \<Rightarrow> u16 \<Rightarrow> ('f, 'r) fdevents \<Rightarrow> ('f, 'r) fdevents res" where
  "fdevent_update i events s =
     rbind (fde_deref i s) (\<lambda>fde.
     (case poll_node_map s (fde_fd fde) of
        None \<Rightarrow> Inl (Abort ''it != g_poll_node_map.end()'')
      | Some (j, pe) \<Rightarrow>
          Inr (fde_put i (fde\<lparr>fde_state := (fde_state fde AND FDE_STATEMASK) OR events\<rparr>) s
               \<lparr>poll_node_map := (poll_node_map s)(fde_fd fde \<mapsto> (j, poll_update events pe))\<rparr>)))"

definition fdevent_set :: "nat \<Rightarrow> u16 \<Rightarrow> ('f, 'r) fdevents \<Rightarrow> ('f, 'r) fdevents res" where
  "fdevent_set i events0 s =
     rbind (fde_deref i s) (\<lambda>fde.
     (let events = events0 AND FDE_EVENTMASK
      in if fde_state fde AND FDE_EVENTMASK = events then Inr s
         else rbind (check_that (has (fde_state fde) FDE_ACTIVE) ''fde->state & FDE_ACTIVE'') (\<lambda>_.
              rbind (fdevent_update i events s) (\<lambda>s1.
              rbind (fde_deref i s1) (\<lambda>fde1.
              if has (fde_state fde1) FDE_PENDING
              then (let e = fde_events fde1 AND events
                    in if e = 0
                       then Inr (fde_put i (fde1\<lparr>fde_state := fde_state fde1 AND NOT FDE_PENDING,
                                                 fde_events := e\<rparr>) s1
                                 \<lparr>pending_list := filter (\<lambda>j. j \<noteq> i) (pending_list s1)\<rparr>)
                       else Inr (fde_put i (fde1\<lparr>fde_events := e\<rparr>) s1))
              else Inr s1)))))"

definition fdevent_add :: "nat \<Rightarrow> u16 \<Rightarrow> ('f, 'r) fdevents \<Rightarrow> ('f, 'r) fdevents res" where
  "fdevent_add i events s =
     rbind (fde_deref i s) (\<lambda>fde. fdevent_set i ((fde_state fde AND FDE_EVENTMASK) OR events) s)"

definition fdevent_del :: "nat \<Rightarrow> u16 \<Rightarrow> ('f, 'r) fdevents \<Rightarrow> ('f, 'r) fdevents res" where
  "fdevent_del i events s =
     rbind (fde_deref i s) (\<lambda>fde. fdevent_set i ((fde_state fde AND FDE_EVENTMASK) AND NOT events) s)"

text \<open>
  \<open>fdevent_process\<close> after \<open>poll\<close> returned: \<open>polled\<close> lists the descriptors of the table, in the order
  of the hash table, with their \<open>revents\<close>.
\<close>

definition revents_events :: "u16 \<Rightarrow> u16" where
  "revents_events r =
     (let e0 = 0;
          e1 = (if has r POLLIN then e0 OR FDE_READ else e0);
          e2 = (if has r POLLOUT then e1 OR FDE_WRITE else e1);
          e3 = (if has r ((POLLERR OR POLLHUP) OR POLLNVAL) then e2 OR (FDE_READ OR FDE_ERROR) else e2)
      in if has r POLLRDHUP then e3 OR (FDE_READ OR FDE_ERROR) else e3)"

fun process_polled :: "(int \<times> u16) list \<Rightarrow> ('f, 'r) fdevents \<Rightarrow> ('f, 'r) fdevents res" where
  "process_polled [] s = Inr s"
| "process_polled ((fd, r) # rest) s =
     (let events = revents_events r
      in if events = 0 then process_polled rest s
         else (case poll_node_map s fd of
                 None \<Rightarrow> Inl (Abort ''it != g_poll_node_map.end()'')
               | Some (i, _) \<Rightarrow>
                   rbind (fde_deref i s) (\<lambda>fde.
                   rbind (check_that (fde_fd fde = fd) ''CHECK_EQ(fde->fd.get(), pollfd.fd)'') (\<lambda>_.
                   process_polled rest
                     (fde_put i (fde\<lparr>fde_events := fde_events fde OR events,
                                     fde_state := fde_state fde OR FDE_PENDING\<rparr>) s
                      \<lparr>pending_list := pending_list s @ [i]\<rparr>)))))"

definition fdevent_process :: "(int \<times> u16) list \<Rightarrow> ('f, 'r) fdevents \<Rightarrow> ('f, 'r) fdevents res" where
  "fdevent_process polled s =
     rbind (check_that (length polled > 0) ''CHECK_GT(pollfds.size(), 0u)'')
       (\<lambda>_. process_polled polled s)"

text \<open>
  \<open>fdevent_call_fdfunc\<close> up to the call: the descriptor, the events and the callback. The caller
  has taken the object off the pending list.
\<close>

definition fdevent_call_fdfunc ::
  "nat \<Rightarrow> ('f, 'r) fdevents \<Rightarrow> (int \<times> u16 \<times> 'f \<times> ('f, 'r) fdevents) res" where
  "fdevent_call_fdfunc i s =
     rbind (fde_deref i s) (\<lambda>fde.
     rbind (check_that (has (fde_state fde) FDE_PENDING) ''fde->state & FDE_PENDING'') (\<lambda>_.
     Inr (fde_fd fde, fde_events fde, fde_func fde,
          fde_put i (fde\<lparr>fde_events := 0, fde_state := fde_state fde AND NOT FDE_PENDING\<rparr>) s)))"

text \<open>One round of the inner loop of \<open>fdevent_loop\<close>, up to the call; \<open>None\<close> when nothing is pending.\<close>

definition fdevent_next_call ::
  "('f, 'r) fdevents \<Rightarrow> (int \<times> u16 \<times> 'f \<times> ('f, 'r) fdevents) option res" where
  "fdevent_next_call s =
     (case pending_list s of
        [] \<Rightarrow> Inr None
      | i # rest \<Rightarrow> rbind (fdevent_call_fdfunc i (s\<lparr>pending_list := rest\<rparr>)) (\<lambda>x. Inr (Some x)))"

definition fdevent_run_on_main_thread :: "'r \<Rightarrow> ('f, 'r) fdevents \<Rightarrow> ('f, 'r) fdevents res" where
  "fdevent_run_on_main_thread fn s =
     (let s1 = s\<lparr>run_queue := run_queue s @ [fn]\<rparr>
      in if run_queue_notify_fd s1 \<noteq> -1
         then (case adb_write (run_queue_notify_fd s1) [NUL] (fd_os s1) of
                 (Inr rc, w) \<Rightarrow>
                   if rc = 0 then Inl (Abort ''run queue notify fd was closed?'')
                   else Inr (s1\<lparr>fd_os := w\<rparr>)
               | (Inl e, w) \<Rightarrow>
                   if e \<noteq> EAGAIN then Inl (Abort ''failed to write to run queue notify fd'')
                   else Inr (s1\<lparr>fd_os := w\<rparr>))
         else Inr s1)"

text \<open>\<open>fdevent_run_func\<close>, the callback of the notification descriptor.\<close>

definition fdevent_run_func :: "int \<Rightarrow> u16 \<Rightarrow> ('f, 'r) fdevents \<Rightarrow> ('f, 'r) fdevents res" where
  "fdevent_run_func fd ev s =
     rbind (check_that (fd \<ge> 0) ''CHECK_GE(fd, 0)'') (\<lambda>_.
     rbind (check_that (has ev FDE_READ) ''ev & FDE_READ'') (\<lambda>_.
     (case adb_read fd 1024 (fd_os s) of
        (Inl e, w) \<Rightarrow> Inl (Abort ''failed to empty run queue notify fd'')
      | (Inr _, w) \<Rightarrow> Inr (s\<lparr>fd_os := w, run_needs_flush := True\<rparr>))))"

text \<open>\<open>fdevent_run_setup\<close> up to its flush, with the two ends of the socket pair.\<close>

definition fdevent_run_setup ::
  "int \<Rightarrow> int \<Rightarrow> 'f \<Rightarrow> ('f, 'r) fdevents \<Rightarrow> ('f, 'r) fdevents res" where
  "fdevent_run_setup s0 s1 run_func s =
     rbind (check_that (run_queue_notify_fd s = -1) ''run_queue_notify_fd.get() == -1'') (\<lambda>_.
     rbind (fdevent_create s1 run_func (s\<lparr>run_queue_notify_fd := s0\<rparr>)) (\<lambda>(i, t).
     fdevent_add i FDE_READ t))"

text \<open>One turn of \<open>fdevent_run_flush\<close>: the function at the front of the queue.\<close>

definition fdevent_next_run :: "('f, 'r) fdevents \<Rightarrow> ('r \<times> ('f, 'r) fdevents) option" where
  "fdevent_next_run s =
     (case run_queue s of [] \<Rightarrow> None | fn # rest \<Rightarrow> Some (fn, s\<lparr>run_queue := rest\<rparr>))"

definition fdevent_terminate_loop :: "('f, 'r) fdevents \<Rightarrow> ('f, 'r) fdevents" where
  "fdevent_terminate_loop s = s\<lparr>terminate_loop := True\<rparr>"

definition fdevent_reset :: "('f, 'r) fdevents \<Rightarrow> ('f, 'r) fdevents" where
  "fdevent_reset s =
     s\<lparr>poll_node_map := (\<lambda>_. None), pending_list := [],
       fd_os := (if run_queue_notify_fd s \<noteq> -1 then adb_close (run_queue_notify_fd s) (fd_os s)
                 else fd_os s),
       run_queue_notify_fd := -1, run_queue := [], terminate_loop := False\<rparr>"

section \<open>Bits\<close>

lemmas fde_flag_defs = FDE_READ_def FDE_WRITE_def FDE_ERROR_def FDE_ACTIVE_def FDE_PENDING_def
  FDE_CREATED_def POLLIN_def POLLOUT_def POLLERR_def POLLHUP_def POLLNVAL_def POLLRDHUP_def

lemma has_power: "has x (2 ^ n) \<longleftrightarrow> bit x n"
  by (simp add: has_def and_exp_eq_0_iff_not_bit)

lemma flag_powers:
  "FDE_READ = 2 ^ 0" "FDE_WRITE = 2 ^ 1" "FDE_ERROR = 2 ^ 2" "FDE_ACTIVE = 2 ^ 8"
  "FDE_PENDING = 2 ^ 9" "FDE_CREATED = 2 ^ 10" "POLLIN = 2 ^ 0" "POLLOUT = 2 ^ 2" "POLLRDHUP = 2 ^ 13"
  by (simp_all add: fde_flag_defs)

lemma has_bits:
  "has x FDE_READ \<longleftrightarrow> bit x 0" "has x FDE_WRITE \<longleftrightarrow> bit x 1" "has x FDE_ERROR \<longleftrightarrow> bit x 2"
  "has x FDE_ACTIVE \<longleftrightarrow> bit x 8" "has x FDE_PENDING \<longleftrightarrow> bit x 9" "has x FDE_CREATED \<longleftrightarrow> bit x 10"
  "has x POLLIN \<longleftrightarrow> bit x 0" "has x POLLOUT \<longleftrightarrow> bit x 2" "has x POLLRDHUP \<longleftrightarrow> bit x 13"
  unfolding flag_powers has_power by simp_all

lemma bit_flags:
  "bit FDE_READ n \<longleftrightarrow> n = 0" "bit FDE_WRITE n \<longleftrightarrow> n = 1" "bit FDE_ERROR n \<longleftrightarrow> n = 2"
  "bit FDE_ACTIVE n \<longleftrightarrow> n = 8" "bit FDE_PENDING n \<longleftrightarrow> n = 9" "bit FDE_CREATED n \<longleftrightarrow> n = 10"
  "bit POLLIN n \<longleftrightarrow> n = 0" "bit POLLOUT n \<longleftrightarrow> n = 2" "bit POLLRDHUP n \<longleftrightarrow> n = 13"
  unfolding flag_powers bit_exp_iff by auto

lemma bit_masks:
  "bit FDE_EVENTMASK n \<longleftrightarrow> n < 8" "bit FDE_STATEMASK n \<longleftrightarrow> 8 \<le> n \<and> n < 16"
proof -
  have e: "FDE_EVENTMASK = mask 8" by (simp add: FDE_EVENTMASK_def mask_eq_exp_minus_1)
  show "bit FDE_EVENTMASK n \<longleftrightarrow> n < 8" unfolding e bit_mask_iff by auto
  have m: "FDE_STATEMASK = NOT (mask 8)" by (simp add: FDE_STATEMASK_def mask_eq_exp_minus_1)
  show "bit FDE_STATEMASK n \<longleftrightarrow> 8 \<le> n \<and> n < 16"
    unfolding m bit_not_iff bit_mask_iff by auto
qed

lemmas fde_bits = has_bits bit_flags bit_masks bit_and_iff bit_or_iff bit_not_iff

lemma mask_idem [simp]: "(e AND FDE_EVENTMASK) AND FDE_EVENTMASK = e AND FDE_EVENTMASK"
  by (rule bit_word_eqI) (auto simp: fde_bits)

lemma state_after_update:
  fixes st e :: u16
  defines "st' \<equiv> (st AND FDE_STATEMASK) OR (e AND FDE_EVENTMASK)"
  shows "st' AND FDE_EVENTMASK = e AND FDE_EVENTMASK"
    "has st' FDE_ACTIVE = has st FDE_ACTIVE" "has st' FDE_PENDING = has st FDE_PENDING"
    "has st' FDE_CREATED = has st FDE_CREATED"
    "has st' FDE_READ = has e FDE_READ" "has st' FDE_WRITE = has e FDE_WRITE"
  unfolding st'_def by (auto simp: fde_bits intro!: bit_word_eqI)

lemma clear_pending:
  fixes st :: u16
  shows "(st AND NOT FDE_PENDING) AND FDE_EVENTMASK = st AND FDE_EVENTMASK"
    "has (st AND NOT FDE_PENDING) FDE_ACTIVE = has st FDE_ACTIVE"
    "\<not> has (st AND NOT FDE_PENDING) FDE_PENDING"
    "has (st AND NOT FDE_PENDING) FDE_CREATED = has st FDE_CREATED"
    "has (st AND NOT FDE_PENDING) FDE_READ = has st FDE_READ"
    "has (st AND NOT FDE_PENDING) FDE_WRITE = has st FDE_WRITE"
  by (auto simp: fde_bits intro!: bit_word_eqI)

lemma set_pending:
  fixes st :: u16
  shows "(st OR FDE_PENDING) AND FDE_EVENTMASK = st AND FDE_EVENTMASK"
    "has (st OR FDE_PENDING) FDE_ACTIVE = has st FDE_ACTIVE" "has (st OR FDE_PENDING) FDE_PENDING"
    "has (st OR FDE_PENDING) FDE_CREATED = has st FDE_CREATED"
    "has (st OR FDE_PENDING) FDE_READ = has st FDE_READ"
    "has (st OR FDE_PENDING) FDE_WRITE = has st FDE_WRITE"
  by (auto simp: fde_bits intro!: bit_word_eqI)

lemma new_state:
  "has (FDE_ACTIVE OR FDE_CREATED) FDE_ACTIVE" "has (FDE_ACTIVE OR FDE_CREATED) FDE_CREATED"
  "\<not> has (FDE_ACTIVE OR FDE_CREATED) FDE_PENDING" "\<not> has (FDE_ACTIVE OR FDE_CREATED) FDE_READ"
  "\<not> has (FDE_ACTIVE OR FDE_CREATED) FDE_WRITE" "(FDE_ACTIVE OR FDE_CREATED) AND FDE_EVENTMASK = 0"
  by (auto simp: fde_bits intro!: bit_word_eqI)

lemma poll_update_bits:
  "has (poll_update e pe) POLLIN = has e FDE_READ" "has (poll_update e pe) POLLOUT = has e FDE_WRITE"
  "has (poll_update e pe) POLLRDHUP = has pe POLLRDHUP"
  by (auto simp: poll_update_def Let_def fde_bits)

lemma POLLRDHUP_bits: "\<not> has POLLRDHUP POLLIN" "\<not> has POLLRDHUP POLLOUT" "has POLLRDHUP POLLRDHUP"
  by (simp_all add: fde_bits)

lemma has_masked [simp]:
  "has (e AND FDE_EVENTMASK) FDE_READ = has e FDE_READ"
  "has (e AND FDE_EVENTMASK) FDE_WRITE = has e FDE_WRITE"
  by (simp_all add: fde_bits)

lemma has_0 [simp]: "\<not> has 0 e"
  by (simp add: has_def)

lemma masked_events: "has (x AND (e AND FDE_EVENTMASK)) FDE_WRITE \<longleftrightarrow> has x FDE_WRITE \<and> has e FDE_WRITE"
  by (auto simp: fde_bits)

lemma revents_write:
  "has (ev OR revents_events r) FDE_WRITE \<longleftrightarrow> has ev FDE_WRITE \<or> has r POLLOUT"
  by (auto simp: revents_events_def Let_def fde_bits)

lemma or_eq_0: "(a :: u16) OR b = 0 \<longleftrightarrow> a = 0 \<and> b = 0"
  by (rule or_eq_0_iff)

section \<open>Invariant\<close>

definition fde_ok :: "('f, 'r) fdevents \<Rightarrow> nat \<Rightarrow> 'f fdevent \<Rightarrow> bool" where
  "fde_ok s i f \<longleftrightarrow>
     fde_id f = i \<and> i < fdevent_id s \<and> fde_fd f \<ge> 0
     \<and> has (fde_state f) FDE_CREATED \<and> has (fde_state f) FDE_ACTIVE
     \<and> (case poll_node_map s (fde_fd f) of
          None \<Rightarrow> False
        | Some (j, pe) \<Rightarrow> j = i \<and> has pe POLLRDHUP \<and> has pe POLLIN = has (fde_state f) FDE_READ
            \<and> has pe POLLOUT = has (fde_state f) FDE_WRITE)
     \<and> has (fde_state f) FDE_PENDING = (i \<in> set (pending_list s))
     \<and> (fde_events f = 0 \<longleftrightarrow> i \<notin> set (pending_list s))
     \<and> (has (fde_events f) FDE_WRITE \<longrightarrow> has (fde_state f) FDE_WRITE)"

definition fdevents_inv :: "('f, 'r) fdevents \<Rightarrow> bool" where
  "fdevents_inv s \<longleftrightarrow>
     (\<forall>i f. fde_heap s i = Some f \<longrightarrow> fde_ok s i f)
     \<and> (\<forall>fd i pe. poll_node_map s fd = Some (i, pe) \<longrightarrow> (\<exists>f. fde_heap s i = Some f \<and> fde_fd f = fd))
     \<and> distinct (pending_list s) \<and> set (pending_list s) \<subseteq> dom (fde_heap s)"

text \<open>
  What a client sees of the table: for each event object its descriptor, the events it is
  interested in, and its callback.
\<close>

definition fde_view :: "('f, 'r) fdevents \<Rightarrow> nat \<rightharpoonup> int \<times> u16 \<times> 'f" where
  "fde_view s i =
     map_option (\<lambda>f. (fde_fd f, fde_state f AND FDE_EVENTMASK, fde_func f)) (fde_heap s i)"

text \<open>The components no operation on the table touches.\<close>

definition fde_rest :: "('f, 'r) fdevents \<Rightarrow> bool \<times> int \<times> 'r list \<times> bool" where
  "fde_rest s = (run_needs_flush s, run_queue_notify_fd s, run_queue s, terminate_loop s)"

lemma fdevents_init_inv [simp]: "fdevents_inv (fdevents_init w)"
  by (simp add: fdevents_inv_def fdevents_init_def)

section \<open>Every operation keeps the invariant\<close>

lemma fdevents_invD:
  assumes "fdevents_inv s" "fde_heap s i = Some f"
  obtains pe where "fde_id f = i" "i < fdevent_id s" "fde_fd f \<ge> 0" "has (fde_state f) FDE_CREATED"
    "has (fde_state f) FDE_ACTIVE" "poll_node_map s (fde_fd f) = Some (i, pe)" "has pe POLLRDHUP"
    "has pe POLLIN = has (fde_state f) FDE_READ" "has pe POLLOUT = has (fde_state f) FDE_WRITE"
    "has (fde_state f) FDE_PENDING = (i \<in> set (pending_list s))"
    "fde_events f = 0 \<longleftrightarrow> i \<notin> set (pending_list s)"
    "has (fde_events f) FDE_WRITE \<longrightarrow> has (fde_state f) FDE_WRITE"
proof -
  have ok: "fde_ok s i f" using assms by (simp add: fdevents_inv_def)
  show thesis
  proof (cases "poll_node_map s (fde_fd f)")
    case None
    then show thesis using ok by (simp add: fde_ok_def)
  next
    case (Some p)
    obtain j pe where p: "p = (j, pe)" by fastforce
    show thesis by (rule that [of pe]) (use ok Some p in \<open>simp_all add: fde_ok_def\<close>)
  qed
qed

lemma fdevents_inv_poll:
  assumes "fdevents_inv s" "poll_node_map s fd = Some (i, pe)"
  obtains f where "fde_heap s i = Some f" "fde_fd f = fd"
  using assms unfolding fdevents_inv_def by blast

lemma fde_fd_inj:
  assumes "fdevents_inv s" "fde_heap s i = Some f" "fde_heap s j = Some g" "fde_fd f = fde_fd g"
  shows "i = j"
proof -
  obtain p where "poll_node_map s (fde_fd f) = Some (i, p)"
    by (rule fdevents_invD [OF assms(1,2)])
  moreover obtain q where "poll_node_map s (fde_fd g) = Some (j, q)"
    by (rule fdevents_invD [OF assms(1,3)])
  ultimately show ?thesis using assms(4) by simp
qed

lemma fdevents_inv_update:
  assumes inv: "fdevents_inv s" and h: "fde_heap s i = Some f"
    and f': "fde_id f' = i" "fde_fd f' = fde_fd f" "has (fde_state f') FDE_CREATED"
      "has (fde_state f') FDE_ACTIVE" "has (fde_state f') FDE_PENDING = (i \<in> set (pending_list s'))"
      "fde_events f' = 0 \<longleftrightarrow> i \<notin> set (pending_list s')"
      "has (fde_events f') FDE_WRITE \<longrightarrow> has (fde_state f') FDE_WRITE"
    and pe': "has pe' POLLRDHUP" "has pe' POLLIN = has (fde_state f') FDE_READ"
      "has pe' POLLOUT = has (fde_state f') FDE_WRITE"
    and s': "fde_heap s' = (fde_heap s)(i \<mapsto> f')"
      "poll_node_map s' = (poll_node_map s)(fde_fd f \<mapsto> (i, pe'))" "fdevent_id s' = fdevent_id s"
    and pend: "distinct (pending_list s')"
      "\<And>j. j \<noteq> i \<Longrightarrow> j \<in> set (pending_list s') \<longleftrightarrow> j \<in> set (pending_list s)"
  shows "fdevents_inv s'"
proof -
  obtain pe where d: "i < fdevent_id s" "fde_fd f \<ge> 0" by (rule fdevents_invD [OF inv h])
  have "fde_ok s' j g" if g: "fde_heap s' j = Some g" for j g
  proof (cases "j = i")
    case True
    then show ?thesis using g s' f' pe' d by (simp add: fde_ok_def)
  next
    case False
    then have gj: "fde_heap s j = Some g" using g s' by simp
    then have "fde_fd g \<noteq> fde_fd f" using fde_fd_inj [OF inv gj h] False by auto
    moreover have "fde_ok s j g" using inv gj by (simp add: fdevents_inv_def)
    ultimately show ?thesis using s' pend(2) [OF False] by (simp add: fde_ok_def)
  qed
  moreover have "\<exists>g. fde_heap s' j = Some g \<and> fde_fd g = fd"
    if p: "poll_node_map s' fd = Some (j, p)" for fd j p
  proof (cases "fd = fde_fd f")
    case True
    then show ?thesis using p s' f' by auto
  next
    case False
    then have "poll_node_map s fd = Some (j, p)" using p s' by simp
    then obtain g where g: "fde_heap s j = Some g" "fde_fd g = fd"
      by (rule fdevents_inv_poll [OF inv])
    then have "j \<noteq> i" using h False by auto
    then show ?thesis using g s' by simp
  qed
  moreover have "set (pending_list s') \<subseteq> dom (fde_heap s')"
    using inv pend(2) h s'(1) unfolding fdevents_inv_def by fastforce
  ultimately show ?thesis using pend(1) by (simp add: fdevents_inv_def)
qed

lemma fde_view_Some:
  "fde_view s i = Some (fd, e, f) \<longleftrightarrow>
   (\<exists>fde. fde_heap s i = Some fde \<and> fd = fde_fd fde \<and> e = fde_state fde AND FDE_EVENTMASK
          \<and> f = fde_func fde)"
  by (auto simp: fde_view_def)

lemma fde_view_None: "fde_view s i = None \<longleftrightarrow> fde_heap s i = None"
  by (simp add: fde_view_def)

lemma poll_node_map_None:
  assumes "fdevents_inv s"
  shows "poll_node_map s fd = None \<longleftrightarrow> (\<forall>i e f. fde_view s i \<noteq> Some (fd, e, f))"
proof
  assume N: "poll_node_map s fd = None"
  show "\<forall>i e f. fde_view s i \<noteq> Some (fd, e, f)"
  proof (intro allI notI)
    fix i e f assume "fde_view s i = Some (fd, e, f)"
    then obtain g where g: "fde_heap s i = Some g" "fd = fde_fd g" by (auto simp: fde_view_Some)
    obtain pe where "poll_node_map s (fde_fd g) = Some (i, pe)"
      by (rule fdevents_invD [OF assms g(1)])
    then show False using N g by simp
  qed
next
  assume v: "\<forall>i e f. fde_view s i \<noteq> Some (fd, e, f)"
  show "poll_node_map s fd = None"
  proof (rule ccontr)
    assume "poll_node_map s fd \<noteq> None"
    then obtain i pe where "poll_node_map s fd = Some (i, pe)" by auto
    then obtain f where "fde_heap s i = Some f" "fde_fd f = fd"
      by (rule fdevents_inv_poll [OF assms])
    then show False using v by (auto simp: fde_view_def)
  qed
qed

lemma fdevent_create_spec:
  assumes inv: "fdevents_inv s" and fd: "fd \<ge> 0" "\<forall>i e f. fde_view s i \<noteq> Some (fd, e, f)"
  obtains i s' where "fdevent_create fd func s = Inr (i, s')" "fde_view s i = None" "fdevents_inv s'"
    "fde_view s' = (fde_view s)(i \<mapsto> (fd, 0, func))" "fde_rest s' = fde_rest s" "fd_os s' = fd_os s"
    "pending_list s' = pending_list s"
proof -
  let ?i = "fdevent_id s"
  let ?f = "\<lparr>fde_id = ?i, fde_fd = fd, fde_state = FDE_ACTIVE OR FDE_CREATED, fde_events = 0, fde_func = func\<rparr>"
  let ?s = "s\<lparr>fdevent_id := Suc ?i, fde_heap := (fde_heap s)(?i \<mapsto> ?f),
              poll_node_map := (poll_node_map s)(fd \<mapsto> (?i, POLLRDHUP))\<rparr>"
  have N: "poll_node_map s fd = None" using poll_node_map_None [OF inv] fd(2) by simp
  have fresh: "fde_heap s ?i = None"
  proof (rule ccontr)
    assume "fde_heap s ?i \<noteq> None"
    then obtain f where "fde_heap s ?i = Some f" by auto
    then show False by (rule fdevents_invD [OF inv]) simp
  qed
  then have np: "?i \<notin> set (pending_list s)" using inv by (auto simp: fdevents_inv_def)
  have "fde_ok ?s j g" if g: "fde_heap ?s j = Some g" for j g
  proof (cases "j = ?i")
    case True
    then show ?thesis using g fd np by (auto simp: fde_ok_def new_state POLLRDHUP_bits)
  next
    case False
    then have gj: "fde_heap s j = Some g" using g by simp
    obtain pe where "poll_node_map s (fde_fd g) = Some (j, pe)" by (rule fdevents_invD [OF inv gj])
    then have "fde_fd g \<noteq> fd" using N by auto
    moreover have "fde_ok s j g" using inv gj by (simp add: fdevents_inv_def)
    ultimately show ?thesis by (simp add: fde_ok_def)
  qed
  moreover have "\<exists>g. fde_heap ?s j = Some g \<and> fde_fd g = fd'"
    if p: "poll_node_map ?s fd' = Some (j, p)" for fd' j p
  proof (cases "fd' = fd")
    case False
    then have "poll_node_map s fd' = Some (j, p)" using p by simp
    then obtain g where g: "fde_heap s j = Some g" "fde_fd g = fd'"
      by (rule fdevents_inv_poll [OF inv])
    then have "j \<noteq> ?i" using fresh by auto
    then show ?thesis using g by simp
  qed (use p in auto)
  ultimately have "fdevents_inv ?s" using inv by (auto simp: fdevents_inv_def)
  then show thesis
    by (intro that [of ?i ?s])
      (use fd N fresh in \<open>auto simp: fdevent_create_def fde_put_def fde_view_def fde_rest_def
         new_state Let_def\<close>)
qed

lemma fdevent_destroy_spec:
  assumes inv: "fdevents_inv s" and v: "fde_view s i = Some (fd, e, f)"
  obtains s' where "fdevent_destroy i s = Inr s'" "fdevents_inv s'" "fde_view s' = (fde_view s)(i := None)"
    "fde_rest s' = fde_rest s" "fd_os s' = adb_close fd (fd_os s)"
proof -
  obtain g where g: "fde_heap s i = Some g" "fd = fde_fd g" using v by (auto simp: fde_view_Some)
  obtain pe where d: "has (fde_state g) FDE_CREATED" "has (fde_state g) FDE_ACTIVE"
    "poll_node_map s (fde_fd g) = Some (i, pe)"
    "has (fde_state g) FDE_PENDING = (i \<in> set (pending_list s))"
    by (rule fdevents_invD [OF inv g(1)])
  let ?p = "if has (fde_state g) FDE_PENDING then filter (\<lambda>j. j \<noteq> i) (pending_list s) else pending_list s"
  let ?s = "s\<lparr>poll_node_map := (poll_node_map s)(fd := None), pending_list := ?p,
              fd_os := adb_close fd (fd_os s), fde_heap := (fde_heap s)(i := None)\<rparr>"
  have p: "set ?p = set (pending_list s) - {i}" "distinct ?p"
    using d(4) inv by (auto simp: fdevents_inv_def)
  have "fde_ok ?s j h" if h: "fde_heap ?s j = Some h" for j h
  proof -
    have j: "j \<noteq> i" "fde_heap s j = Some h" using h by (auto split: if_splits)
    then have "fde_fd h \<noteq> fd" using fde_fd_inj [OF inv j(2) g(1)] g(2) by auto
    moreover have "fde_ok s j h" using inv j by (simp add: fdevents_inv_def)
    moreover have "j \<in> set ?p \<longleftrightarrow> j \<in> set (pending_list s)" using p(1) j by auto
    ultimately show ?thesis by (simp add: fde_ok_def del: set_filter)
  qed
  moreover have "\<exists>h. fde_heap ?s j = Some h \<and> fde_fd h = fd'"
    if p: "poll_node_map ?s fd' = Some (j, p)" for fd' j p
  proof -
    have n: "fd' \<noteq> fd" "poll_node_map s fd' = Some (j, p)" using p by (auto split: if_splits)
    obtain h where h: "fde_heap s j = Some h" "fde_fd h = fd'"
      by (rule fdevents_inv_poll [OF inv n(2)])
    then have "j \<noteq> i" using n(1) g by auto
    then show ?thesis using h by simp
  qed
  moreover have "set (pending_list ?s) \<subseteq> dom (fde_heap ?s)"
    using inv p(1) unfolding fdevents_inv_def by auto
  ultimately have "fdevents_inv ?s" using p(2) unfolding fdevents_inv_def by auto
  moreover have "fdevent_destroy i s = Inr ?s"
    using g d by (simp add: fdevent_destroy_def fde_deref_def)
  ultimately show thesis
    by (intro that [of ?s]) (auto simp: fde_view_def fde_rest_def)
qed

lemma fdevent_set_spec:
  assumes inv: "fdevents_inv s" and v: "fde_view s i = Some (fd, e0, f)"
  obtains s' where "fdevent_set i e s = Inr s'" "fdevents_inv s'"
    "fde_view s' = (fde_view s)(i \<mapsto> (fd, e AND FDE_EVENTMASK, f))" "fde_rest s' = fde_rest s"
    "fd_os s' = fd_os s" "set (pending_list s') \<subseteq> set (pending_list s)"
proof -
  obtain g where g: "fde_heap s i = Some g" "fd = fde_fd g" "f = fde_func g"
    "e0 = fde_state g AND FDE_EVENTMASK"
    using v by (auto simp: fde_view_Some)
  obtain pe where d: "fde_id g = i" "has (fde_state g) FDE_CREATED" "has (fde_state g) FDE_ACTIVE"
    "poll_node_map s (fde_fd g) = Some (i, pe)" "has pe POLLRDHUP"
    "has (fde_state g) FDE_PENDING = (i \<in> set (pending_list s))"
    "fde_events g = 0 \<longleftrightarrow> i \<notin> set (pending_list s)"
    "has (fde_events g) FDE_WRITE \<longrightarrow> has (fde_state g) FDE_WRITE"
    by (rule fdevents_invD [OF inv g(1)])
  let ?e = "e AND FDE_EVENTMASK"
  show thesis
  proof (cases "fde_state g AND FDE_EVENTMASK = ?e")
    case True
    then have "fdevent_set i e s = Inr s" using g by (simp add: fdevent_set_def fde_deref_def)
    moreover have "fde_view s = (fde_view s)(i \<mapsto> (fd, ?e, f))" using v g True by (simp add: fun_eq_iff)
    ultimately show thesis using that inv by simp
  next
    case False
    let ?st = "(fde_state g AND FDE_STATEMASK) OR ?e"
    let ?pe = "poll_update ?e pe"
    let ?keep = "has (fde_state g) FDE_PENDING \<longrightarrow> fde_events g AND ?e \<noteq> 0"
    let ?g = "g\<lparr>fde_state := (if ?keep then ?st else ?st AND NOT FDE_PENDING),
                fde_events := (if has (fde_state g) FDE_PENDING then fde_events g AND ?e else fde_events g)\<rparr>"
    let ?p = "if ?keep then pending_list s else filter (\<lambda>j. j \<noteq> i) (pending_list s)"
    let ?s = "s\<lparr>poll_node_map := (poll_node_map s)(fde_fd g \<mapsto> (i, ?pe)),
                fde_heap := (fde_heap s)(i \<mapsto> ?g), pending_list := ?p\<rparr>"
    have eq: "fdevent_set i e s = Inr ?s"
      using g(1) d(3,4) False
      by (cases "has (fde_state g) FDE_PENDING")
        (simp_all add: fdevent_set_def fdevent_update_def fde_deref_def fde_put_def Let_def
          state_after_update)
    have "fdevents_inv ?s"
      by (rule fdevents_inv_update [OF inv g(1), of ?g _ ?pe])
        (use d inv in \<open>auto simp: state_after_update clear_pending poll_update_bits fdevents_inv_def
            masked_events\<close>)
    moreover have "fde_view ?s = (fde_view s)(i \<mapsto> (fd, ?e, f))"
      using g by (auto simp: fde_view_def fun_eq_iff state_after_update clear_pending)
    ultimately show thesis using eq by (intro that [of ?s]) (auto simp: fde_rest_def)
  qed
qed

lemma fdevent_add_spec:
  assumes inv: "fdevents_inv s" and v: "fde_view s i = Some (fd, e0, f)"
  obtains s' where "fdevent_add i e s = Inr s'" "fdevents_inv s'"
    "fde_view s' = (fde_view s)(i \<mapsto> (fd, (e0 OR e) AND FDE_EVENTMASK, f))" "fde_rest s' = fde_rest s"
    "fd_os s' = fd_os s" "set (pending_list s') \<subseteq> set (pending_list s)"
proof -
  have "fdevent_add i e s = fdevent_set i (e0 OR e) s"
    using v by (auto simp: fdevent_add_def fde_deref_def fde_view_Some)
  moreover obtain s' where "fdevent_set i (e0 OR e) s = Inr s'" "fdevents_inv s'"
    "fde_view s' = (fde_view s)(i \<mapsto> (fd, (e0 OR e) AND FDE_EVENTMASK, f))" "fde_rest s' = fde_rest s"
    "fd_os s' = fd_os s" "set (pending_list s') \<subseteq> set (pending_list s)"
    by (rule fdevent_set_spec [OF inv v])
  ultimately show thesis by (intro that) simp_all
qed

lemma fdevent_del_spec:
  assumes inv: "fdevents_inv s" and v: "fde_view s i = Some (fd, e0, f)"
  obtains s' where "fdevent_del i e s = Inr s'" "fdevents_inv s'"
    "fde_view s' = (fde_view s)(i \<mapsto> (fd, (e0 AND NOT e) AND FDE_EVENTMASK, f))"
    "fde_rest s' = fde_rest s" "fd_os s' = fd_os s" "set (pending_list s') \<subseteq> set (pending_list s)"
proof -
  have "fdevent_del i e s = fdevent_set i (e0 AND NOT e) s"
    using v by (auto simp: fdevent_del_def fde_deref_def fde_view_Some)
  moreover obtain s' where "fdevent_set i (e0 AND NOT e) s = Inr s'" "fdevents_inv s'"
    "fde_view s' = (fde_view s)(i \<mapsto> (fd, (e0 AND NOT e) AND FDE_EVENTMASK, f))"
    "fde_rest s' = fde_rest s" "fd_os s' = fd_os s" "set (pending_list s') \<subseteq> set (pending_list s)"
    by (rule fdevent_set_spec [OF inv v])
  ultimately show thesis by (intro that) simp_all
qed

text \<open>
  Recording the events that \<open>poll\<close> reported, for distinct descriptors of the table whose objects
  are not pending yet.
\<close>

lemma process_polled_spec:
  assumes "fdevents_inv s" "distinct (map fst polled)"
    and "\<forall>x \<in> set polled. \<exists>i pe. poll_node_map s (fst x) = Some (i, pe) \<and> i \<notin> set (pending_list s)
           \<and> (has (snd x) POLLOUT \<longrightarrow> has pe POLLOUT)"
  shows "\<exists>s'. process_polled polled s = Inr s' \<and> fdevents_inv s' \<and> fde_view s' = fde_view s
              \<and> fde_rest s' = fde_rest s \<and> fd_os s' = fd_os s"
  using assms
proof (induction polled arbitrary: s)
  case Nil
  then show ?case by simp
next
  case (Cons x rest)
  obtain fd r where x: "x = (fd, r)" by fastforce
  have dr: "distinct (map fst rest)" "fd \<notin> fst ` set rest" using Cons.prems(2) x by simp_all
  show ?case
  proof (cases "revents_events r = 0")
    case True
    then show ?thesis using Cons.IH [OF Cons.prems(1) dr(1)] Cons.prems(3) x by simp
  next
    case False
    obtain i pe where p: "poll_node_map s fd = Some (i, pe)" "i \<notin> set (pending_list s)"
      "has r POLLOUT \<longrightarrow> has pe POLLOUT"
      using Cons.prems(3) x by auto
    obtain g where g: "fde_heap s i = Some g" "fde_fd g = fd"
      by (rule fdevents_inv_poll [OF Cons.prems(1) p(1)])
    obtain pe' where d: "fde_id g = i" "has (fde_state g) FDE_CREATED" "has (fde_state g) FDE_ACTIVE"
      "poll_node_map s (fde_fd g) = Some (i, pe')" "has pe' POLLRDHUP"
      "has pe' POLLIN = has (fde_state g) FDE_READ" "has pe' POLLOUT = has (fde_state g) FDE_WRITE"
      "has (fde_events g) FDE_WRITE \<longrightarrow> has (fde_state g) FDE_WRITE"
      by (rule fdevents_invD [OF Cons.prems(1) g(1)])
    have "pe = pe'" using p(1) d(4) g(2) by simp
    let ?g = "g\<lparr>fde_events := fde_events g OR revents_events r, fde_state := fde_state g OR FDE_PENDING\<rparr>"
    let ?s = "s\<lparr>fde_heap := (fde_heap s)(i \<mapsto> ?g), pending_list := pending_list s @ [i]\<rparr>"
    have pm: "poll_node_map s = (poll_node_map s)(fde_fd g \<mapsto> (i, pe'))"
      using d(4) by (simp add: fun_upd_idem)
    have inv: "fdevents_inv ?s"
    proof (rule fdevents_inv_update [OF Cons.prems(1) g(1), of ?g ?s pe'])
      show "distinct (pending_list ?s)" using Cons.prems(1) p(2) by (simp add: fdevents_inv_def)
      show "(fde_events ?g = 0) = (i \<notin> set (pending_list ?s))" using False by (simp add: or_eq_0)
      show "poll_node_map ?s = (poll_node_map s)(fde_fd g \<mapsto> (i, pe'))" using pm by simp
      show "has (fde_events ?g) FDE_WRITE \<longrightarrow> has (fde_state ?g) FDE_WRITE"
        using d(7,8) p(3) \<open>pe = pe'\<close> by (auto simp: revents_write set_pending)
    qed (use d in \<open>simp_all add: set_pending\<close>)
    have "\<exists>j q. poll_node_map ?s (fst y) = Some (j, q) \<and> j \<notin> set (pending_list ?s)
            \<and> (has (snd y) POLLOUT \<longrightarrow> has q POLLOUT)"
      if m: "y \<in> set rest" for y
    proof -
      obtain j q where j: "poll_node_map s (fst y) = Some (j, q)" "j \<notin> set (pending_list s)"
        "has (snd y) POLLOUT \<longrightarrow> has q POLLOUT"
        using Cons.prems(3) m by auto
      obtain h where "fde_heap s j = Some h" "fde_fd h = fst y"
        by (rule fdevents_inv_poll [OF Cons.prems(1) j(1)])
      then have "j \<noteq> i" using dr(2) m g by auto
      then show ?thesis using j by simp
    qed
    then obtain s' where s': "process_polled rest ?s = Inr s'" "fdevents_inv s'"
        "fde_view s' = fde_view ?s" "fde_rest s' = fde_rest ?s" "fd_os s' = fd_os ?s"
      using Cons.IH [OF inv dr(1)] by blast
    have "process_polled (x # rest) s = Inr s'"
      using False p(1) g s'(1) x by (simp add: fde_deref_def fde_put_def Let_def)
    moreover have "fde_view ?s = fde_view s" using g(1) by (auto simp: fde_view_def fun_eq_iff set_pending)
    ultimately show ?thesis using s' by (simp add: fde_rest_def)
  qed
qed

text \<open>The inner loop only takes live objects off the pending list, with a non-empty set of events.\<close>

lemma fdevent_next_call_spec:
  assumes inv: "fdevents_inv s" and p: "pending_list s = i # rest"
  obtains fd ev f e s' where "fdevent_next_call s = Inr (Some (fd, ev, f, s'))" "ev \<noteq> 0"
    "has ev FDE_WRITE \<longrightarrow> has e FDE_WRITE"
    "fde_view s i = Some (fd, e, f)" "fdevents_inv s'" "fde_view s' = fde_view s"
    "pending_list s' = rest" "fde_rest s' = fde_rest s" "fd_os s' = fd_os s"
proof -
  obtain g where g: "fde_heap s i = Some g"
    using inv p by (auto simp: fdevents_inv_def)
  obtain pe where d: "fde_id g = i" "has (fde_state g) FDE_CREATED" "has (fde_state g) FDE_ACTIVE"
    "poll_node_map s (fde_fd g) = Some (i, pe)" "has pe POLLRDHUP"
    "has pe POLLIN = has (fde_state g) FDE_READ" "has pe POLLOUT = has (fde_state g) FDE_WRITE"
    "has (fde_state g) FDE_PENDING = (i \<in> set (pending_list s))"
    "fde_events g = 0 \<longleftrightarrow> i \<notin> set (pending_list s)"
    "has (fde_events g) FDE_WRITE \<longrightarrow> has (fde_state g) FDE_WRITE"
    by (rule fdevents_invD [OF inv g])
  have di: "i \<notin> set rest" "distinct rest" using inv p by (auto simp: fdevents_inv_def)
  let ?g = "g\<lparr>fde_events := 0, fde_state := fde_state g AND NOT FDE_PENDING\<rparr>"
  let ?s = "s\<lparr>pending_list := rest, fde_heap := (fde_heap s)(i \<mapsto> ?g)\<rparr>"
  have pm: "poll_node_map ?s = (poll_node_map s)(fde_fd g \<mapsto> (i, pe))"
    using d(4) by (simp add: fun_upd_idem)
  have "fdevents_inv ?s"
    by (rule fdevents_inv_update [OF inv g _ _ _ _ _ _ _ _ _ _ _ pm])
      (use d di p in \<open>auto simp: clear_pending\<close>)
  moreover have "fde_view ?s = fde_view s" using g by (auto simp: fde_view_def fun_eq_iff clear_pending)
  ultimately show thesis
    by (intro that [of "fde_fd g" "fde_events g" "fde_func g" ?s "fde_state g AND FDE_EVENTMASK"])
      (use g d p in \<open>auto simp: fdevent_next_call_def fdevent_call_fdfunc_def fde_deref_def fde_put_def
          fde_view_def fde_rest_def\<close>)
qed

section \<open>The table as an abstract object\<close>

text \<open>
  The commands of a client of the table, and their meaning on the abstract view: an object gets an
  unused identifier, its set of events is replaced, and it disappears. A command is admissible when
  it names a live object, or a descriptor that is not in the table.
\<close>

datatype 'f table_cmd = TCreate int 'f | TSet nat u16 | TDestroy nat

type_synonym 'f table_view = "nat \<rightharpoonup> int \<times> u16 \<times> 'f"

fun admissible :: "'f table_view \<Rightarrow> 'f table_cmd \<Rightarrow> bool" where
  "admissible m (TCreate fd f) \<longleftrightarrow> fd \<ge> 0 \<and> (\<forall>i e g. m i \<noteq> Some (fd, e, g))"
| "admissible m (TSet i e) \<longleftrightarrow> m i \<noteq> None"
| "admissible m (TDestroy i) \<longleftrightarrow> m i \<noteq> None"

inductive table_step :: "'f table_view \<Rightarrow> 'f table_cmd \<Rightarrow> 'f table_view \<Rightarrow> bool" where
  create: "m i = None \<Longrightarrow> table_step m (TCreate fd f) (m(i \<mapsto> (fd, 0, f)))"
| set: "m i = Some (fd, e0, f) \<Longrightarrow> table_step m (TSet i e) (m(i \<mapsto> (fd, e AND FDE_EVENTMASK, f)))"
| destroy: "m i = Some (fd, e0, f) \<Longrightarrow> table_step m (TDestroy i) (m(i := None))"

inductive_cases table_createE: "table_step m (TCreate fd f) m'"
inductive_cases table_setE: "table_step m (TSet i e) m'"
inductive_cases table_destroyE: "table_step m (TDestroy i) m'"

definition table_fds :: "'f table_view \<Rightarrow> int set" where
  "table_fds m = {fd. \<exists>i e f. m i = Some (fd, e, f)}"

text \<open>No two objects of a table have the same descriptor.\<close>

definition table_inj :: "'f table_view \<Rightarrow> bool" where
  "table_inj m \<longleftrightarrow> (\<forall>i j fd e f e' f'. m i = Some (fd, e, f) \<longrightarrow> m j = Some (fd, e', f') \<longrightarrow> i = j)"

lemma table_inj_step:
  assumes "table_inj m" "admissible m c" "table_step m c m'"
  shows "table_inj m'"
  using assms(3,1,2)
proof cases
  case (create i fd f)
  then show ?thesis using assms(1,2) unfolding table_inj_def by (auto split: if_splits)
next
  case (set i fd e0 f e)
  then show ?thesis using assms(1) unfolding table_inj_def by (auto split: if_splits)
next
  case (destroy i fd e0 f)
  then show ?thesis using assms(1) unfolding table_inj_def by (auto split: if_splits)
qed

locale event_table =
  fixes inv :: "'s \<Rightarrow> bool"
    and view :: "'s \<Rightarrow> 'f table_view"
    and create :: "int \<Rightarrow> 'f \<Rightarrow> 's \<Rightarrow> (nat \<times> 's) res"
    and set_events :: "nat \<Rightarrow> u16 \<Rightarrow> 's \<Rightarrow> 's res"
    and destroy :: "nat \<Rightarrow> 's \<Rightarrow> 's res"
  assumes create_law: "inv s \<Longrightarrow> fd \<ge> 0 \<Longrightarrow> \<forall>i e g. view s i \<noteq> Some (fd, e, g) \<Longrightarrow>
      \<exists>i s'. create fd f s = Inr (i, s') \<and> view s i = None \<and> inv s'
             \<and> view s' = (view s)(i \<mapsto> (fd, 0, f))"
    and set_law: "inv s \<Longrightarrow> view s i = Some (fd, e0, f) \<Longrightarrow>
      \<exists>s'. set_events i e s = Inr s' \<and> inv s' \<and> view s' = (view s)(i \<mapsto> (fd, e AND FDE_EVENTMASK, f))"
    and destroy_law: "inv s \<Longrightarrow> view s i = Some (fd, e0, f) \<Longrightarrow>
      \<exists>s'. destroy i s = Inr s' \<and> inv s' \<and> view s' = (view s)(i := None)"
    and view_inj: "inv s \<Longrightarrow> table_inj (view s)"
begin

definition exec :: "'f table_cmd \<Rightarrow> 's \<Rightarrow> 's res" where
  "exec c s = (case c of
      TCreate fd f \<Rightarrow> rbind (create fd f s) (\<lambda>(i, s'). Inr s')
    | TSet i e \<Rightarrow> set_events i e s
    | TDestroy i \<Rightarrow> destroy i s)"

lemma exec_refines:
  assumes "inv s" "admissible (view s) c"
  shows "\<exists>s'. exec c s = Inr s' \<and> inv s' \<and> table_step (view s) c (view s')"
proof (cases c)
  case (TCreate fd f)
  then show ?thesis
    using create_law [OF assms(1), of fd f] assms(2) by (auto simp: exec_def intro: table_step.create)
next
  case (TSet i e)
  then obtain fd e0 f where v: "view s i = Some (fd, e0, f)" using assms(2) by auto
  then show ?thesis
    using set_law [OF assms(1) v, of e] TSet table_step.set [of "view s" i] by (auto simp: exec_def)
next
  case (TDestroy i)
  then obtain fd e0 f where v: "view s i = Some (fd, e0, f)" using assms(2) by auto
  then show ?thesis
    using destroy_law [OF assms(1) v] TDestroy table_step.destroy [of "view s" i]
    by (auto simp: exec_def)
qed

end

interpretation fdt: event_table fdevents_inv fde_view fdevent_create fdevent_set fdevent_destroy
proof unfold_locales
  fix s :: "('f, 'r) fdevents" and fd :: int and f :: 'f
  assume "fdevents_inv s" "fd \<ge> 0" "\<forall>i e g. fde_view s i \<noteq> Some (fd, e, g)"
  then show "\<exists>i s'. fdevent_create fd f s = Inr (i, s') \<and> fde_view s i = None \<and> fdevents_inv s'
      \<and> fde_view s' = (fde_view s)(i \<mapsto> (fd, 0, f))"
    by (rule fdevent_create_spec [of s fd f]) blast
next
  fix s :: "('f, 'r) fdevents" and i e0 e and fd :: int and f :: 'f
  assume "fdevents_inv s" "fde_view s i = Some (fd, e0, f)"
  then show "\<exists>s'. fdevent_set i e s = Inr s' \<and> fdevents_inv s'
      \<and> fde_view s' = (fde_view s)(i \<mapsto> (fd, e AND FDE_EVENTMASK, f))"
    by (rule fdevent_set_spec [of s i fd e0 f e]) blast
next
  fix s :: "('f, 'r) fdevents" and i e0 and fd :: int and f :: 'f
  assume "fdevents_inv s" "fde_view s i = Some (fd, e0, f)"
  then show "\<exists>s'. fdevent_destroy i s = Inr s' \<and> fdevents_inv s' \<and> fde_view s' = (fde_view s)(i := None)"
    by (rule fdevent_destroy_spec [of s i fd e0 f]) blast
next
  fix s :: "('f, 'r) fdevents"
  assume "fdevents_inv s"
  then show "table_inj (fde_view s)"
    unfolding table_inj_def fde_view_Some using fde_fd_inj by metis
qed

section \<open>The event loop\<close>

text \<open>
  The steps of the table in a run of the program: client commands, one \<open>poll\<close> when nothing is
  pending, and taking the next pending object. Of \<open>poll\<close> is used that it reports descriptors of the
  table, each at most once, and that it reports \<open>POLLOUT\<close> only where it was asked for.
\<close>

definition poll_reports :: "('f, 'r) fdevents \<Rightarrow> (int \<times> u16) list \<Rightarrow> bool" where
  "poll_reports s polled \<longleftrightarrow>
     (\<forall>x \<in> set polled. \<exists>i pe. poll_node_map s (fst x) = Some (i, pe) \<and> (has (snd x) POLLOUT \<longrightarrow> has pe POLLOUT))"

inductive fdevent_step :: "('f, 'r) fdevents \<Rightarrow> ('f, 'r) fdevents \<Rightarrow> bool" where
  client: "admissible (fde_view s) c \<Longrightarrow> fdt.exec c s = Inr s' \<Longrightarrow> fdevent_step s s'"
| poll: "pending_list s = [] \<Longrightarrow> distinct (map fst polled) \<Longrightarrow> poll_reports s polled \<Longrightarrow>
    fdevent_process polled s = Inr s' \<Longrightarrow> fdevent_step s s'"
| call: "fdevent_next_call s = Inr (Some (fd, ev, f, s')) \<Longrightarrow> fdevent_step s s'"

inductive fdevent_reachable :: "os \<Rightarrow> ('f, 'r) fdevents \<Rightarrow> bool" for w where
  start: "fdevent_reachable w (fdevents_init w)"
| step: "fdevent_reachable w s \<Longrightarrow> fdevent_step s s' \<Longrightarrow> fdevent_reachable w s'"

lemma fdevent_process_spec:
  assumes "fdevents_inv s" "pending_list s = []" "distinct (map fst polled)" "poll_reports s polled"
    "polled \<noteq> []"
  shows "\<exists>s'. fdevent_process polled s = Inr s' \<and> fdevents_inv s' \<and> fde_view s' = fde_view s
           \<and> fde_rest s' = fde_rest s \<and> fd_os s' = fd_os s"
  using process_polled_spec [OF assms(1,3)] assms by (simp add: fdevent_process_def poll_reports_def)

lemma fdevent_step_inv: "fdevent_step s s' \<Longrightarrow> fdevents_inv s \<Longrightarrow> fdevents_inv s'"
proof (induction rule: fdevent_step.induct)
  case (client s c s')
  then show ?case using fdt.exec_refines by fastforce
next
  case (poll s polled s')
  then show ?case
    using fdevent_process_spec [of s polled] by (cases "polled = []") (auto simp: fdevent_process_def)
next
  case (call s fd ev f s')
  then obtain i rest where p: "pending_list s = i # rest"
    by (cases "pending_list s") (auto simp: fdevent_next_call_def)
  show ?case by (rule fdevent_next_call_spec [OF call(2) p]) (use call(1) in auto)
qed

lemma fdevent_reachable_inv: "fdevent_reachable w s \<Longrightarrow> fdevents_inv s"
  by (induction rule: fdevent_reachable.induct) (auto intro: fdevent_step_inv)



end
