(* ===== verification/AdbState.thy ===== *)
theory AdbState
  imports AdbIo FdEvent
begin

text \<open>
  The data of the server: sockets (\<open>socket.h\<close>), connections and transports (\<open>transport.h\<close>), device
  trackers, listeners (\<open>adb_listeners.cpp\<close>), and the record of all global variables. Objects live in
  heaps indexed by addresses; an address without an object is a pointer to freed memory, so a use
  after free is visible as the result \<^const>\<open>UseAfterFree\<close>.
\<close>

section \<open>Sockets\<close>

text \<open>The functions that can stand in the slots of an \<open>asocket\<close>.\<close>

datatype enqueue_fn = local_socket_enqueue_f | remote_socket_enqueue_f | smart_socket_enqueue_f
  | device_tracker_enqueue_f
datatype ready_fn = local_socket_ready_f | local_socket_ready_notify_f | remote_socket_ready_f
  | smart_socket_ready_f | device_tracker_ready_f
datatype shutdown_fn = remote_socket_shutdown_f
datatype close_fn = local_socket_close_f | local_socket_close_notify_f | remote_socket_close_f
  | smart_socket_close_f | device_tracker_close_f

text \<open>
  \<open>as_tracker\<close> holds the members \<open>update_needed\<close> and \<open>long_output\<close> of a \<open>device_tracker\<close>, whose first
  member is its socket.
\<close>

record asocket =
  as_id :: u32
  as_closing :: bool
  as_has_write_error :: bool
  as_exit_on_close :: bool
  as_peer :: "nat option"
  as_fde :: "nat option"
  as_fd :: int
  as_queue :: IOVector
  as_smart_data :: string
  as_enqueue :: enqueue_fn
  as_ready :: ready_fn
  as_shutdown :: "shutdown_fn option"
  as_close :: close_fn
  as_transport :: "nat option"
  as_tracker :: "(bool \<times> bool) option"

text \<open>\<open>new asocket()\<close>; the slots are filled in by the function that creates the socket.\<close>

definition asocket_new :: "enqueue_fn \<Rightarrow> ready_fn \<Rightarrow> shutdown_fn option \<Rightarrow> close_fn \<Rightarrow> asocket" where
  "asocket_new e r d c =
     \<lparr>as_id = 0, as_closing = False, as_has_write_error = False, as_exit_on_close = False,
      as_peer = None, as_fde = None, as_fd = -1, as_queue = IOVector_new, as_smart_data = [],
      as_enqueue = e, as_ready = r, as_shutdown = d, as_close = c, as_transport = None,
      as_tracker = None\<rparr>"

section \<open>Transports\<close>

datatype conn_kind = ConnFd int | ConnEmulator int int | ConnUsb nat

text \<open>
  A \<open>BlockingConnectionAdapter\<close> over an \<open>FdConnection\<close>, an \<open>EmulatorConnection\<close> (descriptor and port)
  or a \<open>UsbConnection\<close> (handle); \<open>conn_callbacks\<close> tells
  whether the read and error callbacks have been set, \<open>conn_reader\<close> and \<open>conn_writer\<close> whether the two
  threads run, \<open>conn_error_flag\<close> whether the error callback has run.
\<close>

record Connection =
  conn_kind :: conn_kind
  conn_name :: string
  conn_callbacks :: bool
  conn_started :: bool
  conn_stopped :: bool
  conn_queue :: "apacket list"
  conn_reader :: bool
  conn_writer :: bool
  conn_error_flag :: bool

definition Connection_new :: "conn_kind \<Rightarrow> Connection" where
  "Connection_new k =
     \<lparr>conn_kind = k, conn_name = [], conn_callbacks = False, conn_started = False,
      conn_stopped = False, conn_queue = [], conn_reader = False, conn_writer = False,
      conn_error_flag = False\<rparr>"

text \<open>An \<open>unordered_set\<close> of strings, as the list of its elements in iteration order.\<close>

type_synonym FeatureSet = "string list"

datatype reconnect_fn = reconnect_abort_f | reconnect_tcp_f string

record atransport =
  at_id :: u64
  at_ref_count :: nat
  at_online :: bool
  at_type :: TransportType
  at_serial :: string
  at_product :: string
  at_model :: string
  at_device :: string
  at_devpath :: string
  at_kicked :: bool
  at_features :: FeatureSet
  at_protocol_version :: int
  at_max_payload :: nat
  at_disconnects :: "nat list"
  at_state :: ConnectionState
  at_keys :: "nat option list"
  at_established :: bool
  at_established_ready :: bool
  at_connection :: "Connection option"
  at_reconnect :: reconnect_fn

section \<open>Listeners\<close>

record alistener =
  al_fde :: "nat option"
  al_fd :: int
  al_local_name :: string
  al_connect_to :: string
  al_transport :: "nat option"

section \<open>The global state\<close>

datatype fd_func = local_socket_event_f nat | ss_listener_event_f nat | listener_event_f nat
  | transport_registration_f | fdevent_run_f

text \<open>Functions queued for the main thread: handling a packet, and the end of a connection.\<close>

datatype runnable = RunPacket apacket nat | RunTerminated nat

text \<open>The service threads of the host, each with its end of a socket pair.\<close>

record state_info =
  si_type :: TransportType
  si_serial :: string
  si_transport_id :: u64
  si_state :: ConnectionState

datatype service = wait_for_state_f state_info | connect_service_f string

text \<open>
  A \<open>ReconnectAttempt\<close>: the time in milliseconds of the steady clock, the transport and the number of
  attempts left.
\<close>

type_synonym ReconnectAttempt = "int \<times> nat \<times> nat"

text \<open>
  The global variables. \<open>g_registration\<close> is the content of the registration socket pair, \<open>g_now\<close> the
  steady clock; \<open>g_keys\<close> is the map from fingerprints to the private keys of the user.
\<close>

record adb =
  g_sockets :: "nat \<rightharpoonup> asocket"
  g_next_socket :: nat
  g_local_list :: "nat list"
  g_closing_list :: "nat list"
  g_next_id :: u32
  g_transports :: "nat \<rightharpoonup> atransport"
  g_next_transport :: nat
  g_transport_list :: "nat list"
  g_pending_list :: "nat list"
  g_next_transport_id :: u64
  g_registration :: "(nat \<times> bool) list"
  g_reconnect_queue :: "ReconnectAttempt list"
  g_reconnect_running :: bool
  g_now :: int
  g_local_transports :: "(int \<times> nat) list"
  g_retry_ports :: "(int \<times> u32) list"
  g_keys :: "(string \<times> nat) list"
  g_services :: "(service \<times> int) list"
  g_trackers :: "nat list"
  g_listeners :: "nat \<rightharpoonup> alistener"
  g_next_listener :: nat
  g_listener_list :: "nat list"
  g_transports_ready :: bool
  g_device_scan_complete :: bool
  g_ev :: "(fd_func, runnable) fdevents"

definition adb_init :: "os \<Rightarrow> adb" where
  "adb_init w =
     \<lparr>g_sockets = (\<lambda>_. None), g_next_socket = 0, g_local_list = [], g_closing_list = [],
      g_next_id = 1, g_transports = (\<lambda>_. None), g_next_transport = 0, g_transport_list = [],
      g_pending_list = [], g_next_transport_id = 1, g_registration = [], g_reconnect_queue = [],
      g_reconnect_running = True, g_now = 0, g_local_transports = [], g_retry_ports = [],
      g_keys = [], g_services = [], g_trackers = [], g_listeners = (\<lambda>_. None), g_next_listener = 0, g_listener_list = [],
      g_transports_ready = False, g_device_scan_complete = False, g_ev = fdevents_init w\<rparr>"

section \<open>Access to objects\<close>

definition sock :: "nat \<Rightarrow> adb \<Rightarrow> asocket res" where
  "sock a g = (case g_sockets g a of None \<Rightarrow> Inl UseAfterFree | Some s \<Rightarrow> Inr s)"

definition sock_upd :: "nat \<Rightarrow> (asocket \<Rightarrow> asocket) \<Rightarrow> adb \<Rightarrow> adb res" where
  "sock_upd a f g = rbind (sock a g) (\<lambda>s. Inr (g\<lparr>g_sockets := (g_sockets g)(a \<mapsto> f s)\<rparr>))"

definition sock_delete :: "nat \<Rightarrow> adb \<Rightarrow> adb" where
  "sock_delete a g = g\<lparr>g_sockets := (g_sockets g)(a := None)\<rparr>"

definition sock_new :: "asocket \<Rightarrow> adb \<Rightarrow> nat \<times> adb" where
  "sock_new s g =
     (g_next_socket g,
      g\<lparr>g_sockets := (g_sockets g)(g_next_socket g \<mapsto> s), g_next_socket := Suc (g_next_socket g)\<rparr>)"

definition tport :: "nat \<Rightarrow> adb \<Rightarrow> atransport res" where
  "tport t g = (case g_transports g t of None \<Rightarrow> Inl UseAfterFree | Some x \<Rightarrow> Inr x)"

definition tport_upd :: "nat \<Rightarrow> (atransport \<Rightarrow> atransport) \<Rightarrow> adb \<Rightarrow> adb res" where
  "tport_upd t f g = rbind (tport t g) (\<lambda>x. Inr (g\<lparr>g_transports := (g_transports g)(t \<mapsto> f x)\<rparr>))"

text \<open>Following a pointer that may be null.\<close>

definition nonnull :: "'a option \<Rightarrow> 'a res" where
  "nonnull p = (case p of None \<Rightarrow> Inl NullDeref | Some a \<Rightarrow> Inr a)"

text \<open>Lifting an operation on the event table or on the operating system.\<close>

definition ev_do :: "((fd_func, runnable) fdevents \<Rightarrow> (fd_func, runnable) fdevents res) \<Rightarrow> adb \<Rightarrow> adb res" where
  "ev_do f g = rbind (f (g_ev g)) (\<lambda>e. Inr (g\<lparr>g_ev := e\<rparr>))"

definition os_do :: "(os \<Rightarrow> 'a \<times> os) \<Rightarrow> adb \<Rightarrow> 'a \<times> adb" where
  "os_do f g = (let (x, w) = f (fd_os (g_ev g)) in (x, g\<lparr>g_ev := (g_ev g)\<lparr>fd_os := w\<rparr>\<rparr>))"

lemma sock_Some [simp]: "g_sockets g a = Some s \<Longrightarrow> sock a g = Inr s"
  by (simp add: sock_def)

lemma sock_Inr: "sock a g = Inr s \<longleftrightarrow> g_sockets g a = Some s"
  by (simp add: sock_def split: option.splits)

lemma sock_upd_Some [simp]:
  "g_sockets g a = Some s \<Longrightarrow> sock_upd a f g = Inr (g\<lparr>g_sockets := (g_sockets g)(a \<mapsto> f s)\<rparr>)"
  by (simp add: sock_upd_def)

lemma tport_Some [simp]: "g_transports g t = Some x \<Longrightarrow> tport t g = Inr x"
  by (simp add: tport_def)

lemma tport_upd_Some [simp]:
  "g_transports g t = Some x \<Longrightarrow> tport_upd t f g = Inr (g\<lparr>g_transports := (g_transports g)(t \<mapsto> f x)\<rparr>)"
  by (simp add: tport_upd_def)

lemma nonnull_Some [simp]: "nonnull (Some a) = Inr a"
  by (simp add: nonnull_def)

end
