(* ===== verification/Base_Strings.thy ===== *)
theory Base_Strings
  imports Cstdlib
begin

text \<open>
  The string functions of \<open>lib/base\<close> the program is written with: \<open>strings.cpp\<close> (\<open>Split\<close>, \<open>Join\<close>,
  \<open>Trim\<close>, prefix and suffix tests), \<open>parseint.h\<close> and \<open>parsenetaddress.cpp\<close>. The index-based loops of the
  sources are translated as they are and then shown equal to structural definitions.
\<close>

section \<open>\<open>strings.cpp\<close>\<close>

text \<open>\<open>std::string::find_first_of(delimiters, base)\<close>; \<open>None\<close> is \<open>npos\<close>.\<close>

function find_first_of :: "string \<Rightarrow> string \<Rightarrow> nat \<Rightarrow> nat option" where
  "find_first_of s delimiters base =
     (if base < length s
      then (if s ! base \<in> set delimiters then Some base else find_first_of s delimiters (Suc base))
      else None)"
  by pat_completeness auto
termination
  by (relation "measure (\<lambda>(s, d, base). length s - base)") auto

declare find_first_of.simps [simp del]

lemma find_first_of_Some:
  "find_first_of s d base = Some i \<Longrightarrow> base \<le> i \<and> i < length s"
proof (induction s d base rule: find_first_of.induct)
  case (1 s d base)
  then show ?case
    by (subst (asm) (2) find_first_of.simps) (fastforce split: if_splits)
qed

definition substr :: "string \<Rightarrow> nat \<Rightarrow> nat \<Rightarrow> string" where
  "substr s pos n = take n (drop pos s)"

function Split_loop :: "string \<Rightarrow> string \<Rightarrow> nat \<Rightarrow> string list" where
  "Split_loop s delimiters base =
     (case find_first_of s delimiters base of
        None \<Rightarrow> [substr s base (length s)]
      | Some found \<Rightarrow> substr s base (found - base) # Split_loop s delimiters (found + 1))"
  by pat_completeness auto
termination
  by (relation "measure (\<lambda>(s, d, base). length s - base)")
    (auto dest: find_first_of_Some)

declare Split_loop.simps [simp del]

definition Split :: "string \<Rightarrow> string \<Rightarrow> string list res" where
  "Split s delimiters =
     rbind (check_that (length delimiters \<noteq> 0) ''CHECK_NE(delimiters.size(), 0U)'')
       (\<lambda>_. Inr (Split_loop s delimiters 0))"

text \<open>\<open>Join(things, separator)\<close>: the first element, then each other element after a separator.\<close>

fun Join_rest :: "string list \<Rightarrow> string \<Rightarrow> string" where
  "Join_rest [] sep = []"
| "Join_rest (x # xs) sep = sep @ x @ Join_rest xs sep"

definition Join :: "string list \<Rightarrow> string \<Rightarrow> string" where
  "Join things sep = (case things of [] \<Rightarrow> [] | x # xs \<Rightarrow> x @ Join_rest xs sep)"

function Trim_start :: "string \<Rightarrow> nat \<Rightarrow> nat" where
  "Trim_start s i = (if i < length s \<and> isspace (s ! i) then Trim_start s (Suc i) else i)"
  by pat_completeness auto
termination
  by (relation "measure (\<lambda>(s, i). length s - i)") auto

text \<open>
  The second loop runs \<open>end_index\<close> down while it is at least \<open>start_index\<close>; \<open>end_index\<close> is
  unsigned, and decrementing zero wraps around.
\<close>

function Trim_end :: "string \<Rightarrow> nat \<Rightarrow> nat \<Rightarrow> nat res" where
  "Trim_end s start i =
     (if start \<le> i
      then (if i < length s
            then (if isspace (s ! i)
                  then (if i = 0 then Inr (size_sub 0 1) else Trim_end s start (i - 1))
                  else Inr i)
            else Inl OutOfBounds)
      else Inr i)"
  by pat_completeness auto
termination
  by (relation "measure (\<lambda>(s, start, i). i)") auto

declare Trim_start.simps [simp del] Trim_end.simps [simp del]

definition Trim :: "string \<Rightarrow> string res" where
  "Trim s =
     (if length s = 0 then Inr []
      else (let start_index = Trim_start s 0
            in rbind (Trim_end s start_index (length s - 1)) (\<lambda>end_index.
               if end_index < start_index then Inr []
               else Inr (substr s start_index (end_index - start_index + 1)))))"

text \<open>\<open>strncmp\<close> and \<open>strncasecmp\<close> against zero: at most \<open>n\<close> characters, up to the terminator.\<close>

definition strncmp_eq :: "string \<Rightarrow> string \<Rightarrow> nat \<Rightarrow> bool" where
  "strncmp_eq a b n \<longleftrightarrow> take n (c_str a) = take n (c_str b)"

definition strncasecmp_eq :: "string \<Rightarrow> string \<Rightarrow> nat \<Rightarrow> bool" where
  "strncasecmp_eq a b n \<longleftrightarrow> map tolower (take n (c_str a)) = map tolower (take n (c_str b))"

definition StartsWith :: "string \<Rightarrow> string \<Rightarrow> bool" where
  "StartsWith s prefix \<longleftrightarrow> strncmp_eq s prefix (length prefix)"

definition StartsWithIgnoreCase :: "string \<Rightarrow> string \<Rightarrow> bool" where
  "StartsWithIgnoreCase s prefix \<longleftrightarrow> strncasecmp_eq s prefix (length prefix)"

definition EndsWith_impl :: "string \<Rightarrow> string \<Rightarrow> nat \<Rightarrow> bool \<Rightarrow> bool" where
  "EndsWith_impl s suffix suffix_length case_sensitive =
     (if suffix_length > length s then False
      else (let offset = length s - suffix_length
            in (if case_sensitive then strncmp_eq else strncasecmp_eq)
                 (drop offset s) suffix suffix_length))"

definition EndsWith :: "string \<Rightarrow> string \<Rightarrow> bool" where
  "EndsWith s suffix = EndsWith_impl s suffix (length suffix) True"

definition EndsWithIgnoreCase :: "string \<Rightarrow> string \<Rightarrow> bool" where
  "EndsWithIgnoreCase s suffix = EndsWith_impl s suffix (length suffix) False"

definition EqualsIgnoreCase :: "string \<Rightarrow> string \<Rightarrow> bool" where
  "EqualsIgnoreCase lhs rhs \<longleftrightarrow> map tolower (c_str lhs) = map tolower (c_str rhs)"

section \<open>\<open>parseint.h\<close>\<close>

definition parse_base :: "string \<Rightarrow> nat" where
  "parse_base s = (case s of
      c # d # _ \<Rightarrow> if c = CHR ''0'' \<and> (d = CHR ''x'' \<or> d = CHR ''X'') then 16 else 10
    | _ \<Rightarrow> 10)"

definition ParseUint :: "nat \<Rightarrow> string \<Rightarrow> nat option" where
  "ParseUint mx s =
     (let (result, erange, end) = strtoul (parse_base (c_str s)) s
      in if erange \<or> end = c_str s \<or> end \<noteq> [] then None
         else if mx < result then None else Some result)"

definition ParseInt :: "int \<Rightarrow> int \<Rightarrow> string \<Rightarrow> int option" where
  "ParseInt mn mx s =
     (let (result, erange, end) = strtoll (parse_base (c_str s)) s
      in if erange \<or> end = c_str s \<or> end \<noteq> [] then None
         else if result < mn \<or> mx < result then None else Some result)"

definition INT_MAX :: int where "INT_MAX = 2 ^ 31 - 1"
definition INT_MIN :: int where "INT_MIN = - (2 ^ 31)"

abbreviation ParseInt_int :: "string \<Rightarrow> int option" where
  "ParseInt_int \<equiv> ParseInt INT_MIN INT_MAX"

section \<open>\<open>parsenetaddress.cpp\<close>\<close>

text \<open>A C string between single quotes, as the error messages print it.\<close>

definition quoted :: "string \<Rightarrow> string" where
  "quoted s = CHR 0x27 # c_str s @ [CHR 0x27]"

text \<open>\<open>find\<close> and \<open>rfind\<close> of the two-character string that closes a bracketed host.\<close>

fun find_close :: "string \<Rightarrow> nat option" where
  "find_close (a # b # cs) =
     (if a = CHR '']'' \<and> b = CHR '':'' then Some 0 else map_option Suc (find_close (b # cs)))"
| "find_close _ = None"

fun rfind_close :: "string \<Rightarrow> nat option" where
  "rfind_close (a # b # cs) =
     (case rfind_close (b # cs) of
        Some i \<Rightarrow> Some (Suc i)
      | None \<Rightarrow> if a = CHR '']'' \<and> b = CHR '':'' then Some 0 else None)"
| "rfind_close _ = None"

text \<open>
  The first half: the error message, or whether the address is an IPv6 address, the host, and the
  port if there is one.
\<close>

definition net_host_port :: "string \<Rightarrow> (string + bool \<times> string \<times> string option) res" where
  "net_host_port address =
     (let colons = count_list address (CHR '':'');
          dots = count_list address (CHR ''.'')
      in if address \<noteq> [] \<and> hd address = CHR ''['' then
           (case rfind_close address of
              None \<Rightarrow> Inr (Inl (''bad IPv6 address '' @ quoted address))
            | Some r \<Rightarrow>
                (case find_close address of
                   None \<Rightarrow> Inl OutOfBounds
                 | Some f \<Rightarrow> Inr (Inr (True, substr address 1 (f - 1), Some (drop (r + 2) address)))))
         else if dots = 0 \<and> 2 \<le> colons \<and> colons \<le> 7 then Inr (Inr (True, address, None))
         else if colons \<le> 1 then
           rbind (Split address '':'') (\<lambda>pieces.
             Inr (Inr (False, pieces ! 0, if length pieces > 1 then Some (pieces ! 1) else None)))
         else Inr (Inr (True, [], None)))"

text \<open>
  \<open>ParseNetAddress\<close>, with the value \<open>port0\<close> that \<open>*port\<close> has on entry: the error message, or the
  host, the port and the canonical address.
\<close>

definition ParseNetAddress :: "string \<Rightarrow> int \<Rightarrow> (string + string \<times> int \<times> string) res" where
  "ParseNetAddress address port0 =
     rbind (net_host_port address)
       (\<lambda>parsed. case parsed of
          Inl err \<Rightarrow> Inr (Inl err)
        | Inr (ipv6, host, port_str) \<Rightarrow>
            if host = [] then Inr (Inl (''no host in '' @ quoted address))
            else
              (let port = (case port_str of
                             None \<Rightarrow> Some port0
                           | Some ps \<Rightarrow> (case sscanf_d ps of
                                None \<Rightarrow> None
                              | Some p \<Rightarrow> if p \<le> 0 \<or> p > 65535 then None else Some p))
               in case port of
                    None \<Rightarrow> Inr (Inl (''bad port number '' @ quoted (the port_str) @ '' in ''
                                      @ quoted address))
                  | Some p \<Rightarrow>
                      Inr (Inr (host, p,
                        if ipv6 then ''['' @ c_str host @ '']:'' @ dec p
                        else c_str host @ '':'' @ dec p))))"

section \<open>Splitting and joining\<close>

text \<open>The structural definition of splitting at the characters that satisfy a predicate.\<close>

fun split_on :: "(char \<Rightarrow> bool) \<Rightarrow> string \<Rightarrow> string list" where
  "split_on P [] = [[]]"
| "split_on P (c # cs) =
     (if P c then [] # split_on P cs
      else (c # hd (split_on P cs)) # tl (split_on P cs))"

lemma split_on_nonempty [simp]: "split_on P s \<noteq> []"
  by (cases s) auto

lemma split_on_none: "\<forall>c \<in> set s. \<not> P c \<Longrightarrow> split_on P s = [s]"
  by (induction s) auto

lemma split_on_hit:
  "\<forall>c \<in> set xs. \<not> P c \<Longrightarrow> P c \<Longrightarrow> split_on P (xs @ c # ys) = xs # split_on P ys"
  by (induction xs) auto

lemma find_first_of_takeWhile:
  "find_first_of s d base =
     (let k = length (takeWhile (\<lambda>c. c \<notin> set d) (drop base s))
      in if base + k < length s then Some (base + k) else None)"
proof (induction s d base rule: find_first_of.induct)
  case (1 s d base)
  show ?case
  proof (cases "base < length s")
    case True
    then have "drop base s = s ! base # drop (Suc base) s" by (simp add: Cons_nth_drop_Suc)
    with True 1 show ?thesis by (simp add: find_first_of.simps [of s d base] Let_def)
  next
    case False
    then show ?thesis by (simp add: find_first_of.simps [of s d base])
  qed
qed

lemma Split_loop_split_on:
  "Split_loop s d base = split_on (\<lambda>c. c \<in> set d) (drop base s)"
proof (induction s d base rule: Split_loop.induct)
  case (1 s d base)
  define xs where "xs = takeWhile (\<lambda>c. c \<notin> set d) (drop base s)"
  have no: "\<forall>c \<in> set xs. c \<notin> set d" by (auto simp: xs_def dest: set_takeWhileD)
  have f: "find_first_of s d base = (if base + length xs < length s then Some (base + length xs) else None)"
    by (simp add: find_first_of_takeWhile xs_def Let_def)
  define ys where "ys = dropWhile (\<lambda>c. c \<notin> set d) (drop base s)"
  have ys: "drop base s = xs @ ys" by (simp add: xs_def ys_def)
  have len: "length s - base = length xs + length ys" using arg_cong [OF ys, of length] by simp
  show ?case
  proof (cases "base + length xs < length s")
    case True
    then obtain c zs where cz: "ys = c # zs" using len by (cases ys) auto
    have "ys \<noteq> []" using cz by simp
    then have c: "c \<in> set d"
      using hd_dropWhile [of "\<lambda>c. c \<notin> set d" "drop base s"] cz unfolding ys_def by auto
    have "drop (length xs + 1) (drop base s) = zs" using ys cz by simp
    then have zs: "drop (Suc (base + length xs)) s = zs" by (simp add: add.commute)
    have sub: "substr s base (length xs) = xs" using ys by (simp add: substr_def)
    from 1 [of "base + length xs"] f True zs
    have "Split_loop s d (base + length xs + 1) = split_on (\<lambda>c. c \<in> set d) zs" by simp
    with f True sub c no show ?thesis
      by (simp add: Split_loop.simps [of s d base] ys cz split_on_hit)
  next
    case False
    then have "length ys = 0" using len by linarith
    then have "ys = []" by simp
    then have "\<forall>c \<in> set (drop base s). c \<notin> set d" using no ys by simp
    then have "split_on (\<lambda>c. c \<in> set d) (drop base s) = [drop base s]" by (rule split_on_none)
    with f False show ?thesis
      by (simp add: Split_loop.simps [of s d base] substr_def)
  qed
qed

lemma Split_eq: "d \<noteq> [] \<Longrightarrow> Split s d = Inr (split_on (\<lambda>c. c \<in> set d) s)"
  by (simp add: Split_def Split_loop_split_on)

lemma Split_char: "Split s [c] = Inr (split_on (\<lambda>x. x = c) s)"
  by (simp add: Split_eq)

lemma Join_Cons: "xs \<noteq> [] \<Longrightarrow> Join (x # xs) sep = x @ sep @ Join xs sep"
  by (cases xs) (simp_all add: Join_def)

lemma Join_single [simp]: "Join [x] sep = x"
  by (simp add: Join_def)

lemma Join_split_on: "Join (split_on (\<lambda>x. x = c) s) [c] = s"
proof (induction s)
  case (Cons a s)
  obtain y ys where "split_on (\<lambda>x. x = c) s = y # ys" by (meson split_on_nonempty list.exhaust)
  with Cons show ?case by (auto simp: Join_Cons Join_def)
qed simp

lemma split_on_no_sep: "x \<in> set (split_on P s) \<Longrightarrow> c \<in> set x \<Longrightarrow> \<not> P c"
proof (induction s arbitrary: x)
  case (Cons a s)
  obtain y ys where y: "split_on P s = y # ys" by (meson split_on_nonempty list.exhaust)
  have IH: "c \<in> set z \<Longrightarrow> \<not> P c" if "z \<in> set (y # ys)" for z using Cons.IH [of z] y that by simp
  show ?case using Cons.prems y IH [of y] IH [of x] by (auto split: if_splits)
qed simp

lemma split_on_Join:
  "xs \<noteq> [] \<Longrightarrow> \<forall>x \<in> set xs. c \<notin> set x \<Longrightarrow> split_on (\<lambda>x. x = c) (Join xs [c]) = xs"
proof (induction xs)
  case (Cons x xs)
  have x: "\<forall>a \<in> set x. a \<noteq> c" using Cons.prems by auto
  show ?case
  proof (cases xs)
    case Nil
    then show ?thesis using x by (simp add: split_on_none)
  next
    case (Cons y ys)
    with Cons.IH Cons.prems have "split_on (\<lambda>x. x = c) (Join xs [c]) = xs" by simp
    with Cons show ?thesis using split_on_hit [OF x, of c] by (simp add: Join_Cons)
  qed
qed simp

lemma split_on_set: "\<Union> (set ` set (split_on P s)) \<subseteq> set s"
proof (induction s)
  case (Cons a s)
  obtain y ys where "split_on P s = y # ys" by (meson split_on_nonempty list.exhaust)
  with Cons show ?case by auto
qed simp

text \<open>
  Property C10. \<open>Split\<close> at one character and \<open>Join\<close> with it are inverse: joining the pieces gives back
  the string and no piece contains the separator; and pieces without the separator are recovered
  from the joined string.
\<close>

theorem Split_Join_inverse:
  "(\<exists>xs. Split s [c] = Inr xs \<and> xs \<noteq> [] \<and> Join xs [c] = s \<and> list_all (\<lambda>x. c \<notin> set x) xs)
   \<and> (\<forall>ys. ys \<noteq> [] \<and> list_all (\<lambda>x. c \<notin> set x) ys \<longrightarrow> Split (Join ys [c]) [c] = Inr ys)"
  using split_on_no_sep [of _ "\<lambda>x. x = c" s c] Join_split_on [of c s]
  by (auto simp: Split_char list_all_iff split_on_Join)

theorem Split_Join_inverse_witness:
  "Split (Join [''features=cmd'', [], ''x''] '';'') '';'' = Inr [''features=cmd'', [], ''x'']"
  using Split_Join_inverse [of "[]" "CHR '';''"] by simp

section \<open>Trimming\<close>

definition trimmed :: "string \<Rightarrow> string" where
  "trimmed s = rev (dropWhile isspace (rev (dropWhile isspace s)))"

lemma Trim_start_eq: "Trim_start s i = (let k = length (takeWhile isspace (drop i s)) in i + k)"
proof (induction s i rule: Trim_start.induct)
  case (1 s i)
  show ?case
  proof (cases "i < length s")
    case True
    then have "drop i s = s ! i # drop (Suc i) s" by (simp add: Cons_nth_drop_Suc)
    with 1 True show ?thesis by (auto simp: Trim_start.simps [of s i] Let_def)
  qed (simp add: Trim_start.simps [of s i])
qed

text \<open>The second loop finds the last non-space, if the first loop stopped at a non-space.\<close>

lemma Trim_end_eq:
  assumes "\<not> isspace (s ! start)" "start \<le> i" "i < length s"
  shows "\<exists>j. Trim_end s start i = Inr j \<and> start \<le> j \<and> j \<le> i \<and> \<not> isspace (s ! j)
             \<and> (\<forall>k. j < k \<and> k \<le> i \<longrightarrow> isspace (s ! k))"
  using assms
proof (induction i)
  case 0
  then show ?case by (simp add: Trim_end.simps)
next
  case (Suc i)
  show ?case
  proof (cases "isspace (s ! Suc i)")
    case True
    then have "start \<noteq> Suc i" using Suc.prems by auto
    then obtain j where j: "Trim_end s start i = Inr j" "start \<le> j" "j \<le> i" "\<not> isspace (s ! j)"
      "\<forall>k. j < k \<and> k \<le> i \<longrightarrow> isspace (s ! k)"
      using Suc by auto
    have "\<forall>k. j < k \<and> k \<le> Suc i \<longrightarrow> isspace (s ! k)" using j(5) True le_Suc_eq by auto
    with j True Suc.prems show ?thesis
      by (intro exI [of _ j]) (simp add: Trim_end.simps [of s start "Suc i"])
  next
    case False
    then show ?thesis using Suc.prems by (intro exI [of _ "Suc i"]) (auto simp: Trim_end.simps)
  qed
qed

lemma dropWhile_suffix:
  assumes "\<forall>c \<in> set xs. P c" "ys \<noteq> []" "\<not> P (last ys)"
  shows "rev (dropWhile P (rev (ys @ xs))) = ys"
proof -
  have "dropWhile P (rev xs @ rev ys) = dropWhile P (rev ys)" using assms(1) by (intro dropWhile_append2) simp
  also have "\<dots> = rev ys" using assms(2,3) by (cases "rev ys") (auto simp: hd_rev dest: sym)
  finally show ?thesis by simp
qed

lemma takeWhile_stops:
  "\<exists>x \<in> set xs. \<not> P x \<Longrightarrow>
   length (takeWhile P xs) < length xs \<and> \<not> P (xs ! length (takeWhile P xs))"
  by (induction xs) auto

lemma Trim_trimmed: "Trim s = Inr (trimmed s)"
proof (cases "\<forall>c \<in> set s. isspace c")
  case True
  then have "takeWhile isspace s = s" using takeWhile_eq_all_conv by blast
  then have "length (takeWhile isspace s) = length s" by (rule arg_cong)
  then have "Trim_start s 0 = length s" using Trim_start_eq [of s 0] by simp
  moreover have "dropWhile isspace s = []" using True by simp
  then have "trimmed s = []" by (simp only: trimmed_def rev.simps dropWhile.simps)
  ultimately show ?thesis by (cases s) (auto simp: Trim_def Trim_end.simps)
next
  case False
  define a where "a = length (takeWhile isspace s)"
  have a: "Trim_start s 0 = a" by (simp add: Trim_start_eq a_def)
  have dw: "dropWhile isspace s = drop a s" by (simp add: a_def dropWhile_eq_drop)
  have al: "a < length s" "\<not> isspace (s ! a)"
    using takeWhile_stops [of s isspace] False by (auto simp: a_def)
  have sl: "length s - 1 < length s" "a \<le> length s - 1" using al(1) by auto
  obtain j where j: "Trim_end s a (length s - 1) = Inr j" "a \<le> j" "j \<le> length s - 1"
    "\<not> isspace (s ! j)" "\<forall>k. j < k \<and> k \<le> length s - 1 \<longrightarrow> isspace (s ! k)"
    using Trim_end_eq [OF al(2) sl(2,1)] by blast
  let ?ys = "take (Suc j - a) (drop a s)"
  have split: "drop a s = ?ys @ drop (Suc j) s"
    using j(2) append_take_drop_id [of "Suc j - a" "drop a s"] by simp
  have "\<forall>c \<in> set (drop (Suc j) s). isspace c"
  proof
    fix c assume "c \<in> set (drop (Suc j) s)"
    then obtain i where "i < length s - Suc j" "c = s ! (Suc j + i)"
      by (auto simp: in_set_conv_nth)
    then show "isspace c" using j(5) by auto
  qed
  moreover have "last ?ys = s ! j" "?ys \<noteq> []"
    using j(2,3) sl by (auto simp: last_conv_nth)
  ultimately have "trimmed s = ?ys"
    unfolding trimmed_def dw by (subst split) (rule dropWhile_suffix, use j(4) in auto)
  then show ?thesis
    using a j al by (auto simp: Trim_def Let_def substr_def Suc_diff_le)
qed

section \<open>Parsing integers\<close>

lemma parse_base_digits: "parse_base (digits 10 n) = 10"
proof -
  have "CHR ''x'' \<notin> set (digits 10 n)" "CHR ''X'' \<notin> set (digits 10 n)"
    using digits_are_digits [of 10 n] digits_no_x [of 10] by auto
  then show ?thesis by (auto simp: parse_base_def split: list.splits)
qed

lemma parse_base_dec: "parse_base (dec v) = 10"
  by (auto simp: dec_def parse_base_digits) (auto simp: parse_base_def split: list.splits)

lemma c_str_dec [simp]: "c_str (dec v) = dec v"
  using digits_no_nul [of 10 "nat v"] digits_no_nul [of 10 "nat (- v)"]
  by (intro c_str_id) (auto simp: dec_def NUL_def)

lemma dec_nonempty [simp]: "dec v \<noteq> []" "[] \<noteq> dec v"
  using digits_nonempty by (auto simp: dec_def dest: sym)

lemma ParseInt_dec:
  assumes "LLONG_MIN \<le> v" "v \<le> LLONG_MAX" "mn \<le> v" "v \<le> mx"
  shows "ParseInt mn mx (dec v) = Some v"
  using assms by (simp add: ParseInt_def parse_base_dec strtoll_dec)

lemma ParseInt_bounds: "ParseInt mn mx s = Some v \<Longrightarrow> mn \<le> v \<and> v \<le> mx"
  by (auto simp: ParseInt_def split: prod.splits if_splits)

section \<open>Network addresses\<close>

lemma sscanf_d_dec:
  assumes "0 < p" "p \<le> 65535"
  shows "sscanf_d (dec p) = Some p"
proof -
  have "strto_subject 10 (dec p) = Some (False, nat p, [])"
    using strto_subject_digits [of "digits 10 (nat p)" 10] digits_are_digits [of 10 "nat p"] assms
    by (simp add: dec_def scan_digits_digits)
  then show ?thesis
    using assms strtoll_dec [of p]
    by (simp add: sscanf_d_def to_int32_def LLONG_MIN_def LLONG_MAX_def)
qed

lemma dec_chars:
  assumes "0 \<le> p" "digit_val 10 c = None"
  shows "c \<notin> set (dec p)"
  using assms digits_are_digits [of 10 "nat p"] by (auto simp: dec_def)

lemma find_close_append:
  "find_close h = None \<Longrightarrow> find_close (h @ CHR '']'' # CHR '':'' # t) = Some (length h)"
proof (induction h rule: find_close.induct)
  case (1 a b cs)
  then show ?case by (auto split: if_splits)
qed auto

lemma find_close_take: "find_close s = Some f \<Longrightarrow> find_close (take f s) = None"
proof (induction s arbitrary: f rule: find_close.induct)
  case (1 a b cs)
  show ?case
  proof (cases f)
    case (Suc g)
    with 1 have "find_close (take g (b # cs)) = None" by (auto split: if_splits)
    with Suc 1 show ?thesis by (cases g) (auto split: if_splits)
  qed simp
qed auto

lemma rfind_close_none: "CHR '']'' \<notin> set s \<Longrightarrow> rfind_close s = None"
  by (induction s rule: rfind_close.induct) auto

lemma rfind_close_append:
  assumes "CHR '']'' \<notin> set t"
  shows "rfind_close (xs @ CHR '']'' # CHR '':'' # t) = Some (length xs)"
proof (induction xs)
  case Nil
  then show ?case using assms by (simp add: rfind_close_none)
next
  case (Cons a xs)
  then show ?case by (cases xs) simp_all
qed

text \<open>Parsing the two canonical forms.\<close>

lemma ParseNetAddress_bracketed:
  assumes "h \<noteq> []" "find_close h = None" "NUL \<notin> set h" "0 < p" "p \<le> 65535"
  shows "ParseNetAddress (''['' @ h @ '']:'' @ dec p) q
         = Inr (Inr (h, p, ''['' @ h @ '']:'' @ dec p))"
proof -
  let ?t = "dec p"
  have t: "CHR '']'' \<notin> set ?t"
    using assms(4) by (intro dec_chars) (auto simp: digit_val_def isdigit_def islower_def isupper_def Let_def)
  have f: "find_close (CHR ''['' # h @ CHR '']'' # CHR '':'' # ?t) = Some (Suc (length h))"
    using find_close_append [OF assms(2), of ?t] by (cases h) simp_all
  have r: "rfind_close (CHR ''['' # h @ CHR '']'' # CHR '':'' # ?t) = Some (Suc (length h))"
    using rfind_close_append [OF t, of "CHR ''['' # h"] by simp
  show ?thesis
    using assms f r by (simp add: ParseNetAddress_def net_host_port_def substr_def sscanf_d_dec Let_def)
qed

lemma ParseNetAddress_plain:
  assumes "h \<noteq> []" "CHR '':'' \<notin> set h" "hd h \<noteq> CHR ''[''" "NUL \<notin> set h" "0 < p" "p \<le> 65535"
  shows "ParseNetAddress (h @ '':'' @ dec p) q = Inr (Inr (h, p, h @ '':'' @ dec p))"
proof -
  have c: "CHR '':'' \<notin> set (dec p)"
    using assms(5) by (intro dec_chars) (auto simp: digit_val_def isdigit_def islower_def isupper_def Let_def)
  have "\<forall>x \<in> set h. x \<noteq> CHR '':''" "\<forall>x \<in> set (dec p). x \<noteq> CHR '':''" using assms(2) c by auto
  then have "split_on (\<lambda>x. x = CHR '':'') (h @ CHR '':'' # dec p) = [h, dec p]"
    by (simp add: split_on_hit split_on_none)
  moreover have "count_list (h @ '':'' @ dec p) (CHR '':'') = 1"
    using assms(2) c by simp
  ultimately show ?thesis
    using assms by (simp add: ParseNetAddress_def net_host_port_def Split_char sscanf_d_dec Let_def)
qed

lemma net_host_port_bracketed:
  assumes "net_host_port a = Inr (Inr (v6, h, ps))" "a \<noteq> []" "hd a = CHR ''[''"
  shows "v6" "\<exists>f. find_close a = Some f \<and> h = substr a 1 (f - 1)"
  using assms by (auto simp: net_host_port_def split: option.splits)

lemma net_host_port_plain:
  assumes "net_host_port a = Inr (Inr (v6, h, ps))" "\<not> (a \<noteq> [] \<and> hd a = CHR ''['')" "h \<noteq> []"
  shows "v6 \<and> h = a \<or> \<not> v6 \<and> h = split_on (\<lambda>x. x = CHR '':'') a ! 0"
proof -
  define k n where "k = count_list a (CHR '':'')" "n = count_list a (CHR ''.'')"
  have "net_host_port a =
     (if n = 0 \<and> 2 \<le> k \<and> k \<le> 7 then Inr (Inr (True, a, None))
      else if k \<le> 1 then
        (let pieces = split_on (\<lambda>x. x = CHR '':'') a
         in Inr (Inr (False, pieces ! 0, if length pieces > 1 then Some (pieces ! 1) else None)))
      else Inr (Inr (True, [], None)))"
    using assms(2) unfolding net_host_port_def Split_char rbind_Inr Let_def k_n_def
    by (simp only: if_False)
  then show ?thesis using assms(1,3) unfolding Let_def by (simp split: if_split_asm)
qed

text \<open>A successful parse of a text without NUL and stray brackets has one of the two forms.\<close>

lemma ParseNetAddress_result:
  assumes "ParseNetAddress a q = Inr (Inr (h, p, canon))" "NUL \<notin> set a" "0 < q" "q \<le> 65535"
    and "CHR '']'' \<notin> set a \<or> hd a = CHR ''[''"
  shows "0 < p \<and> p \<le> 65535 \<and> h \<noteq> [] \<and> NUL \<notin> set h
         \<and> (canon = ''['' @ h @ '']:'' @ dec p \<and> find_close h = None
            \<or> canon = h @ '':'' @ dec p \<and> CHR '':'' \<notin> set h \<and> hd h \<noteq> CHR ''['')"
proof -
  from assms(1,3,4) obtain v6 ps where hp: "net_host_port a = Inr (Inr (v6, h, ps))"
    and canon: "canon = (if v6 then ''['' @ c_str h @ '']:'' @ dec p else c_str h @ '':'' @ dec p)"
    and port: "0 < p \<and> p \<le> 65535" "h \<noteq> []"
    by (auto simp: ParseNetAddress_def Let_def split: if_splits sum.splits option.splits)
  have no_close: "CHR '']'' \<notin> set s \<Longrightarrow> find_close s = None" for s
    by (induction s rule: find_close.induct) auto
  consider (br) f where "a \<noteq> []" "hd a = CHR ''[''" "find_close a = Some f"
      "h = substr a 1 (f - 1)" "v6"
    | (v6) "\<not> (a \<noteq> [] \<and> hd a = CHR ''['')" "h = a" "v6"
    | (v4) "\<not> (a \<noteq> [] \<and> hd a = CHR ''['')" "h = split_on (\<lambda>x. x = CHR '':'') a ! 0" "\<not> v6"
    using net_host_port_bracketed [OF hp] net_host_port_plain [OF hp] port(2) by blast
  then show ?thesis
  proof cases
    case br
    then have "f \<noteq> 0" by (cases a rule: find_close.cases) (auto split: if_splits)
    then have "take f a = CHR ''['' # h" using br by (cases a; cases f) (simp_all add: substr_def)
    then have "find_close h = None" using find_close_take [OF br(3)] by (cases h) auto
    moreover have "NUL \<notin> set h" using assms(2) br(4) by (auto simp: substr_def dest: in_set_takeD in_set_dropD)
    ultimately show ?thesis using br(5) port canon by simp
  next
    case v6
    then show ?thesis using assms(2,5) port no_close [of a] canon by auto
  next
    case v4
    obtain y ys where y: "split_on (\<lambda>x. x = CHR '':'') a = y # ys" by (meson split_on_nonempty list.exhaust)
    then have hy: "h = y" using v4 by simp
    have "set h \<subseteq> set a" using split_on_set [of "\<lambda>x. x = CHR '':''" a] y hy by auto
    then have "NUL \<notin> set h" using assms(2) by blast
    moreover from this have "c_str h = h" by simp
    moreover have "CHR '':'' \<notin> set h"
      using split_on_no_sep [of h "\<lambda>x. x = CHR '':''" a] y hy by auto
    moreover have "a \<noteq> [] \<and> hd h = hd a" using y hy port(2) by (cases a) (auto split: if_splits)
    ultimately show ?thesis using v4(1,3) port canon by simp
  qed
qed

text \<open>
  Property C8. The canonical form of a network address is a fixed point: when \<open>ParseNetAddress\<close>
  accepts a text (without NUL, and with no closing bracket outside a bracketed host), the port is
  valid, and parsing the canonical address it returns, with any default port, yields the same host,
  port and canonical address.
\<close>

theorem ParseNetAddress_canonical:
  assumes "ParseNetAddress a q = Inr (Inr (h, p, canon))" "NUL \<notin> set a" "0 < q" "q \<le> 65535"
    and "CHR '']'' \<notin> set a \<or> hd a = CHR ''[''"
  shows "0 < p \<and> p \<le> 65535 \<and> ParseNetAddress canon q' = Inr (Inr (h, p, canon))"
  using ParseNetAddress_result [OF assms]
  by (elim conjE disjE) (simp_all only: ParseNetAddress_bracketed ParseNetAddress_plain simp_thms)

theorem ParseNetAddress_canonical_witness:
  "ParseNetAddress ''::1'' 5555 = Inr (Inr (''::1'', 5555, ''[::1]:'' @ dec 5555))
   \<and> ParseNetAddress (''[::1]:'' @ dec 5555) 1 = Inr (Inr (''::1'', 5555, ''[::1]:'' @ dec 5555))"
proof -
  have a: "ParseNetAddress ''::1'' 5555 = Inr (Inr (''::1'', 5555, ''[::1]:'' @ dec 5555))"
    by (simp add: ParseNetAddress_def net_host_port_def c_str_def NUL_def)
  from ParseNetAddress_canonical [OF this, of 1] show ?thesis using a by (simp add: NUL_def)
qed

end
