(* ===== verification/AdbUtils.thy ===== *)
theory AdbUtils
  imports Base_Strings
begin

text \<open>
  \<open>adb_utils.cpp\<close>: quoting of shell arguments, hexadecimal dumps of packets, and the validation of
  forwarding targets. A small reader of shell words is the specification of the quoting.
\<close>

section \<open>Operations\<close>

definition SQUOTE :: char where "SQUOTE = CHR 0x27"
definition BACKSLASH :: char where "BACKSLASH = CHR 0x5C"

text \<open>The loop of \<open>escape_arg\<close> over the positions of single quotes.\<close>

function escape_arg_loop :: "string \<Rightarrow> nat \<Rightarrow> string" where
  "escape_arg_loop s base =
     (case find_first_of s [SQUOTE] base of
        None \<Rightarrow> substr s base (length s)
      | Some found \<Rightarrow>
          substr s base (found - base) @ [SQUOTE, BACKSLASH, SQUOTE, SQUOTE]
          @ escape_arg_loop s (found + 1))"
  by pat_completeness auto
termination
  by (relation "measure (\<lambda>(s, base). length s - base)") (auto dest: find_first_of_Some)

declare escape_arg_loop.simps [simp del]

definition escape_arg :: "string \<Rightarrow> string" where
  "escape_arg s = SQUOTE # escape_arg_loop s 0 @ [SQUOTE]"

definition dump_hex :: "bytes \<Rightarrow> nat \<Rightarrow> string res" where
  "dump_hex p byte_count =
     (let n = min byte_count 16
      in if n > length p then Inl OutOfBounds
         else Inr (concat (map (\<lambda>c. hex02 (of_char c)) (take n p)) @ '' ''
                   @ map (\<lambda>c. if isprint c then c else CHR ''.'') (take n p)
                   @ (if byte_count > 16 then '' [truncated]'' else [])))"

text \<open>\<open>forward_targets_are_valid\<close>: the error message if the targets are not valid.\<close>

definition forward_targets_are_valid :: "string \<Rightarrow> string \<Rightarrow> string option" where
  "forward_targets_are_valid source dest =
     (if StartsWith source ''tcp:''
         \<and> (case ParseInt_int (drop 4 source) of None \<Rightarrow> True | Some port \<Rightarrow> port < 0)
      then Some (''Invalid source port: '' @ quoted (drop 4 source))
      else if StartsWith dest ''tcp:''
         \<and> (case ParseInt_int (drop 4 dest) of None \<Rightarrow> True | Some port \<Rightarrow> port \<le> 0)
      then Some (''Invalid destination port: '' @ quoted (drop 4 dest))
      else None)"

section \<open>Shell words\<close>

text \<open>
  How a POSIX shell reads a word made of single-quoted pieces and escaped characters: inside single
  quotes everything stands for itself, outside them a backslash takes the next character literally,
  and any other character ends this simple form (\<open>None\<close>), as does a missing closing quote.
\<close>

fun sh_word :: "bool \<Rightarrow> string \<Rightarrow> string option" where
  "sh_word True [] = None"
| "sh_word True (c # cs) =
     (if c = SQUOTE then sh_word False cs else map_option ((#) c) (sh_word True cs))"
| "sh_word False [] = Some []"
| "sh_word False [c] = (if c = SQUOTE then sh_word True [] else None)"
| "sh_word False (c # d # cs) =
     (if c = SQUOTE then sh_word True (d # cs)
      else if c = BACKSLASH then map_option ((#) d) (sh_word False cs)
      else None)"

lemma sh_word_open: "sh_word False (SQUOTE # cs) = sh_word True cs"
  by (cases cs) simp_all

lemma BACKSLASH_SQUOTE [simp]: "BACKSLASH \<noteq> SQUOTE"
  by (simp add: BACKSLASH_def SQUOTE_def)

lemma sh_word_escape: 
  "sh_word False (BACKSLASH # d # cs) = map_option ((#) d) (sh_word False cs)"
  by simp

lemma sh_word_literal:
  "SQUOTE \<notin> set xs \<Longrightarrow> sh_word True (xs @ cs) = map_option ((@) xs) (sh_word True cs)"
proof (induction xs)
  case Nil
  then show ?case by (cases "sh_word True cs") simp_all
next
  case (Cons x xs)
  then show ?case by (cases "sh_word True cs") auto
qed

lemma sh_word_escape_arg_loop:
  "sh_word True (escape_arg_loop s base @ [SQUOTE]) = Some (drop base s)"
proof (induction s base rule: escape_arg_loop.induct)
  case (1 s base)
  define xs where "xs = takeWhile (\<lambda>c. c \<noteq> SQUOTE) (drop base s)"
  have no: "SQUOTE \<notin> set xs" by (auto simp: xs_def dest: set_takeWhileD)
  define ys where "ys = dropWhile (\<lambda>c. c \<noteq> SQUOTE) (drop base s)"
  have split: "drop base s = xs @ ys" by (simp add: xs_def ys_def)
  have f: "find_first_of s [SQUOTE] base =
      (if base + length xs < length s then Some (base + length xs) else None)"
    by (simp add: find_first_of_takeWhile xs_def Let_def)
  have len: "length s - base = length xs + length ys" using arg_cong [OF split, of length] by simp
  show ?case
  proof (cases ys)
    case Nil
    then have "\<not> base + length xs < length s" using len by auto
    with f have "escape_arg_loop s base = xs"
      using split Nil len by (simp add: escape_arg_loop.simps [of s base] substr_def)
    then show ?thesis using no split Nil by (simp add: sh_word_literal)
  next
    case (Cons c zs)
    have c: "c = SQUOTE"
      using Cons hd_dropWhile [of "\<lambda>c. c \<noteq> SQUOTE" "drop base s"] unfolding ys_def by fastforce
    have lt: "base + length xs < length s" using len Cons by simp
    have "drop (length xs + 1) (drop base s) = zs" using split Cons by simp
    then have zs: "drop (Suc (base + length xs)) s = zs" by (simp add: add.commute)
    have "sh_word True (escape_arg_loop s (base + length xs + 1) @ [SQUOTE]) = Some zs"
      using 1 [of "base + length xs"] f lt zs by simp
    moreover have "escape_arg_loop s base =
        xs @ [SQUOTE, BACKSLASH, SQUOTE, SQUOTE] @ escape_arg_loop s (base + length xs + 1)"
      using f lt split by (simp add: escape_arg_loop.simps [of s base] substr_def)
    ultimately show ?thesis
      using no split Cons c by (simp add: sh_word_literal sh_word_escape sh_word_open)
  qed
qed

text \<open>
  Property C7. \<open>escape_arg\<close> quotes correctly: for every string, the shell reads the quoted argument
  as one word that is the original string, whatever quotes, backslashes or other special characters
  the string contains.
\<close>

theorem escape_arg_roundtrip: "sh_word False (escape_arg s) = Some s"
  using sh_word_escape_arg_loop [of s 0] by (simp add: escape_arg_def sh_word_open)

lemma dump_hex_total: "n \<le> length p \<Longrightarrow> \<exists>s. dump_hex p n = Inr s"
  by (simp add: dump_hex_def Let_def)

end
