(* ===== verification/Transport.thy ===== *)
theory Transport
  imports AdbState AdbUtils "HOL-Library.List_Lexorder" "HOL-Library.Char_ord"
    "HOL-Library.Product_Lexorder" "HOL-Library.AList"
begin

text \<open>
  \<open>transport.cpp\<close>: feature sets, matching of targets, the choice of a transport for a request, the
  listing of transports, sending of packets, kicking, and the life cycle of a transport from its
  registration to its deletion. \<open>diagnose_usb.cpp\<close> supplies two messages.
\<close>

section \<open>Environment\<close>

text \<open>
  What the program asks its environment: membership in the \<open>plugdev\<close> group (if the group exists:
  whether the user is a member, and the user's name if known), the variables \<open>ADB_VENDOR_KEYS\<close> and
  \<open>ADBHOST\<close>, the network calls and \<open>adb_socket_get_local_port\<close>, the option \<open>-a\<close> (\<open>gListenAll\<close>) and
  \<open>should_use_libusb\<close>; of the file system the type of a file, its content, the private key it holds and
  the entries of a directory, and the path of the user's directory; of the cryptographic library
  \<open>RSA_sign\<close> and the fingerprint of a key.
\<close>

datatype file_type = S_IFREG | S_IFDIR | S_IFOTHER

record host_env =
  env_plugdev :: "(bool \<times> string option) option"
  env_vendor_keys :: "string option"
  env_adbhost :: "string option"
  env_network :: "net_request \<Rightarrow> os \<Rightarrow> (string + int) \<times> os"
  env_local_port :: "int \<Rightarrow> int"
  env_listen_all :: bool
  env_libusb :: bool
  env_android_dir :: string
  env_stat :: "string \<Rightarrow> file_type option"
  env_file :: "string \<Rightarrow> string option"
  env_key_file :: "string \<Rightarrow> nat option"
  env_readdir :: "string \<Rightarrow> string list option"
  env_rsa_sign :: "nat \<Rightarrow> bytes \<Rightarrow> bytes option"
  env_hash_key :: "nat \<Rightarrow> string"

text \<open>An environment in which nothing special is set.\<close>

definition plain_env :: host_env where
  "plain_env =
     \<lparr>env_plugdev = None, env_vendor_keys = None, env_adbhost = None, env_network = net_script,
      env_local_port = (\<lambda>_. 0), env_listen_all = False, env_libusb = False,
      env_android_dir = ''/root/.android'', env_stat = (\<lambda>_. None), env_file = (\<lambda>_. None),
      env_key_file = (\<lambda>_. None), env_readdir = (\<lambda>_. None),
      env_rsa_sign = (\<lambda>key token. Some (token @ token)), env_hash_key = (\<lambda>key. [CHR ''k''])\<rparr>"

definition GetUdevProblem :: "host_env \<Rightarrow> string" where
  "GetUdevProblem env =
     (case env_plugdev env of
        None \<Rightarrow> []
      | Some (member, user) \<Rightarrow>
          if member then ''user in plugdev group; are your udev rules wrong?''
          else ''user '' @ (case user of None \<Rightarrow> ''?'' | Some u \<Rightarrow> u) @ '' is not in the plugdev group'')"

definition kPermissionsHelpUrl :: string where
  "kPermissionsHelpUrl = ''http://developer.android.com/tools/device.html''"

definition UsbNoPermissionsShortHelpText :: "host_env \<Rightarrow> string" where
  "UsbNoPermissionsShortHelpText env =
     (let problem = GetUdevProblem env;
          help = (if problem \<noteq> [] then ''no permissions ('' @ problem @ '')'' else ''no permissions'')
      in c_str help @ ''; see ['' @ kPermissionsHelpUrl @ '']'')"

definition UsbNoPermissionsLongHelpText :: "host_env \<Rightarrow> string" where
  "UsbNoPermissionsLongHelpText env =
     (let problem = GetUdevProblem env;
          header = (if problem \<noteq> [] then ''insufficient permissions for device: '' @ problem
                    else ''insufficient permissions for device'')
      in c_str header @ [CHR 0x0A] @ ''See ['' @ kPermissionsHelpUrl @ ''] for more information'')"

section \<open>Features\<close>

definition kFeatureShell2 :: string where "kFeatureShell2 = ''shell_v2''"
definition kFeatureCmd :: string where "kFeatureCmd = ''cmd''"
definition kFeatureStat2 :: string where "kFeatureStat2 = ''stat_v2''"
definition kFeatureLibusb :: string where "kFeatureLibusb = ''libusb''"
definition kFeaturePushSync :: string where "kFeaturePushSync = ''push_sync''"

definition supported_features :: FeatureSet where
  "supported_features = [kFeatureShell2, kFeatureCmd, kFeatureStat2]"

definition FeatureSetToString :: "FeatureSet \<Rightarrow> string" where
  "FeatureSetToString features = Join features '',''"

definition StringToFeatureSet :: "string \<Rightarrow> FeatureSet res" where
  "StringToFeatureSet s =
     (if s = [] then Inr [] else rbind (Split s '','') (\<lambda>names. Inr (remdups names)))"

definition CanUseFeature :: "FeatureSet \<Rightarrow> string \<Rightarrow> bool" where
  "CanUseFeature feature_set feature \<longleftrightarrow>
     feature \<in> set feature_set \<and> feature \<in> set supported_features"

definition has_feature :: "string \<Rightarrow> atransport \<Rightarrow> bool" where
  "has_feature feature t \<longleftrightarrow> feature \<in> set (at_features t)"

definition SetFeatures :: "string \<Rightarrow> atransport \<Rightarrow> atransport res" where
  "SetFeatures s t = rbind (StringToFeatureSet s) (\<lambda>f. Inr (t\<lparr>at_features := f\<rparr>))"

section \<open>One transport\<close>

definition atransport_new :: "reconnect_fn \<Rightarrow> ConnectionState \<Rightarrow> u64 \<Rightarrow> atransport" where
  "atransport_new reconnect st i =
     \<lparr>at_id = i, at_ref_count = 0, at_online = False, at_type = kTransportAny, at_serial = [],
      at_product = [], at_model = [], at_device = [], at_devpath = [], at_kicked = False,
      at_features = [], at_protocol_version = A_VERSION_MIN, at_max_payload = MAX_PAYLOAD,
      at_disconnects = [], at_state = st, at_keys = [], at_established = False,
      at_established_ready = False, at_connection = None, at_reconnect = reconnect\<rparr>"

text \<open>\<open>update_version(int version, size_t payload)\<close>; the caller passes two \<open>uint32_t\<close>.\<close>

definition update_version :: "int \<Rightarrow> nat \<Rightarrow> atransport \<Rightarrow> atransport" where
  "update_version version maxdata t =
     t\<lparr>at_protocol_version := min version A_VERSION, at_max_payload := min maxdata MAX_PAYLOAD\<rparr>"

definition SetConnectionEstablished :: "bool \<Rightarrow> atransport \<Rightarrow> atransport" where
  "SetConnectionEstablished success t =
     (if at_established_ready t then t
      else t\<lparr>at_established_ready := True, at_established := success\<rparr>)"

definition serial_name :: "atransport \<Rightarrow> string" where
  "serial_name t = (if at_serial t \<noteq> [] then at_serial t else ''<unknown>'')"

fun connection_state_name :: "host_env \<Rightarrow> ConnectionState \<Rightarrow> string" where
  "connection_state_name env kCsOffline = ''offline''"
| "connection_state_name env kCsBootloader = ''bootloader''"
| "connection_state_name env kCsDevice = ''device''"
| "connection_state_name env kCsHost = ''host''"
| "connection_state_name env kCsRecovery = ''recovery''"
| "connection_state_name env kCsNoPerm = UsbNoPermissionsShortHelpText env"
| "connection_state_name env kCsSideload = ''sideload''"
| "connection_state_name env kCsUnauthorized = ''unauthorized''"
| "connection_state_name env kCsAuthorizing = ''authorizing''"
| "connection_state_name env kCsConnecting = ''connecting''"
| "connection_state_name env kCsAny = ''unknown''"

text \<open>
  \<open>qual_match\<close> walks a pointer over the NUL-terminated \<open>to_test\<close>. A NUL in \<open>qual\<close> can match the
  terminator, after which the pointer leaves the string.
\<close>

fun match_chars :: "string \<Rightarrow> string \<Rightarrow> string option res" where
  "match_chars [] ptr = Inr (Some ptr)"
| "match_chars (c # cs) [] = Inl OutOfBounds"
| "match_chars (c # cs) (p # ps) = (if c \<noteq> p then Inr None else match_chars cs ps)"

definition qual_match :: "string \<Rightarrow> string option \<Rightarrow> string \<Rightarrow> bool \<Rightarrow> bool res" where
  "qual_match to_test prefix qual sanitize_qual =
     (if to_test = [] then Inr (qual = [])
      else if qual = [] then Inr False
      else rbind (match_chars (case prefix of None \<Rightarrow> [] | Some p \<Rightarrow> p) (to_test @ [NUL])) (\<lambda>r1.
           case r1 of None \<Rightarrow> Inr False
         | Some ptr \<Rightarrow>
             rbind (match_chars (map (\<lambda>ch. if sanitize_qual \<and> \<not> isalnum ch then CHR ''_'' else ch) qual) ptr)
               (\<lambda>r2. case r2 of None \<Rightarrow> Inr False
                | Some [] \<Rightarrow> Inl OutOfBounds
                | Some (c # _) \<Rightarrow> Inr (c = NUL))))"

definition MatchesTarget :: "atransport \<Rightarrow> string \<Rightarrow> bool res" where
  "MatchesTarget t target =
     rbind
       (if at_serial t = [] then Inr False
        else if target = at_serial t then Inr True
        else if at_type t = kTransportLocal then
          (let local_target = (if StartsWith target ''tcp:'' \<or> StartsWith target ''udp:''
                               then drop 4 (c_str target) else c_str target)
           in rbind (ParseNetAddress (at_serial t) (-1)) (\<lambda>r1.
              case r1 of Inl _ \<Rightarrow> Inr False
              | Inr (serial_host, serial_port, _) \<Rightarrow>
                  rbind (ParseNetAddress local_target serial_port) (\<lambda>r2.
                  case r2 of Inl _ \<Rightarrow> Inr False
                  | Inr (target_host, target_port, _) \<Rightarrow>
                      Inr (serial_host = target_host \<and> serial_port = target_port))))
        else Inr False)
       (\<lambda>found. if found then Inr True
          else if target = at_devpath t then Inr True
          else rbind (qual_match target (Some ''product:'') (at_product t) False) (\<lambda>m1.
            if m1 then Inr True
            else rbind (qual_match target (Some ''model:'') (at_model t) True) (\<lambda>m2.
              if m2 then Inr True
              else qual_match target (Some ''device:'') (at_device t) False)))"

section \<open>Choosing a transport\<close>

fun acquire_loop ::
  "host_env \<Rightarrow> TransportType \<Rightarrow> string option \<Rightarrow> u64 \<Rightarrow> adb \<Rightarrow> nat list \<Rightarrow> nat option \<Rightarrow> string \<Rightarrow>
   (nat option \<times> string \<times> bool) res" where
  "acquire_loop env ty serial tid g [] result err = Inr (result, err, False)"
| "acquire_loop env ty serial tid g (t # ts) result err =
     rbind (tport t g) (\<lambda>x.
       if at_state x = kCsNoPerm then
         acquire_loop env ty serial tid g ts result (UsbNoPermissionsLongHelpText env)
       else if tid \<noteq> 0 then
         (if at_id x = tid then Inr (Some t, err, False)
          else acquire_loop env ty serial tid g ts result err)
       else case serial of
         Some s \<Rightarrow>
           rbind (MatchesTarget x s) (\<lambda>m.
             if m then
               (if result \<noteq> None then Inr (None, ''more than one device'', True)
                else acquire_loop env ty serial tid g ts (Some t) err)
             else acquire_loop env ty serial tid g ts result err)
       | None \<Rightarrow>
           if ty = kTransportUsb \<and> at_type x = kTransportUsb then
             (if result \<noteq> None then Inr (None, ''more than one device'', True)
              else acquire_loop env ty serial tid g ts (Some t) err)
           else if ty = kTransportLocal \<and> at_type x = kTransportLocal then
             (if result \<noteq> None then Inr (None, ''more than one emulator'', True)
              else acquire_loop env ty serial tid g ts (Some t) err)
           else if ty = kTransportAny then
             (if result \<noteq> None then Inr (None, ''more than one device/emulator'', True)
              else acquire_loop env ty serial tid g ts (Some t) err)
           else acquire_loop env ty serial tid g ts result err)"

definition acquire_error :: "TransportType \<Rightarrow> string option \<Rightarrow> u64 \<Rightarrow> string" where
  "acquire_error ty serial tid =
     (if tid \<noteq> 0 then ''no device with transport id '' @ quoted (dec (uint tid))
      else case serial of
        Some s \<Rightarrow> ''device '' @ quoted s @ '' not found''
      | None \<Rightarrow> if ty = kTransportLocal then ''no emulators found''
               else if ty = kTransportAny then ''no devices/emulators found''
               else ''no devices found'')"

definition unauthorized_error :: "host_env \<Rightarrow> string" where
  "unauthorized_error env =
     ''device unauthorized.'' @ [CHR 0x0A]
     @ ''This adb server's $ADB_VENDOR_KEYS is ''
     @ (case env_vendor_keys env of None \<Rightarrow> ''not set'' | Some k \<Rightarrow> k) @ [CHR 0x0A]
     @ ''Try 'adb kill-server' if that seems wrong.'' @ [CHR 0x0A]
     @ ''Otherwise check for a confirmation dialog on your device.''"

text \<open>The transport found, the text of \<open>*error_out\<close>, and whether the request was ambiguous.\<close>

definition acquire_one_transport ::
  "host_env \<Rightarrow> TransportType \<Rightarrow> string option \<Rightarrow> u64 \<Rightarrow> bool \<Rightarrow> adb \<Rightarrow> (nat option \<times> string \<times> bool) res" where
  "acquire_one_transport env ty serial tid accept_any_state g =
     rbind (acquire_loop env ty serial tid g (g_transport_list g) None (acquire_error ty serial tid))
       (\<lambda>(result, err, amb).
       rbind
         (case result of
            None \<Rightarrow> Inr (None, err)
          | Some t \<Rightarrow>
              if accept_any_state then Inr (Some t, err)
              else rbind (tport t g) (\<lambda>x.
                Inr (case at_state x of
                       kCsConnecting \<Rightarrow> (None, ''device still connecting'')
                     | kCsAuthorizing \<Rightarrow> (None, ''device still authorizing'')
                     | kCsUnauthorized \<Rightarrow> (None, unauthorized_error env)
                     | kCsOffline \<Rightarrow> (None, ''device offline'')
                     | _ \<Rightarrow> (Some t, err))))
         (\<lambda>(result, err). Inr (result, if result \<noteq> None then ''success'' else err, amb)))"

fun find_transport_loop :: "string \<Rightarrow> adb \<Rightarrow> nat list \<Rightarrow> nat option res" where
  "find_transport_loop serial g [] = Inr None"
| "find_transport_loop serial g (t # ts) =
     rbind (tport t g) (\<lambda>x.
       if c_str serial = c_str (at_serial x) then Inr (Some t) else find_transport_loop serial g ts)"

definition find_transport :: "string \<Rightarrow> adb \<Rightarrow> nat option res" where
  "find_transport serial g = find_transport_loop serial g (g_transport_list g)"

section \<open>Listing\<close>

definition sanitize :: "string \<Rightarrow> bool \<Rightarrow> string" where
  "sanitize str alphanumeric =
     (if alphanumeric then map (\<lambda>c. if \<not> isalnum c then CHR ''_'' else c) str
      else map (\<lambda>c. if c = CHR 0x0A then CHR ''_'' else c) str)"

definition append_transport_info :: "string \<Rightarrow> string \<Rightarrow> string \<Rightarrow> bool \<Rightarrow> string" where
  "append_transport_info result key value alphanumeric =
     (if value = [] then result else result @ '' '' @ key @ sanitize value alphanumeric)"

definition pad_right :: "nat \<Rightarrow> string \<Rightarrow> string" where
  "pad_right w s = s @ replicate (w - length s) (CHR '' '')"

definition append_transport :: "host_env \<Rightarrow> atransport \<Rightarrow> string \<Rightarrow> bool \<Rightarrow> string" where
  "append_transport env t result long_listing =
     (let serial = (if at_serial t = [] then ''(no serial number)'' else at_serial t)
      in (if \<not> long_listing then result @ serial @ [CHR 0x09] @ connection_state_name env (at_state t)
          else
            (let r1 = result @ pad_right 22 (c_str serial) @ '' '' @ c_str (connection_state_name env (at_state t));
                 r2 = append_transport_info r1 [] (at_devpath t) False;
                 r3 = append_transport_info r2 ''product:'' (at_product t) False;
                 r4 = append_transport_info r3 ''model:'' (at_model t) True;
                 r5 = append_transport_info r4 ''device:'' (at_device t) False
             in r5 @ '' transport_id:'' @ dec (uint (at_id t))))
         @ [CHR 0x0A])"

fun transport_type_rank :: "TransportType \<Rightarrow> nat" where
  "transport_type_rank kTransportUsb = 0"
| "transport_type_rank kTransportLocal = 1"
| "transport_type_rank kTransportAny = 2"
| "transport_type_rank kTransportHost = 3"

fun tports :: "nat list \<Rightarrow> adb \<Rightarrow> atransport list res" where
  "tports [] g = Inr []"
| "tports (t # ts) g = rbind (tport t g) (\<lambda>x. rbind (tports ts g) (\<lambda>xs. Inr (x # xs)))"

definition list_transports :: "host_env \<Rightarrow> bool \<Rightarrow> adb \<Rightarrow> string res" where
  "list_transports env long_listing g =
     rbind (tports (g_transport_list g) g) (\<lambda>xs.
       Inr (foldl (\<lambda>result t. append_transport env t result long_listing) []
              (sort_key (\<lambda>t. (transport_type_rank (at_type t), at_serial t)) xs)))"

section \<open>Packets on a connection\<close>

definition check_header :: "apacket \<Rightarrow> atransport \<Rightarrow> bool" where
  "check_header p t =
     (if magic (msg p) \<noteq> (command (msg p) XOR 0xffffffff) then False
      else if unat (data_length (msg p)) > at_max_payload t then False
      else True)"

text \<open>\<open>FdConnection\<close>: a packet is its header followed by its payload.\<close>

definition FdConnection_Read :: "int \<Rightarrow> os \<Rightarrow> (apacket option \<times> os) res" where
  "FdConnection_Read fd w =
     (case ReadFdExactly fd 24 w of
        (Inl _, w1) \<Rightarrow> Inr (None, w1)
      | (Inr hdr, w1) \<Rightarrow>
          (let m = amessage_of hdr; n = unat (data_length m)
           in if n > MAX_PAYLOAD then Inr (None, w1)
              else rbind (Block_resize n Block_new) (\<lambda>b.
                   case ReadFdExactly fd (blk_size b) w1 of
                     (Inl _, w2) \<Rightarrow> Inr (None, w2)
                   | (Inr bs, w2) \<Rightarrow>
                       rbind (Block_store 0 bs b) (\<lambda>b1. Inr (Some \<lparr>msg = m, payload = b1\<rparr>, w2)))))"

definition FdConnection_Write :: "int \<Rightarrow> apacket \<Rightarrow> os \<Rightarrow> (bool \<times> os) res" where
  "FdConnection_Write fd p w =
     (case WriteFdExactly fd (amessage_bytes (msg p)) w of
        (Inl _, w1) \<Rightarrow> Inr (False, w1)
      | (Inr _, w1) \<Rightarrow>
          if data_length (msg p) \<noteq> 0 then
            (if unat (data_length (msg p)) \<le> blk_size (payload p)
             then (case WriteFdExactly fd (take (unat (data_length (msg p))) (Block_bytes (payload p))) w1 of
                     (Inl _, w2) \<Rightarrow> Inr (False, w2)
                   | (Inr _, w2) \<Rightarrow> Inr (True, w2))
             else Inl OutOfBounds)
          else Inr (True, w1))"

text \<open>\<open>BlockingConnectionAdapter::Write\<close> through \<open>atransport::Write\<close>: the packet is queued.\<close>

definition atransport_Write :: "apacket \<Rightarrow> nat \<Rightarrow> adb \<Rightarrow> (bool \<times> adb) res" where
  "atransport_Write p t g =
     rbind (tport t g) (\<lambda>x.
     rbind (nonnull (at_connection x)) (\<lambda>c.
     rbind (tport_upd t (\<lambda>x. x\<lparr>at_connection := Some (c\<lparr>conn_queue := conn_queue c @ [p]\<rparr>)\<rparr>) g) (\<lambda>g1.
     Inr (True, g1))))"

text \<open>
  \<open>BlockingConnectionAdapter::Stop\<close> of the transport's connection: the underlying connection is
  closed, both threads end, and the error callback runs unless it has run before.
\<close>

definition FdConnection_Close :: "int \<Rightarrow> adb \<Rightarrow> adb" where
  "FdConnection_Close fd g = snd (os_do (\<lambda>w. ((), adb_close fd (adb_shutdown fd w))) g)"

definition EmulatorConnection_Close :: "int \<Rightarrow> int \<Rightarrow> adb \<Rightarrow> adb" where
  "EmulatorConnection_Close fd local_port g =
     FdConnection_Close fd (g\<lparr>g_local_transports := AList.delete local_port (g_local_transports g)\<rparr>)"

definition conn_close_underlying :: "conn_kind \<Rightarrow> adb \<Rightarrow> adb" where
  "conn_close_underlying k g =
     (case k of
        ConnFd fd \<Rightarrow> FdConnection_Close fd g
      | ConnEmulator fd local_port \<Rightarrow> EmulatorConnection_Close fd local_port g
      | ConnUsb _ \<Rightarrow> g)"

definition conn_report :: "nat \<Rightarrow> adb \<Rightarrow> adb res" where
  "conn_report t g =
     rbind (tport t g) (\<lambda>x.
     rbind (nonnull (at_connection x)) (\<lambda>c.
     if conn_error_flag c then Inr g
     else rbind (tport_upd t (\<lambda>x. x\<lparr>at_connection := Some (c\<lparr>conn_error_flag := True\<rparr>)\<rparr>) g)
            (ev_do (fdevent_run_on_main_thread (RunTerminated t)))))"

definition conn_Stop :: "nat \<Rightarrow> adb \<Rightarrow> adb res" where
  "conn_Stop t g =
     rbind (tport t g) (\<lambda>x.
     rbind (nonnull (at_connection x)) (\<lambda>c.
     if \<not> conn_started c then Inr g
     else if conn_stopped c then Inr g
     else rbind (tport_upd t (\<lambda>x. x\<lparr>at_connection :=
                   Some (c\<lparr>conn_stopped := True, conn_reader := False, conn_writer := False\<rparr>)\<rparr>) g) (\<lambda>g1.
          conn_report t (conn_close_underlying (conn_kind c) g1))))"

definition atransport_Kick :: "nat \<Rightarrow> adb \<Rightarrow> adb res" where
  "atransport_Kick t g =
     rbind (tport t g) (\<lambda>x.
     if at_kicked x then Inr g
     else rbind (tport_upd t (\<lambda>x. x\<lparr>at_kicked := True\<rparr>) g) (conn_Stop t))"

definition send_packet :: "apacket \<Rightarrow> nat \<Rightarrow> adb \<Rightarrow> adb res" where
  "send_packet p t g =
     (let p1 = p\<lparr>msg := (msg p)\<lparr>magic := command (msg p) XOR 0xffffffff\<rparr>\<rparr>
      in rbind (tport t g) (\<lambda>x.
         rbind (if at_protocol_version x \<ge> A_VERSION_SKIP_CHECKSUM then Inr 0
                else calculate_apacket_checksum p1) (\<lambda>check.
         rbind (atransport_Write (p1\<lparr>msg := (msg p1)\<lparr>data_check := check\<rparr>\<rparr>) t g) (\<lambda>(ok, g1).
         if ok then Inr g1 else atransport_Kick t g1))))"

definition kick_transport :: "nat \<Rightarrow> adb \<Rightarrow> adb res" where
  "kick_transport t g = (if t \<in> set (g_transport_list g) then atransport_Kick t g else Inr g)"

fun kick_each :: "(atransport \<Rightarrow> bool) \<Rightarrow> nat list \<Rightarrow> adb \<Rightarrow> adb res" where
  "kick_each P [] g = Inr g"
| "kick_each P (t # ts) g =
     rbind (tport t g) (\<lambda>x. rbind (if P x then atransport_Kick t g else Inr g) (kick_each P ts))"

definition kick_all_tcp_devices :: "adb \<Rightarrow> adb res" where
  "kick_all_tcp_devices g = kick_each (\<lambda>x. at_type x = kTransportLocal) (g_transport_list g) g"

definition close_usb_devices :: "(atransport \<Rightarrow> bool) \<Rightarrow> adb \<Rightarrow> adb res" where
  "close_usb_devices predicate g = kick_each predicate (g_transport_list g) g"

section \<open>The threads of a connection\<close>

text \<open>\<open>BlockingConnectionAdapter::Start\<close>.\<close>

definition conn_Start :: "nat \<Rightarrow> adb \<Rightarrow> adb res" where
  "conn_Start t g =
     rbind (tport t g) (\<lambda>x.
     rbind (nonnull (at_connection x)) (\<lambda>c.
     rbind (check_that (\<not> conn_started c) ''started multiple times'') (\<lambda>_.
     tport_upd t (\<lambda>x. x\<lparr>at_connection :=
       Some (c\<lparr>conn_started := True, conn_reader := True, conn_writer := True\<rparr>)\<rparr>) g)))"

text \<open>
  One turn of the read thread: a packet read from the underlying connection, or \<open>None\<close> for a failed
  read. The result of the read callback is not looked at.
\<close>

definition read_callback :: "apacket \<Rightarrow> nat \<Rightarrow> adb \<Rightarrow> (bool \<times> adb) res" where
  "read_callback p t g =
     rbind (tport t g) (\<lambda>x.
     if \<not> check_header p x then Inr (False, g)
     else rbind (ev_do (fdevent_run_on_main_thread (RunPacket p t)) g) (\<lambda>g1. Inr (True, g1)))"

definition read_thread_turn :: "apacket option \<Rightarrow> nat \<Rightarrow> adb \<Rightarrow> adb res" where
  "read_thread_turn r t g =
     rbind (tport t g) (\<lambda>x.
     rbind (nonnull (at_connection x)) (\<lambda>c.
     if \<not> conn_reader c then Inr g
     else case r of
            Some p \<Rightarrow> rbind (read_callback p t g) (\<lambda>(_, g1). Inr g1)
          | None \<Rightarrow> rbind (tport_upd t (\<lambda>x. x\<lparr>at_connection := Some (c\<lparr>conn_reader := False\<rparr>)\<rparr>) g)
                      (conn_report t)))"

text \<open>
  One turn of the write thread, with the success of the underlying write; it waits (does nothing)
  while its queue is empty.
\<close>

definition write_thread_turn :: "bool \<Rightarrow> nat \<Rightarrow> adb \<Rightarrow> (apacket option \<times> adb) res" where
  "write_thread_turn ok t g =
     rbind (tport t g) (\<lambda>x.
     rbind (nonnull (at_connection x)) (\<lambda>c.
     if \<not> conn_writer c then Inr (None, g)
     else if conn_stopped c then
       rbind (tport_upd t (\<lambda>x. x\<lparr>at_connection := Some (c\<lparr>conn_writer := False\<rparr>)\<rparr>) g)
         (\<lambda>g1. Inr (None, g1))
     else case conn_queue c of
            [] \<Rightarrow> Inr (None, g)
          | p # rest \<Rightarrow>
              if ok then
                rbind (tport_upd t (\<lambda>x. x\<lparr>at_connection := Some (c\<lparr>conn_queue := rest\<rparr>)\<rparr>) g)
                  (\<lambda>g1. Inr (Some p, g1))
              else
                rbind (tport_upd t (\<lambda>x. x\<lparr>at_connection :=
                         Some (c\<lparr>conn_queue := rest, conn_writer := False\<rparr>)\<rparr>) g) (\<lambda>g1.
                rbind (conn_report t g1) (\<lambda>g2. Inr (None, g2)))))"

section \<open>Registration and release\<close>

text \<open>
  The registration socket pair carries whole messages \<open>tmsg\<close> (a transport and an action) from any
  thread to the main thread.
\<close>

definition register_transport :: "nat \<Rightarrow> adb \<Rightarrow> adb" where
  "register_transport t g = g\<lparr>g_registration := g_registration g @ [(t, True)]\<rparr>"

definition remove_transport :: "nat \<Rightarrow> adb \<Rightarrow> adb" where
  "remove_transport t g = g\<lparr>g_registration := g_registration g @ [(t, False)]\<rparr>"

text \<open>
  \<open>ReconnectHandler::TrackTransport\<close>. The queue is an ordered set, by time and then by address.
\<close>

fun attempt_insert :: "ReconnectAttempt \<Rightarrow> ReconnectAttempt list \<Rightarrow> ReconnectAttempt list" where
  "attempt_insert x [] = [x]"
| "attempt_insert x (y # ys) =
     (let (t, a, _) = x; (u, b, _) = y
      in if t < u \<or> t = u \<and> a < b then x # y # ys
         else if t = u \<and> a = b then y # ys
         else y # attempt_insert x ys)"

definition kMaxAttempts :: nat where "kMaxAttempts = 6"
definition kDefaultTimeout :: int where "kDefaultTimeout = 10000"

definition TrackTransport :: "nat \<Rightarrow> adb \<Rightarrow> adb" where
  "TrackTransport t g =
     (if \<not> g_reconnect_running g then g
      else g\<lparr>g_reconnect_queue := attempt_insert (g_now g + 250, t, kMaxAttempts) (g_reconnect_queue g)\<rparr>)"

definition transport_unref :: "nat \<Rightarrow> adb \<Rightarrow> adb res" where
  "transport_unref t g =
     rbind (tport t g) (\<lambda>x.
     rbind (check_that (at_ref_count x > 0) ''CHECK_GT(t->ref_count, 0u)'') (\<lambda>_.
     rbind (tport_upd t (\<lambda>x. x\<lparr>at_ref_count := at_ref_count x - 1\<rparr>) g) (\<lambda>g1.
     if at_ref_count x - 1 = 0 then
       rbind (conn_Stop t g1) (\<lambda>g2.
       if at_type x = kTransportLocal \<and> \<not> at_kicked x
       then Inr (TrackTransport t g2)
       else Inr (remove_transport t g2))
     else Inr g1)))"


section \<open>Packets survive the connection\<close>

definition packet_ok :: "apacket \<Rightarrow> bool" where
  "packet_ok p \<longleftrightarrow> Block_inv (payload p) \<and> unat (data_length (msg p)) = blk_size (payload p)
                  \<and> blk_size (payload p) \<le> MAX_PAYLOAD"

definition packet_bytes :: "apacket \<Rightarrow> bytes" where
  "packet_bytes p = amessage_bytes (msg p) @ Block_bytes (payload p)"

lemma FdConnection_Write_ok:
  assumes "packet_ok p" "writable_script (os_writes w fd)"
  obtains w' where "FdConnection_Write fd p w = Inr (True, w')"
    "os_written w' = (os_written w)(fd := os_written w fd @ packet_bytes p)"
    "writable_script (os_writes w' fd)"
proof -
  obtain w1 where w1: "WriteFdExactly fd (amessage_bytes (msg p)) w = (Inr (), w1)"
    "os_written w1 = (os_written w)(fd := os_written w fd @ amessage_bytes (msg p))"
    "writable_script (os_writes w1 fd)"
    by (rule WriteFdExactly_ok [OF assms(2)])
  have len: "length (Block_bytes (payload p)) = unat (data_length (msg p))"
    using assms(1) by (simp add: packet_ok_def)
  show thesis
  proof (cases "data_length (msg p) = 0")
    case True
    then have "Block_bytes (payload p) = []" using len by simp
    then show thesis using w1 True by (intro that [of w1]) (simp_all add: FdConnection_Write_def packet_bytes_def)
  next
    case False
    obtain w2 where "WriteFdExactly fd (Block_bytes (payload p)) w1 = (Inr (), w2)"
      "os_written w2 = (os_written w1)(fd := os_written w1 fd @ Block_bytes (payload p))"
      "writable_script (os_writes w2 fd)"
      by (rule WriteFdExactly_ok [OF w1(3)])
    then show thesis
      using w1 False assms(1) len
      by (intro that [of w2]) (simp_all add: FdConnection_Write_def packet_bytes_def packet_ok_def)
  qed
qed

lemma FdConnection_Read_ok:
  assumes "packet_ok p" "incoming v fd = packet_bytes p @ rest"
  shows "\<exists>v'. FdConnection_Read fd v =
                Inr (Some \<lparr>msg = msg p, payload = Block_of (Block_bytes (payload p))\<rparr>, v')
              \<and> incoming v' fd = rest"
proof -
  let ?bs = "Block_bytes (payload p)"
  have len: "length ?bs = unat (data_length (msg p))" "unat (data_length (msg p)) \<le> MAX_PAYLOAD"
    using assms(1) by (simp_all add: packet_ok_def)
  obtain v1 where v1: "ReadFdExactly fd 24 v = (Inr (amessage_bytes (msg p)), v1)"
    "incoming v1 fd = ?bs @ rest"
    using ReadFdExactly_incoming [of 24 v fd] assms(2) by (auto simp: packet_bytes_def)
  obtain v2 where v2: "ReadFdExactly fd (length ?bs) v1 = (Inr ?bs, v2)" "incoming v2 fd = rest"
    using ReadFdExactly_incoming [of "length ?bs" v1 fd] v1(2) by auto
  have "FdConnection_Read fd v =
      rbind (Block_resize (length ?bs) Block_new) (\<lambda>b.
        case ReadFdExactly fd (blk_size b) v1 of
          (Inl _, w2) \<Rightarrow> Inr (None, w2)
        | (Inr bs, w2) \<Rightarrow> rbind (Block_store 0 bs b) (\<lambda>b1. Inr (Some \<lparr>msg = msg p, payload = b1\<rparr>, w2)))"
    using v1(1) len by (simp add: FdConnection_Read_def Let_def)
  also have "\<dots> = Inr (Some \<lparr>msg = msg p, payload = Block_of ?bs\<rparr>, v2)"
    using v2(1)
    by (cases "?bs = []")
      (simp_all add: Block_resize_def Block_allocate_def Block_store_def memcpy_at_def Block_of_def Block_new_def)
  finally show ?thesis using v2(2) by blast
qed

text \<open>
  Property C2. A well-formed packet written by \<open>FdConnection::Write\<close> is read back by
  \<open>FdConnection::Read\<close> with the same header and payload, whatever short writes, \<open>EAGAIN\<close> and short
  reads happen on the way, and the stream is left at the next packet.
\<close>

theorem FdConnection_roundtrip:
  assumes "packet_ok p" "writable_script (os_writes w fd)"
  shows "\<exists>w' m. FdConnection_Write fd p w = Inr (True, w') \<and> os_written w' fd = os_written w fd @ m
           \<and> (\<forall>v gd rest. incoming v gd = m @ rest \<longrightarrow>
                (\<exists>q v'. FdConnection_Read gd v = Inr (Some q, v') \<and> msg q = msg p
                    \<and> Block_bytes (payload q) = Block_bytes (payload p) \<and> packet_ok q
                    \<and> incoming v' gd = rest))"
proof -
  obtain w' where w': "FdConnection_Write fd p w = Inr (True, w')"
    "os_written w' = (os_written w)(fd := os_written w fd @ packet_bytes p)"
    using FdConnection_Write_ok [OF assms] by blast
  have "packet_ok \<lparr>msg = msg p, payload = Block_of (Block_bytes (payload p))\<rparr>"
    using assms(1) by (simp add: packet_ok_def)
  then have "\<exists>q v'. FdConnection_Read gd v = Inr (Some q, v') \<and> msg q = msg p
      \<and> Block_bytes (payload q) = Block_bytes (payload p) \<and> packet_ok q \<and> incoming v' gd = rest"
    if "incoming v gd = packet_bytes p @ rest" for v gd rest
    using FdConnection_Read_ok [OF assms(1) that] by fastforce
  then show ?thesis using w' by auto
qed

theorem FdConnection_roundtrip_witness:
  "\<exists>w' m. FdConnection_Write 4 (get_apacket\<lparr>msg := (msg get_apacket)\<lparr>command := A_WRTE, data_length := 2\<rparr>,
                                         payload := Block_of ''hi''\<rparr>)
            (os_init\<lparr>os_writes := (\<lambda>_. [WTake 3, WFail EAGAIN])\<rparr>) = Inr (True, w')
        \<and> os_written w' 4 = [] @ m
        \<and> (\<forall>v gd rest. incoming v gd = m @ rest \<longrightarrow>
             (\<exists>q v'. FdConnection_Read gd v = Inr (Some q, v') \<and> command (msg q) = A_WRTE
                 \<and> Block_bytes (payload q) = ''hi'' \<and> packet_ok q \<and> incoming v' gd = rest))"
  using FdConnection_roundtrip [of "get_apacket\<lparr>msg := (msg get_apacket)\<lparr>command := A_WRTE, data_length := 2\<rparr>,
      payload := Block_of ''hi''\<rparr>" "os_init\<lparr>os_writes := (\<lambda>_. [WTake 3, WFail EAGAIN])\<rparr>" 4]
  by (simp add: packet_ok_def MAX_PAYLOAD_def writable_script_def os_init_def) fastforce

section \<open>Feature sets\<close>

text \<open>
  Property C9. A feature set survives its transmission in the connection banner: for distinct,
  non-empty feature names without a comma, parsing the encoded set gives back the same features;
  and the features the server itself supports are such a set, with none of the characters that are
  special in the banner.
\<close>

theorem FeatureSet_roundtrip:
  assumes "distinct fs" "list_all (\<lambda>f. f \<noteq> [] \<and> CHR '','' \<notin> set f) fs"
  shows "StringToFeatureSet (FeatureSetToString fs) = Inr fs
     \<and> distinct supported_features
     \<and> list_all (\<lambda>f. f \<noteq> [] \<and> set f \<inter> {CHR '':'', CHR '';'', CHR ''='', CHR '',''} = {}) supported_features"
proof -
  have "StringToFeatureSet (FeatureSetToString fs) = Inr fs"
  proof (cases fs)
    case Nil
    then show ?thesis by (simp add: StringToFeatureSet_def FeatureSetToString_def Join_def)
  next
    case (Cons x xs)
    then have "FeatureSetToString fs \<noteq> []" using assms by (simp add: FeatureSetToString_def Join_def)
    moreover have "split_on (\<lambda>x. x = CHR '','') (Join fs '','') = fs"
      using Cons assms(2) by (intro split_on_Join) (auto simp: list_all_iff)
    ultimately show ?thesis
      using assms(1) by (simp add: StringToFeatureSet_def FeatureSetToString_def Split_char distinct_remdups_id)
  qed
  then show ?thesis
    by (simp add: supported_features_def kFeatureShell2_def kFeatureCmd_def kFeatureStat2_def)
qed

theorem FeatureSet_roundtrip_witness:
  "StringToFeatureSet (FeatureSetToString [''cmd'', ''shell_v2'']) = Inr [''cmd'', ''shell_v2'']"
  using FeatureSet_roundtrip [of "[''cmd'', ''shell_v2'']"] by simp

section \<open>The choice of a transport\<close>

text \<open>
  What a request without a transport id selects, read off the documentation of the function: the
  transports, other than inaccessible ones, that match the serial number, or that have the type.
\<close>

definition selects :: "TransportType \<Rightarrow> string option \<Rightarrow> atransport \<Rightarrow> bool res" where
  "selects ty serial x =
     (if at_state x = kCsNoPerm then Inr False
      else case serial of
        Some s \<Rightarrow> MatchesTarget x s
      | None \<Rightarrow> Inr (ty = kTransportAny \<or> ty = at_type x \<and> (ty = kTransportUsb \<or> ty = kTransportLocal)))"

definition ambiguity_error :: "TransportType \<Rightarrow> string option \<Rightarrow> string" where
  "ambiguity_error ty serial =
     (case serial of Some s \<Rightarrow> ''more than one device''
      | None \<Rightarrow> if ty = kTransportUsb then ''more than one device''
               else if ty = kTransportLocal then ''more than one emulator''
               else ''more than one device/emulator'')"

text \<open>A transport in a state the caller accepts.\<close>

definition acceptable :: "bool \<Rightarrow> atransport option \<Rightarrow> bool" where
  "acceptable any_state x \<longleftrightarrow>
     (case x of None \<Rightarrow> False
      | Some x \<Rightarrow> any_state
          \<or> at_state x \<notin> {kCsConnecting, kCsAuthorizing, kCsUnauthorized, kCsOffline})"

text \<open>The addresses in a list whose transports satisfy a test that always returns.\<close>

definition matching :: "(atransport \<Rightarrow> bool res) \<Rightarrow> adb \<Rightarrow> nat list \<Rightarrow> nat list" where
  "matching P g ts = filter (\<lambda>t. \<exists>x. g_transports g t = Some x \<and> P x = Inr True) ts"

definition tests_total :: "(atransport \<Rightarrow> bool res) \<Rightarrow> adb \<Rightarrow> nat list \<Rightarrow> bool" where
  "tests_total P g ts \<longleftrightarrow> list_all (\<lambda>t. \<exists>x b. g_transports g t = Some x \<and> P x = Inr b) ts"

lemma acquire_loop_step:
  assumes "g_transports g t = Some x" "selects ty serial x = Inr b"
  shows "\<exists>err'. acquire_loop env ty serial 0 g (t # ts) result err =
           (if b then (if result \<noteq> None then Inr (None, ambiguity_error ty serial, True)
                       else acquire_loop env ty serial 0 g ts (Some t) err)
            else acquire_loop env ty serial 0 g ts result err')"
proof (cases "at_state x = kCsNoPerm")
  case True
  then show ?thesis using assms by (auto simp: selects_def)
next
  case nperm: False
  show ?thesis
  proof (cases serial)
    case (Some s)
    then show ?thesis using nperm assms by (auto simp: selects_def ambiguity_error_def)
  next
    case None
    then show ?thesis using nperm assms
      by (cases ty; cases "at_type x") (auto simp: selects_def ambiguity_error_def)
  qed
qed

declare acquire_loop.simps(2) [simp del]

lemma acquire_loop_two:
  assumes "tests_total (selects ty serial) g ts" "matching (selects ty serial) g ts \<noteq> []"
  shows "acquire_loop env ty serial 0 g ts (Some r) err = Inr (None, ambiguity_error ty serial, True)"
  using assms
proof (induction ts arbitrary: err)
  case (Cons t ts)
  from Cons.prems(1) obtain x b where x: "g_transports g t = Some x" "selects ty serial x = Inr b"
    "tests_total (selects ty serial) g ts" by (auto simp: tests_total_def)
  obtain err' where "acquire_loop env ty serial 0 g (t # ts) (Some r) err =
      (if b then Inr (None, ambiguity_error ty serial, True)
       else acquire_loop env ty serial 0 g ts (Some r) err')"
    using acquire_loop_step [OF x(1,2), of env ts "Some r" err] by (cases b) auto
  moreover have "\<not> b \<Longrightarrow> matching (selects ty serial) g ts \<noteq> []"
    using Cons.prems(2) x by (auto simp: matching_def)
  ultimately show ?case using Cons.IH [OF x(3)] by auto
qed (simp add: matching_def)

lemma acquire_loop_none:
  assumes "tests_total (selects ty serial) g ts" "matching (selects ty serial) g ts = []"
  shows "\<exists>err'. acquire_loop env ty serial 0 g ts r err = Inr (r, err', False)"
  using assms
proof (induction ts arbitrary: err)
  case (Cons t ts)
  from Cons.prems(1) obtain x b where x: "g_transports g t = Some x" "selects ty serial x = Inr b"
    "tests_total (selects ty serial) g ts" by (auto simp: tests_total_def)
  then have "\<not> b" "matching (selects ty serial) g ts = []"
    using Cons.prems(2) by (auto simp: matching_def split: if_splits)
  then show ?case
    using acquire_loop_step [OF x(1,2), of env ts r err] Cons.IH [OF x(3)] by fastforce
qed simp

lemma acquire_loop_spec:
  assumes "tests_total (selects ty serial) g ts"
  shows "\<exists>err'. acquire_loop env ty serial 0 g ts None err =
           (case matching (selects ty serial) g ts of
              [] \<Rightarrow> Inr (None, err', False)
            | [t] \<Rightarrow> Inr (Some t, err', False)
            | _ \<Rightarrow> Inr (None, ambiguity_error ty serial, True))"
  using assms
proof (induction ts arbitrary: err)
  case (Cons t ts)
  from Cons.prems obtain x b where x: "g_transports g t = Some x" "selects ty serial x = Inr b"
    "tests_total (selects ty serial) g ts" by (auto simp: tests_total_def)
  show ?case
  proof (cases b)
    case False
    then have "matching (selects ty serial) g (t # ts) = matching (selects ty serial) g ts"
      using x by (simp add: matching_def)
    then show ?thesis
      using acquire_loop_step [OF x(1,2), of env ts None err] Cons.IH [OF x(3)] False by fastforce
  next
    case True
    then have m: "matching (selects ty serial) g (t # ts) = t # matching (selects ty serial) g ts"
      and l: "acquire_loop env ty serial 0 g (t # ts) None err = acquire_loop env ty serial 0 g ts (Some t) err"
      using x acquire_loop_step [OF x(1,2), of env ts None err] by (auto simp: matching_def)
    show ?thesis
      using acquire_loop_none [OF x(3), of env "Some t" err] acquire_loop_two [OF x(3), of env t err]
      unfolding m l by (cases "matching (selects ty serial) g ts") auto
  qed
qed (simp add: matching_def)



end
