(* ===== verification/Sockets.thy ===== *)
theory Sockets
  imports Transport
begin

text \<open>
  \<open>sockets.cpp\<close>: local sockets bound to a descriptor, remote sockets bound to a stream of a
  transport, the lists of live and closing sockets, and the data that flows between peers; and the
  device trackers of \<open>transport.cpp\<close>, which are sockets too. Calls through the slots of a socket
  are an argument of the functions that make them; the dispatchers at the end of the definitions tie
  the knot. Closing recurses through peers at most once, so a call depth of two is enough.
\<close>

section \<open>The lists of local sockets\<close>

fun find_local_loop :: "u32 \<Rightarrow> u32 \<Rightarrow> adb \<Rightarrow> nat list \<Rightarrow> nat option res" where
  "find_local_loop local_id peer_id g [] = Inr None"
| "find_local_loop local_id peer_id g (a # rest) =
     rbind (sock a g) (\<lambda>s.
       if as_id s \<noteq> local_id then find_local_loop local_id peer_id g rest
       else if peer_id = 0 then Inr (Some a)
       else case as_peer s of
              None \<Rightarrow> Inr None
            | Some b \<Rightarrow> rbind (sock b g) (\<lambda>p. Inr (if as_id p = peer_id then Some a else None)))"

definition find_local_socket :: "u32 \<Rightarrow> u32 \<Rightarrow> adb \<Rightarrow> nat option res" where
  "find_local_socket local_id peer_id g = find_local_loop local_id peer_id g (g_local_list g)"

definition install_local_socket :: "nat \<Rightarrow> adb \<Rightarrow> adb res" where
  "install_local_socket a g =
     rbind (sock_upd a (\<lambda>s. s\<lparr>as_id := g_next_id g\<rparr>) g) (\<lambda>g1.
     (let g2 = g1\<lparr>g_next_id := g_next_id g + 1\<rparr>
      in if g_next_id g2 = 0 then Inl (Abort ''local socket id overflow'')
         else Inr (g2\<lparr>g_local_list := g_local_list g2 @ [a]\<rparr>)))"

definition remove_socket :: "nat \<Rightarrow> adb \<Rightarrow> adb" where
  "remove_socket a g =
     g\<lparr>g_local_list := filter (\<lambda>x. x \<noteq> a) (g_local_list g),
       g_closing_list := filter (\<lambda>x. x \<noteq> a) (g_closing_list g)\<rparr>"

text \<open>The first socket of the list that is bound to the transport, itself or through its peer.\<close>

fun first_of_transport :: "nat \<Rightarrow> adb \<Rightarrow> nat list \<Rightarrow> nat option res" where
  "first_of_transport t g [] = Inr None"
| "first_of_transport t g (a # rest) =
     rbind (sock a g) (\<lambda>s.
     rbind (if as_transport s = Some t then Inr True
            else case as_peer s of
                   None \<Rightarrow> Inr False
                 | Some b \<Rightarrow> rbind (sock b g) (\<lambda>p. Inr (as_transport p = Some t))) (\<lambda>hit.
     if hit then Inr (Some a) else first_of_transport t g rest))"

text \<open>
  \<open>close_all_sockets\<close>, which starts over after every socket it closes; the first argument bounds
  the number of starts.
\<close>

fun close_all_loop :: "nat \<Rightarrow> (nat \<Rightarrow> adb \<Rightarrow> adb res) \<Rightarrow> nat \<Rightarrow> adb \<Rightarrow> adb res" where
  "close_all_loop 0 cls t g = Inl OutOfFuel"
| "close_all_loop (Suc n) cls t g =
     rbind (first_of_transport t g (g_local_list g)) (\<lambda>r.
       case r of None \<Rightarrow> Inr g
       | Some a \<Rightarrow> rbind (cls a g) (close_all_loop n cls t))"

definition close_all_sockets :: "(nat \<Rightarrow> adb \<Rightarrow> adb res) \<Rightarrow> nat \<Rightarrow> adb \<Rightarrow> adb res" where
  "close_all_sockets cls t g = close_all_loop (Suc (length (g_local_list g))) cls t g"

section \<open>Local sockets\<close>

datatype SocketFlushResult = Destroyed | TryAgain | Completed

definition sock_fde :: "nat \<Rightarrow> adb \<Rightarrow> nat res" where
  "sock_fde a g = rbind (sock a g) (\<lambda>s. nonnull (as_fde s))"

definition fde_add :: "nat \<Rightarrow> u16 \<Rightarrow> adb \<Rightarrow> adb res" where
  "fde_add a ev g = rbind (sock_fde a g) (\<lambda>i. ev_do (fdevent_add i ev) g)"

definition fde_del :: "nat \<Rightarrow> u16 \<Rightarrow> adb \<Rightarrow> adb res" where
  "fde_del a ev g = rbind (sock_fde a g) (\<lambda>i. ev_do (fdevent_del i ev) g)"

text \<open>
  Writing the queue to the descriptor: \<open>None\<close> when the caller is to go on, and the result when the
  function returns early.
\<close>

definition flush_queue :: "nat \<Rightarrow> adb \<Rightarrow> (SocketFlushResult option \<times> adb) res" where
  "flush_queue a g =
     rbind (sock a g) (\<lambda>s.
     if IOVector_empty (as_queue s) then Inr (None, g)
     else rbind (IOVector_iovecs (as_queue s)) (\<lambda>iov.
          (let (rc, g1) = os_do (adb_writev (as_fd s) iov) g
           in case rc of
                Inr n \<Rightarrow>
                  if n > 0 \<and> n = IOVector_size (as_queue s) then
                    rbind (sock_upd a (\<lambda>s. s\<lparr>as_queue := IOVector_clear (as_queue s)\<rparr>) g1) (\<lambda>g2.
                    Inr (None, g2))
                  else if n > 0 then
                    rbind (IOVector_take_front n (as_queue s)) (\<lambda>(_, q).
                    rbind (sock_upd a (\<lambda>s. s\<lparr>as_queue := q\<rparr>) g1) (\<lambda>g2.
                    rbind (fde_add a FDE_WRITE g2) (\<lambda>g3. Inr (Some TryAgain, g3))))
                  else
                    rbind (sock_upd a (\<lambda>s. s\<lparr>as_has_write_error := True\<rparr>) g1) (\<lambda>g2.
                    Inr (None, g2))
              | Inl e \<Rightarrow>
                  if e = EAGAIN then rbind (fde_add a FDE_WRITE g1) (\<lambda>g2. Inr (Some TryAgain, g2))
                  else
                    rbind (sock_upd a (\<lambda>s. s\<lparr>as_has_write_error := True\<rparr>) g1) (\<lambda>g2.
                    Inr (None, g2)))))"

definition local_socket_flush_incoming ::
  "(nat \<Rightarrow> adb \<Rightarrow> adb res) \<Rightarrow> nat \<Rightarrow> adb \<Rightarrow> (SocketFlushResult \<times> adb) res" where
  "local_socket_flush_incoming cls a g =
     rbind (flush_queue a g) (\<lambda>(early, g1).
     case early of
       Some r \<Rightarrow> Inr (r, g1)
     | None \<Rightarrow>
         rbind (sock a g1) (\<lambda>s.
         if as_closing s then rbind (cls a g1) (\<lambda>g2. Inr (Destroyed, g2))
         else rbind (fde_del a FDE_WRITE g1) (\<lambda>g2. Inr (Completed, g2))))"

definition asocket_get_max_payload :: "nat \<Rightarrow> adb \<Rightarrow> nat res" where
  "asocket_get_max_payload a g =
     rbind (sock a g) (\<lambda>s.
     rbind (case as_transport s of
              None \<Rightarrow> Inr MAX_PAYLOAD
            | Some t \<Rightarrow> rbind (tport t g) (\<lambda>x. Inr (min MAX_PAYLOAD (at_max_payload x)))) (\<lambda>m1.
     case as_peer s of
       None \<Rightarrow> Inr m1
     | Some b \<Rightarrow>
         rbind (sock b g) (\<lambda>p.
         case as_transport p of
           None \<Rightarrow> Inr m1
         | Some t \<Rightarrow> rbind (tport t g) (\<lambda>x. Inr (min m1 (at_max_payload x))))))"

text \<open>
  The read loop of \<open>local_socket_flush_outgoing\<close>: the bytes read and \<open>is_eof\<close>. It ends because every
  round but the last stores at least one byte.
\<close>

function read_available :: "int \<Rightarrow> nat \<Rightarrow> bytes \<Rightarrow> os \<Rightarrow> (bytes \<times> bool) \<times> os" where
  "read_available fd avail got w =
     (if avail = 0 then ((got, False), w)
      else case adb_read fd avail w of
             (Inl e, w1) \<Rightarrow> ((got, e \<noteq> EAGAIN), w1)
           | (Inr bs, w1) \<Rightarrow>
               if bs = [] then ((got, True), w1)
               else read_available fd (avail - length bs) (got @ bs) w1)"
  by pat_completeness auto
termination
  by (relation "measure (\<lambda>(fd, avail, got, w). avail)") auto

declare read_available.simps [simp del]

definition local_socket_flush_outgoing ::
  "(nat \<Rightarrow> adb \<Rightarrow> adb res) \<Rightarrow> (nat \<Rightarrow> Block \<Rightarrow> adb \<Rightarrow> (int \<times> adb) res) \<Rightarrow> nat \<Rightarrow> adb \<Rightarrow> (bool \<times> adb) res" where
  "local_socket_flush_outgoing cls enq a g =
     rbind (asocket_get_max_payload a g) (\<lambda>max_payload.
     rbind (Block_resize max_payload Block_new) (\<lambda>d0.
     rbind (sock a g) (\<lambda>s.
     (let ((got, is_eof), g1) = os_do (read_available (as_fd s) max_payload []) g
      in rbind (Block_store 0 got d0) (\<lambda>d1.
         rbind
           (if got \<noteq> [] then
              (case as_peer s of
                 None \<Rightarrow> Inr (True, g1)
               | Some b \<Rightarrow>
                   rbind (Block_resize (length got) d1) (\<lambda>d2.
                   rbind (enq b d2 g1) (\<lambda>(r, g2).
                   if r < 0 then Inr (False, g2)
                   else if r > 0 then rbind (fde_del a FDE_READ g2) (\<lambda>g3. Inr (True, g3))
                   else Inr (True, g2))))
            else Inr (True, g1)) (\<lambda>(alive, g2).
         if \<not> alive then Inr (False, g2)
         else if is_eof then rbind (cls a g2) (\<lambda>g3. Inr (False, g3))
         else Inr (True, g2)))))))"

definition local_socket_enqueue ::
  "(nat \<Rightarrow> adb \<Rightarrow> adb res) \<Rightarrow> nat \<Rightarrow> Block \<Rightarrow> adb \<Rightarrow> (int \<times> adb) res" where
  "local_socket_enqueue cls a data g =
     rbind (sock a g) (\<lambda>s.
     rbind (IOVector_append data (as_queue s)) (\<lambda>q.
     rbind (sock_upd a (\<lambda>s. s\<lparr>as_queue := q\<rparr>) g) (\<lambda>g1.
     rbind (local_socket_flush_incoming cls a g1) (\<lambda>(r, g2).
     Inr (case r of Destroyed \<Rightarrow> -1 | TryAgain \<Rightarrow> 1 | Completed \<Rightarrow> 0, g2)))))"

definition local_socket_ready :: "nat \<Rightarrow> adb \<Rightarrow> adb res" where
  "local_socket_ready a g = fde_add a FDE_READ g"

definition local_socket_destroy :: "nat \<Rightarrow> adb \<Rightarrow> adb res" where
  "local_socket_destroy a g =
     rbind (sock a g) (\<lambda>s.
     rbind (case as_fde s of None \<Rightarrow> Inr g | Some i \<Rightarrow> ev_do (fdevent_destroy i) g) (\<lambda>g1.
     (let g2 = sock_delete a (remove_socket a g1)
      in if as_exit_on_close s then Inl (Exit 1) else Inr g2)))"

text \<open>The calls a socket makes on its slot \<open>shutdown\<close>.\<close>

definition remote_socket_shutdown :: "nat \<Rightarrow> adb \<Rightarrow> adb res" where
  "remote_socket_shutdown a g =
     rbind (sock a g) (\<lambda>s.
     rbind (case as_peer s of None \<Rightarrow> Inr 0 | Some b \<Rightarrow> rbind (sock b g) (\<lambda>p. Inr (as_id p))) (\<lambda>i.
     rbind (nonnull (as_transport s)) (\<lambda>t.
     send_packet (get_apacket\<lparr>msg := (msg get_apacket)\<lparr>command := A_CLSE, arg0 := i, arg1 := as_id s\<rparr>\<rparr>) t g)))"

definition sock_shutdown :: "nat \<Rightarrow> adb \<Rightarrow> adb res" where
  "sock_shutdown a g =
     rbind (sock a g) (\<lambda>s.
     case as_shutdown s of None \<Rightarrow> Inr g | Some remote_socket_shutdown_f \<Rightarrow> remote_socket_shutdown a g)"

text \<open>
  \<open>local_socket_close\<close>: first the peer goes away, then the socket itself is destroyed, or put on the
  closing list if it still has data to write.
\<close>

definition local_socket_finish :: "nat \<Rightarrow> adb \<Rightarrow> adb res" where
  "local_socket_finish a g =
     rbind (sock a g) (\<lambda>s.
     if as_closing s \<or> as_has_write_error s \<or> IOVector_empty (as_queue s)
     then local_socket_destroy a g
     else
       rbind (sock_upd a (\<lambda>s. s\<lparr>as_closing := True\<rparr>) g) (\<lambda>g1.
       rbind (fde_del a FDE_READ g1) (\<lambda>g2.
       (let g3 = remove_socket a g2;
            g4 = g3\<lparr>g_closing_list := g_closing_list g3 @ [a]\<rparr>
        in rbind (sock_fde a g4) (\<lambda>i.
           rbind (fde_deref i (g_ev g4)) (\<lambda>f.
           rbind (check_that (FDE_WRITE = fde_state f AND FDE_WRITE)
                    ''CHECK_EQ(FDE_WRITE, s->fde->state & FDE_WRITE)'') (\<lambda>_. Inr g4)))))))"

definition local_socket_close :: "(nat \<Rightarrow> adb \<Rightarrow> adb res) \<Rightarrow> nat \<Rightarrow> adb \<Rightarrow> adb res" where
  "local_socket_close cls a g =
     rbind (sock a g) (\<lambda>s.
     rbind (case as_peer s of
              None \<Rightarrow> Inr g
            | Some b \<Rightarrow>
                rbind (sock_shutdown b g) (\<lambda>g1.
                rbind (sock_upd b (\<lambda>p. p\<lparr>as_peer := None\<rparr>) g1) (\<lambda>g2.
                rbind (cls b g2) (\<lambda>g3.
                sock_upd a (\<lambda>s. s\<lparr>as_peer := None\<rparr>) g3))))
       (local_socket_finish a))"

definition local_socket_event_func ::
  "(nat \<Rightarrow> adb \<Rightarrow> adb res) \<Rightarrow> (nat \<Rightarrow> Block \<Rightarrow> adb \<Rightarrow> (int \<times> adb) res) \<Rightarrow> (nat \<Rightarrow> adb \<Rightarrow> adb res) \<Rightarrow>
   u16 \<Rightarrow> nat \<Rightarrow> adb \<Rightarrow> adb res" where
  "local_socket_event_func cls enq rdy ev a g =
     rbind
       (if has ev FDE_WRITE then
          rbind (local_socket_flush_incoming cls a g) (\<lambda>(r, g1).
          case r of
            Destroyed \<Rightarrow> Inr (False, g1)
          | TryAgain \<Rightarrow> Inr (True, g1)
          | Completed \<Rightarrow>
              rbind (sock a g1) (\<lambda>s.
              rbind (nonnull (as_peer s)) (\<lambda>b.
              rbind (rdy b g1) (\<lambda>g2. Inr (True, g2)))))
        else Inr (True, g)) (\<lambda>(go_on, g1).
     if \<not> go_on then Inr g1
     else if has ev FDE_READ then
       rbind (local_socket_flush_outgoing cls enq a g1) (\<lambda>(_, g2). Inr g2)
     else Inr g1)"

definition create_local_socket :: "int \<Rightarrow> adb \<Rightarrow> (nat \<times> adb) res" where
  "create_local_socket fd g =
     (let (a, g1) = sock_new ((asocket_new local_socket_enqueue_f local_socket_ready_f None
                                 local_socket_close_f)\<lparr>as_fd := fd\<rparr>) g
      in rbind (install_local_socket a g1) (\<lambda>g2.
         rbind (fdevent_create fd (local_socket_event_f a) (g_ev g2)) (\<lambda>(i, e).
         rbind (sock_upd a (\<lambda>s. s\<lparr>as_fde := Some i\<rparr>) (g2\<lparr>g_ev := e\<rparr>)) (\<lambda>g3.
         Inr (a, g3)))))"

section \<open>Remote sockets\<close>

definition remote_socket_enqueue :: "nat \<Rightarrow> Block \<Rightarrow> adb \<Rightarrow> (int \<times> adb) res" where
  "remote_socket_enqueue a data g =
     rbind (sock a g) (\<lambda>s.
     rbind (nonnull (as_peer s)) (\<lambda>b.
     rbind (sock b g) (\<lambda>p.
     if blk_size data > MAX_PAYLOAD then Inr (-1, g)
     else
       rbind (nonnull (as_transport s)) (\<lambda>t.
       rbind (send_packet
                (get_apacket\<lparr>msg := (msg get_apacket)\<lparr>command := A_WRTE, arg0 := as_id p, arg1 := as_id s,
                               data_length := of_nat (blk_size data)\<rparr>,
                             payload := data\<rparr>) t g) (\<lambda>g1.
       Inr (1, g1))))))"

definition remote_socket_ready :: "nat \<Rightarrow> adb \<Rightarrow> adb res" where
  "remote_socket_ready a g =
     rbind (sock a g) (\<lambda>s.
     rbind (nonnull (as_peer s)) (\<lambda>b.
     rbind (sock b g) (\<lambda>p.
     rbind (nonnull (as_transport s)) (\<lambda>t.
     send_packet (get_apacket\<lparr>msg := (msg get_apacket)\<lparr>command := A_OKAY, arg0 := as_id p, arg1 := as_id s\<rparr>\<rparr>)
       t g))))"

definition remote_socket_close :: "(nat \<Rightarrow> adb \<Rightarrow> adb res) \<Rightarrow> nat \<Rightarrow> adb \<Rightarrow> adb res" where
  "remote_socket_close cls a g =
     rbind (sock a g) (\<lambda>s.
     rbind (case as_peer s of
              None \<Rightarrow> Inr g
            | Some b \<Rightarrow> rbind (sock_upd b (\<lambda>p. p\<lparr>as_peer := None\<rparr>) g) (cls b)) (\<lambda>g1.
     Inr (sock_delete a g1)))"

definition create_remote_socket :: "u32 \<Rightarrow> nat \<Rightarrow> adb \<Rightarrow> (nat \<times> adb) res" where
  "create_remote_socket i t g =
     rbind (check_that (i \<noteq> 0) ''invalid remote socket id (0)'') (\<lambda>_.
     Inr (sock_new ((asocket_new remote_socket_enqueue_f remote_socket_ready_f
                       (Some remote_socket_shutdown_f) remote_socket_close_f)
                      \<lparr>as_id := i, as_transport := Some t\<rparr>) g))"

definition connect_to_remote :: "nat \<Rightarrow> string \<Rightarrow> adb \<Rightarrow> adb res" where
  "connect_to_remote a destination g =
     rbind (sock a g) (\<lambda>s.
     rbind (Block_assign (c_str destination @ [NUL]) Block_new) (\<lambda>data.
     rbind (asocket_get_max_payload a g) (\<lambda>max_payload.
     if unat (of_nat (blk_size data) :: u32) > max_payload then Inl (Abort ''destination oversized'')
     else
       rbind (nonnull (as_transport s)) (\<lambda>t.
       send_packet
         (get_apacket\<lparr>msg := (msg get_apacket)\<lparr>command := A_OPEN, arg0 := as_id s,
                        data_length := of_nat (blk_size data)\<rparr>,
                      payload := data\<rparr>) t g))))"

section \<open>Sockets that report success or failure to their client\<close>

definition reset_slots :: "asocket \<Rightarrow> asocket" where
  "reset_slots s = s\<lparr>as_ready := local_socket_ready_f, as_shutdown := None, as_close := local_socket_close_f\<rparr>"

definition local_socket_ready_notify :: "nat \<Rightarrow> adb \<Rightarrow> adb res" where
  "local_socket_ready_notify a g =
     rbind (sock_upd a reset_slots g) (\<lambda>g1.
     rbind (sock a g1) (\<lambda>s.
     local_socket_ready a (snd (os_do (SendOkay (as_fd s)) g1))))"

definition local_socket_close_notify :: "(nat \<Rightarrow> adb \<Rightarrow> adb res) \<Rightarrow> nat \<Rightarrow> adb \<Rightarrow> adb res" where
  "local_socket_close_notify cls a g =
     rbind (sock_upd a reset_slots g) (\<lambda>g1.
     rbind (sock a g1) (\<lambda>s.
     local_socket_close cls a (snd (os_do (SendFail (as_fd s) ''closed'') g1))))"

section \<open>Smart sockets: creation and closing\<close>

definition smart_socket_close :: "(nat \<Rightarrow> adb \<Rightarrow> adb res) \<Rightarrow> nat \<Rightarrow> adb \<Rightarrow> adb res" where
  "smart_socket_close cls a g =
     rbind (sock a g) (\<lambda>s.
     rbind (case as_peer s of
              None \<Rightarrow> Inr g
            | Some b \<Rightarrow>
                rbind (sock_upd b (\<lambda>p. p\<lparr>as_peer := None\<rparr>) g) (\<lambda>g1.
                rbind (cls b g1) (\<lambda>g2.
                sock_upd a (\<lambda>s. s\<lparr>as_peer := None\<rparr>) g2))) (\<lambda>g3.
     Inr (sock_delete a g3)))"

definition create_smart_socket :: "adb \<Rightarrow> nat \<times> adb" where
  "create_smart_socket g =
     sock_new (asocket_new smart_socket_enqueue_f smart_socket_ready_f None smart_socket_close_f) g"

section \<open>Device trackers\<close>

definition device_tracker_close :: "(nat \<Rightarrow> adb \<Rightarrow> adb res) \<Rightarrow> nat \<Rightarrow> adb \<Rightarrow> adb res" where
  "device_tracker_close cls a g =
     rbind (sock a g) (\<lambda>s.
     rbind (case as_peer s of
              None \<Rightarrow> Inr g
            | Some b \<Rightarrow> rbind (sock_upd b (\<lambda>p. p\<lparr>as_peer := None\<rparr>) g) (cls b)) (\<lambda>g1.
     Inr (sock_delete a (g1\<lparr>g_trackers := remove1 a (g_trackers g1)\<rparr>))))"

definition device_tracker_enqueue ::
  "(nat \<Rightarrow> adb \<Rightarrow> adb res) \<Rightarrow> nat \<Rightarrow> Block \<Rightarrow> adb \<Rightarrow> (int \<times> adb) res" where
  "device_tracker_enqueue cls a data g =
     rbind (device_tracker_close cls a g) (\<lambda>g1. Inr (-1, g1))"

text \<open>
  \<open>device_tracker_send\<close>: the length is printed with \<open>snprintf\<close> into five bytes, so at most four
  digits of it are sent.
\<close>

definition device_tracker_send ::
  "(nat \<Rightarrow> Block \<Rightarrow> adb \<Rightarrow> (int \<times> adb) res) \<Rightarrow> nat \<Rightarrow> string \<Rightarrow> adb \<Rightarrow> (int \<times> adb) res" where
  "device_tracker_send enq a str g =
     rbind (sock a g) (\<lambda>s.
     rbind (Block_resize (4 + length str) Block_new) (\<lambda>d0.
     rbind (Block_store 0 (take 4 (hex04 (length str mod 2 ^ 32))) d0) (\<lambda>d1.
     rbind (Block_store 4 str d1) (\<lambda>d2.
     rbind (nonnull (as_peer s)) (\<lambda>b. enq b d2 g)))))"

definition device_tracker_ready ::
  "host_env \<Rightarrow> (nat \<Rightarrow> Block \<Rightarrow> adb \<Rightarrow> (int \<times> adb) res) \<Rightarrow> nat \<Rightarrow> adb \<Rightarrow> adb res" where
  "device_tracker_ready env enq a g =
     rbind (sock a g) (\<lambda>s.
     case as_tracker s of
       Some (True, long_output) \<Rightarrow>
         rbind (sock_upd a (\<lambda>s. s\<lparr>as_tracker := Some (False, long_output)\<rparr>) g) (\<lambda>g1.
         rbind (list_transports env long_output g1) (\<lambda>transports.
         rbind (device_tracker_send enq a transports g1) (\<lambda>(_, g2). Inr g2)))
     | _ \<Rightarrow> Inr g)"

definition create_device_tracker :: "bool \<Rightarrow> adb \<Rightarrow> nat \<times> adb" where
  "create_device_tracker long_output g =
     (let (a, g1) = sock_new ((asocket_new device_tracker_enqueue_f device_tracker_ready_f None
                                 device_tracker_close_f)\<lparr>as_tracker := Some (True, long_output)\<rparr>) g
      in (a, g1\<lparr>g_trackers := a # g_trackers g1\<rparr>))"

section \<open>Calls through the slots\<close>

fun sock_close :: "nat \<Rightarrow> nat \<Rightarrow> adb \<Rightarrow> adb res" where
  "sock_close 0 a g = Inl OutOfFuel"
| "sock_close (Suc n) a g =
     rbind (sock a g) (\<lambda>s.
     case as_close s of
       local_socket_close_f \<Rightarrow> local_socket_close (sock_close n) a g
     | local_socket_close_notify_f \<Rightarrow> local_socket_close_notify (sock_close n) a g
     | remote_socket_close_f \<Rightarrow> remote_socket_close (sock_close n) a g
     | smart_socket_close_f \<Rightarrow> smart_socket_close (sock_close n) a g
     | device_tracker_close_f \<Rightarrow> device_tracker_close (sock_close n) a g)"

definition close_socket :: "nat \<Rightarrow> adb \<Rightarrow> adb res" where
  "close_socket = sock_close 2"

definition sock_enqueue ::
  "(nat \<Rightarrow> Block \<Rightarrow> adb \<Rightarrow> (int \<times> adb) res) \<Rightarrow> nat \<Rightarrow> Block \<Rightarrow> adb \<Rightarrow> (int \<times> adb) res" where
  "sock_enqueue smart a data g =
     rbind (sock a g) (\<lambda>s.
     case as_enqueue s of
       local_socket_enqueue_f \<Rightarrow> local_socket_enqueue close_socket a data g
     | remote_socket_enqueue_f \<Rightarrow> remote_socket_enqueue a data g
     | smart_socket_enqueue_f \<Rightarrow> smart a data g
     | device_tracker_enqueue_f \<Rightarrow> device_tracker_enqueue close_socket a data g)"

definition sock_ready ::
  "host_env \<Rightarrow> (nat \<Rightarrow> Block \<Rightarrow> adb \<Rightarrow> (int \<times> adb) res) \<Rightarrow> nat \<Rightarrow> adb \<Rightarrow> adb res" where
  "sock_ready env smart a g =
     rbind (sock a g) (\<lambda>s.
     case as_ready s of
       local_socket_ready_f \<Rightarrow> local_socket_ready a g
     | local_socket_ready_notify_f \<Rightarrow> local_socket_ready_notify a g
     | remote_socket_ready_f \<Rightarrow> remote_socket_ready a g
     | smart_socket_ready_f \<Rightarrow> Inr g
     | device_tracker_ready_f \<Rightarrow> device_tracker_ready env (sock_enqueue smart) a g)"

definition connect_to_smartsocket ::
  "host_env \<Rightarrow> (nat \<Rightarrow> Block \<Rightarrow> adb \<Rightarrow> (int \<times> adb) res) \<Rightarrow> nat \<Rightarrow> adb \<Rightarrow> adb res" where
  "connect_to_smartsocket env smart a g =
     (let (b, g1) = create_smart_socket g
      in rbind (sock_upd a (\<lambda>s. s\<lparr>as_peer := Some b\<rparr>) g1) (\<lambda>g2.
         rbind (sock_upd b (\<lambda>s. s\<lparr>as_peer := Some a\<rparr>) g2) (\<lambda>g3.
         sock_ready env smart a g3)))"

end
