(* ===== verification/SocketInv.thy ===== *)
theory SocketInv
  imports Sockets
begin

text \<open>
  The invariant of the socket layer and the proof that closing keeps it. While a socket is being
  closed its peer is already unlinked; the invariant therefore carries a set of sockets in
  transition, which is empty whenever the main loop is in control.
\<close>

section \<open>The invariant\<close>

definition is_local :: "asocket \<Rightarrow> bool" where
  "is_local s \<longleftrightarrow>
     as_enqueue s = local_socket_enqueue_f \<and> as_shutdown s = None \<and> \<not> as_exit_on_close s
     \<and> (as_ready s = local_socket_ready_f \<and> as_close s = local_socket_close_f
        \<or> as_ready s = local_socket_ready_notify_f \<and> as_close s = local_socket_close_notify_f)"

definition is_remote :: "asocket \<Rightarrow> bool" where
  "is_remote s \<longleftrightarrow>
     as_enqueue s = remote_socket_enqueue_f \<and> as_ready s = remote_socket_ready_f
     \<and> as_shutdown s = Some remote_socket_shutdown_f \<and> as_close s = remote_socket_close_f
     \<and> as_transport s \<noteq> None \<and> as_id s \<noteq> 0"

definition is_smart :: "asocket \<Rightarrow> bool" where
  "is_smart s \<longleftrightarrow>
     as_enqueue s = smart_socket_enqueue_f \<and> as_ready s = smart_socket_ready_f
     \<and> as_shutdown s = None \<and> as_close s = smart_socket_close_f"

definition is_tracker :: "asocket \<Rightarrow> bool" where
  "is_tracker s \<longleftrightarrow>
     as_enqueue s = device_tracker_enqueue_f \<and> as_ready s = device_tracker_ready_f
     \<and> as_shutdown s = None \<and> as_close s = device_tracker_close_f \<and> as_tracker s \<noteq> None"

text \<open>A local socket: its place in the lists, its event, and that data to write is waited for.\<close>

definition local_core :: "adb \<Rightarrow> nat \<Rightarrow> asocket \<Rightarrow> bool" where
  "local_core g a s \<longleftrightarrow>
     is_local s \<and> as_id s \<noteq> 0 \<and> unat (as_id s) < unat (g_next_id g) \<and> IOVector_open (as_queue s)
     \<and> (a \<in> set (g_closing_list g) \<longleftrightarrow> as_closing s) \<and> (a \<in> set (g_local_list g) \<longleftrightarrow> \<not> as_closing s)
     \<and> (\<exists>i ev. as_fde s = Some i \<and> fde_view (g_ev g) i = Some (as_fd s, ev, local_socket_event_f a)
          \<and> (\<not> IOVector_empty (as_queue s) \<and> \<not> as_has_write_error s \<longrightarrow> has ev FDE_WRITE))"

text \<open>How its peer relates to that, when the socket is not in transition.\<close>

definition wants_write :: "adb \<Rightarrow> asocket \<Rightarrow> bool" where
  "wants_write g s \<longleftrightarrow>
     (\<exists>i fd ev f. as_fde s = Some i \<and> fde_view (g_ev g) i = Some (fd, ev, f) \<and> has ev FDE_WRITE)"

definition local_settled :: "adb \<Rightarrow> asocket \<Rightarrow> bool" where
  "local_settled g s \<longleftrightarrow>
     (wants_write g s \<and> \<not> as_closing s \<longrightarrow> as_peer s \<noteq> None)
     \<and> (as_closing s \<or> as_ready s = local_socket_ready_notify_f \<longrightarrow> as_peer s = None)"

definition other_core :: "adb \<Rightarrow> nat \<Rightarrow> asocket \<Rightarrow> bool" where
  "other_core g a s \<longleftrightarrow>
     a \<notin> set (g_local_list g) \<and> a \<notin> set (g_closing_list g) \<and> \<not> as_closing s \<and> as_fde s = None
     \<and> (is_remote s \<or> is_smart s \<or> is_tracker s \<and> a \<in> set (g_trackers g))"

definition sock_ok :: "nat set \<Rightarrow> adb \<Rightarrow> nat \<Rightarrow> asocket \<Rightarrow> bool" where
  "sock_ok X g a s \<longleftrightarrow>
     local_core g a s \<and> (a \<notin> X \<longrightarrow> local_settled g s)
     \<or> other_core g a s \<and> (a \<notin> X \<longrightarrow> as_peer s \<noteq> None)"

definition socks_ok :: "nat set \<Rightarrow> adb \<Rightarrow> bool" where
  "socks_ok X g \<longleftrightarrow>
     (\<forall>a s. g_sockets g a = Some s \<longrightarrow> a < g_next_socket g \<and> sock_ok X g a s)"

definition peers_ok :: "nat set \<Rightarrow> adb \<Rightarrow> bool" where
  "peers_ok X g \<longleftrightarrow>
     (\<forall>a s b. g_sockets g a = Some s \<longrightarrow> a \<notin> X \<longrightarrow> as_peer s = Some b \<longrightarrow>
        b \<noteq> a \<and> b \<notin> X
        \<and> (\<exists>p. g_sockets g b = Some p \<and> as_peer p = Some a \<and> (is_local s \<or> is_local p)))"

definition lists_ok :: "adb \<Rightarrow> bool" where
  "lists_ok g \<longleftrightarrow>
     distinct (g_local_list g) \<and> distinct (g_closing_list g)
     \<and> set (g_local_list g) \<union> set (g_closing_list g) \<subseteq> dom (g_sockets g)
     \<and> distinct (g_trackers g)
     \<and> (\<forall>a \<in> set (g_trackers g). \<exists>s. g_sockets g a = Some s \<and> is_tracker s)"

definition ids_ok :: "adb \<Rightarrow> bool" where
  "ids_ok g \<longleftrightarrow>
     g_next_id g \<noteq> 0
     \<and> (\<forall>a b s p. a \<in> set (g_local_list g) \<longrightarrow> b \<in> set (g_local_list g) \<longrightarrow>
          g_sockets g a = Some s \<longrightarrow> g_sockets g b = Some p \<longrightarrow> as_id s = as_id p \<longrightarrow> a = b)"

definition fdes_ok :: "adb \<Rightarrow> bool" where
  "fdes_ok g \<longleftrightarrow>
     (\<forall>i fd ev f. fde_view (g_ev g) i = Some (fd, ev, f) \<longrightarrow>
        fd \<in> set (os_open (fd_os (g_ev g)))
        \<and> (\<forall>a. f = local_socket_event_f a \<longrightarrow> (\<exists>s. g_sockets g a = Some s \<and> as_fde s = Some i)))"

definition tports_ok :: "adb \<Rightarrow> bool" where
  "tports_ok g \<longleftrightarrow>
     (\<forall>a s t. g_sockets g a = Some s \<longrightarrow> as_transport s = Some t \<longrightarrow> g_transports g t \<noteq> None)
     \<and> (\<forall>t x. g_transports g t = Some x \<longrightarrow> at_connection x \<noteq> None)"

definition inv_ex :: "nat set \<Rightarrow> adb \<Rightarrow> bool" where
  "inv_ex X g \<longleftrightarrow>
     fdevents_inv (g_ev g) \<and> socks_ok X g \<and> peers_ok X g \<and> lists_ok g \<and> ids_ok g \<and> fdes_ok g
     \<and> tports_ok g"

abbreviation adb_inv :: "adb \<Rightarrow> bool" where
  "adb_inv \<equiv> inv_ex {}"

lemmas inv_parts = socks_ok_def peers_ok_def lists_ok_def ids_ok_def fdes_ok_def tports_ok_def

section \<open>Packets sent\<close>

text \<open>The packet as it leaves \<open>send_packet\<close>.\<close>

definition stamp :: "atransport \<Rightarrow> apacket \<Rightarrow> apacket" where
  "stamp x p =
     p\<lparr>msg := (msg p)\<lparr>magic := command (msg p) XOR 0xffffffff,
        data_check := (if at_protocol_version x \<ge> A_VERSION_SKIP_CHECKSUM then 0
                       else of_nat (sum_list (map of_char (Block_bytes (payload p)))))\<rparr>\<rparr>"

definition push :: "apacket list \<Rightarrow> atransport \<Rightarrow> atransport" where
  "push ps x = x\<lparr>at_connection := map_option (\<lambda>c. c\<lparr>conn_queue := conn_queue c @ ps\<rparr>) (at_connection x)\<rparr>"

text \<open>\<open>sent g g' ps\<close>: from \<open>g\<close> to \<open>g'\<close> the packets \<open>ps t\<close> were queued on each transport \<open>t\<close>, and
  nothing else happened to the transports.\<close>

definition sent :: "adb \<Rightarrow> adb \<Rightarrow> (nat \<Rightarrow> apacket list) \<Rightarrow> bool" where
  "sent g g' ps \<longleftrightarrow> (\<forall>t. g_transports g' t = map_option (push (ps t)) (g_transports g t))"

definition one_packet :: "nat \<Rightarrow> apacket \<Rightarrow> nat \<Rightarrow> apacket list" where
  "one_packet t p = (\<lambda>u. if u = t then [p] else [])"

lemma push_Nil [simp]: "push [] x = x"
  by (cases "at_connection x") (simp_all add: push_def)

lemma map_push_Nil [simp]: "map_option (push []) z = z"
  by (cases z) simp_all

lemma push_push [simp]: "push qs (push ps x) = push (ps @ qs) x"
  by (cases "at_connection x") (simp_all add: push_def)

lemma push_simps [simp]:
  "at_state (push ps x) = at_state x" "at_online (push ps x) = at_online x"
  "at_max_payload (push ps x) = at_max_payload x" "at_type (push ps x) = at_type x"
  "at_serial (push ps x) = at_serial x" "at_disconnects (push ps x) = at_disconnects x"
  "at_protocol_version (push ps x) = at_protocol_version x"
  "(at_connection (push ps x) = None) = (at_connection x = None)"
  by (simp_all add: push_def)

lemma sent_refl [simp]: "g_transports g' = g_transports g \<Longrightarrow> sent g g' (\<lambda>_. [])"
  by (simp add: sent_def option.map_ident)

lemma sent_trans: "sent g g1 ps \<Longrightarrow> sent g1 g2 qs \<Longrightarrow> sent g g2 (\<lambda>t. ps t @ qs t)"
  by (simp add: sent_def option.map_comp comp_def)

lemma sent_same: "sent g g' ps \<Longrightarrow> g_transports h = g_transports g' \<Longrightarrow> sent g h ps"
  by (simp add: sent_def)

lemma sent_live: "sent g g' ps \<Longrightarrow> g_transports g' t = None \<longleftrightarrow> g_transports g t = None"
  by (simp add: sent_def)

text \<open>The payload agrees with the header.\<close>

definition sendable :: "apacket \<Rightarrow> bool" where
  "sendable p \<longleftrightarrow> Block_inv (payload p) \<and> unat (data_length (msg p)) = blk_size (payload p)"

lemma send_packet_spec:
  assumes "g_transports g t = Some x" "at_connection x \<noteq> None" "sendable p"
  obtains g' where "send_packet p t g = Inr g'"
    "g' = g\<lparr>g_transports := (g_transports g)(t \<mapsto> push [stamp x p] x)\<rparr>"
    "sent g g' (one_packet t (stamp x p))"
proof -
  obtain c where c: "at_connection x = Some c" using assms(2) by auto
  let ?p1 = "p\<lparr>msg := (msg p)\<lparr>magic := command (msg p) XOR 0xffffffff\<rparr>\<rparr>"
  have "calculate_apacket_checksum ?p1 = Inr (of_nat (sum_list (map of_char (Block_bytes (payload p)))))"
    using assms(3) calculate_apacket_checksum_sum [of ?p1] by (simp add: sendable_def)
  then have "send_packet p t g = Inr (g\<lparr>g_transports := (g_transports g)(t \<mapsto> push [stamp x p] x)\<rparr>)"
    using assms(1) c
    by (simp add: send_packet_def atransport_Write_def push_def stamp_def Let_def)
  moreover have "sent g (g\<lparr>g_transports := (g_transports g)(t \<mapsto> push [stamp x p] x)\<rparr>)
                   (one_packet t (stamp x p))"
    using assms(1) by (simp add: sent_def one_packet_def option.map_ident)
  ultimately show thesis using that by blast
qed

lemma sendable_control [simp]:
  "sendable (get_apacket\<lparr>msg := (msg get_apacket)\<lparr>command := c, arg0 := i, arg1 := j\<rparr>\<rparr>)"
  by (simp add: sendable_def get_apacket_def Block_new_def Block_inv_def)

section \<open>Changes that keep the invariant\<close>

text \<open>The invariant looks at these parts of the state only.\<close>

lemma inv_ex_cong:
  assumes "inv_ex X g" "g_sockets g' = g_sockets g" "g_next_socket g' = g_next_socket g"
    "g_local_list g' = g_local_list g" "g_closing_list g' = g_closing_list g"
    "g_next_id g' = g_next_id g" "g_trackers g' = g_trackers g" "fdevents_inv (g_ev g')"
    "fde_view (g_ev g') = fde_view (g_ev g)" "os_open (fd_os (g_ev g')) = os_open (fd_os (g_ev g))"
    "tports_ok g'"
  shows "inv_ex X g'"
proof -
  have "socks_ok X g' = socks_ok X g"
    unfolding socks_ok_def sock_ok_def local_core_def local_settled_def wants_write_def other_core_def
      assms(2-7,9,10) ..
  moreover have "peers_ok X g' = peers_ok X g" unfolding peers_ok_def assms(2-7,9,10) ..
  moreover have "lists_ok g' = lists_ok g" unfolding lists_ok_def assms(2-7,9,10) ..
  moreover have "ids_ok g' = ids_ok g" unfolding ids_ok_def assms(2-7,9,10) ..
  moreover have "fdes_ok g' = fdes_ok g" unfolding fdes_ok_def assms(2-7,9,10) ..
  ultimately show ?thesis using assms(1,8,11) unfolding inv_ex_def by simp
qed

lemma tports_ok_sent:
  assumes "tports_ok g" "sent g g' ps" "g_sockets g' = g_sockets g"
  shows "tports_ok g'"
  using assms unfolding tports_ok_def sent_def by (auto simp: push_def)

lemma inv_ex_sent:
  assumes "inv_ex X g" "sent g g' ps" "g' = g\<lparr>g_transports := T\<rparr>"
  shows "inv_ex X g'"
proof (rule inv_ex_cong [OF assms(1)])
  show "tports_ok g'" using assms tports_ok_sent [of g g'] by (simp add: inv_ex_def)
qed (use assms in \<open>simp_all add: inv_ex_def\<close>)

lemma inv_ex_mono:
  assumes inv: "inv_ex X g" and sub: "X \<subseteq> Y"
    and closed: "\<And>a s b. g_sockets g a = Some s \<Longrightarrow> a \<notin> Y \<Longrightarrow> as_peer s = Some b \<Longrightarrow> b \<notin> Y"
  shows "inv_ex Y g"
proof -
  have "sock_ok X g a s \<Longrightarrow> sock_ok Y g a s" for a s
    using sub by (auto simp: sock_ok_def)
  then have "socks_ok Y g" using inv by (auto simp: inv_ex_def socks_ok_def)
  moreover have "peers_ok Y g"
    unfolding peers_ok_def
  proof (intro allI impI)
    fix a s b assume h: "g_sockets g a = Some s" "a \<notin> Y" "as_peer s = Some b"
    then have "a \<notin> X" using sub by blast
    with inv h show "b \<noteq> a \<and> b \<notin> Y \<and> (\<exists>p. g_sockets g b = Some p \<and> as_peer p = Some a \<and> (is_local s \<or> is_local p))"
      using closed [OF h] by (simp add: inv_ex_def peers_ok_def)
  qed
  ultimately show ?thesis using inv by (simp add: inv_ex_def)
qed

text \<open>Sockets other than \<open>a\<close>, and their events, are not affected by a change to \<open>a\<close> and its event.\<close>

lemma local_coreD:
  assumes "local_core g a s"
  obtains i ev where "as_fde s = Some i" "fde_view (g_ev g) i = Some (as_fd s, ev, local_socket_event_f a)"
    "\<not> IOVector_empty (as_queue s) \<and> \<not> as_has_write_error s \<longrightarrow> has ev FDE_WRITE"
  using assms unfolding local_core_def by blast

lemma other_fde:
  assumes "local_core g a s" "as_fde s = Some i" "local_core g c u" "as_fde u = Some j" "c \<noteq> a"
  shows "j \<noteq> i"
  using assms by (elim local_coreD) auto

lemma sock_ok_transfer:
  assumes ok: "sock_ok X g c u" and ca: "c \<noteq> a"
    and core: "local_core g a s" "as_fde s = Some i"
    and same: "c \<in> set (g_local_list g') \<longleftrightarrow> c \<in> set (g_local_list g)"
      "c \<in> set (g_closing_list g') \<longleftrightarrow> c \<in> set (g_closing_list g)"
      "g_trackers g' = g_trackers g" "g_next_id g' = g_next_id g"
      "\<And>j. j \<noteq> i \<Longrightarrow> fde_view (g_ev g') j = fde_view (g_ev g) j"
    and Y: "c \<notin> Y \<Longrightarrow> c \<notin> X"
  shows "sock_ok Y g' c u"
proof (cases "local_core g c u")
  case True
  then obtain j ev where j: "as_fde u = Some j"
      "fde_view (g_ev g) j = Some (as_fd u, ev, local_socket_event_f c)"
    by (rule local_coreD)
  have "j \<noteq> i" by (rule other_fde [OF core True j(1) ca])
  then have v: "fde_view (g_ev g') j = fde_view (g_ev g) j" by (rule same(5))
  have "local_core g' c u" using True same(1-4) v j(1) by (simp add: local_core_def)
  moreover have "wants_write g' u = wants_write g u" using v j(1) by (simp add: wants_write_def)
  then have "local_settled g' u = local_settled g u" by (simp add: local_settled_def)
  moreover have "\<not> other_core g c u" using True by (auto simp: local_core_def other_core_def)
  ultimately show ?thesis using ok Y by (auto simp: sock_ok_def)
next
  case False
  then have "other_core g c u" "c \<notin> X \<longrightarrow> as_peer u \<noteq> None" using ok by (auto simp: sock_ok_def)
  then show ?thesis using same(1-3) Y by (auto simp: sock_ok_def other_core_def)
qed

lemma not_tracker: "is_local s \<Longrightarrow> \<not> is_tracker s"
  by (auto simp: is_local_def is_tracker_def)

lemma inv_exD:
  assumes "inv_ex X g"
  shows "fdevents_inv (g_ev g)" "socks_ok X g" "peers_ok X g" "lists_ok g" "ids_ok g" "fdes_ok g"
    "tports_ok g"
  using assms by (simp_all add: inv_ex_def)

lemma peers_okD:
  assumes "peers_ok X g" "g_sockets g a = Some s" "a \<notin> X" "as_peer s = Some b"
  obtains p where "b \<noteq> a" "b \<notin> X" "g_sockets g b = Some p" "as_peer p = Some a" "is_local s \<or> is_local p"
  using assms unfolding peers_ok_def by blast

text \<open>
  One local socket changes, together with its event: it is updated, or it disappears.
\<close>

lemma inv_ex_local_update:
  assumes inv: "inv_ex X g" and s: "g_sockets g a = Some s" and core: "local_core g a s"
    and fde: "as_fde s = Some i" and Y: "Y \<subseteq> X" "X \<subseteq> insert a Y"
    and sk: "g_sockets g' = (g_sockets g)(a := so)"
    and same: "g_next_socket g' = g_next_socket g" "g_trackers g' = g_trackers g"
      "g_next_id g' = g_next_id g"
    and lists: "\<And>c. c \<noteq> a \<Longrightarrow> c \<in> set (g_local_list g') \<longleftrightarrow> c \<in> set (g_local_list g)"
      "\<And>c. c \<noteq> a \<Longrightarrow> c \<in> set (g_closing_list g') \<longleftrightarrow> c \<in> set (g_closing_list g)"
      "distinct (g_local_list g')" "distinct (g_closing_list g')"
      "a \<in> set (g_local_list g') \<Longrightarrow> a \<in> set (g_local_list g)"
      "a \<in> set (g_local_list g') \<union> set (g_closing_list g') \<Longrightarrow> so \<noteq> None"
    and ev: "fdevents_inv (g_ev g')" "\<And>j. j \<noteq> i \<Longrightarrow> fde_view (g_ev g') j = fde_view (g_ev g) j"
      "so = None \<Longrightarrow> fde_view (g_ev g') i = None"
      "so \<noteq> None \<Longrightarrow> \<exists>e. fde_view (g_ev g') i = Some (as_fd s, e, local_socket_event_f a)"
    and os: "set (os_open (fd_os (g_ev g))) - {as_fd s} \<subseteq> set (os_open (fd_os (g_ev g')))"
      "so \<noteq> None \<Longrightarrow> set (os_open (fd_os (g_ev g'))) = set (os_open (fd_os (g_ev g)))"
    and tp: "tports_ok g'"
    and new: "\<And>s'. so = Some s' \<Longrightarrow> as_fde s' = Some i \<and> as_id s' = as_id s \<and> is_local s' \<and> sock_ok Y g' a s'"
    and peer: "a \<notin> X \<Longrightarrow> \<exists>s'. so = Some s' \<and> as_peer s' = as_peer s"
      "\<And>s'. a \<in> X \<Longrightarrow> a \<notin> Y \<Longrightarrow> so = Some s' \<Longrightarrow> as_peer s' = None"
  shows "inv_ex Y g'"
proof -
  note D = inv_exD [OF inv]
  have nX: "c \<noteq> a \<Longrightarrow> c \<notin> Y \<Longrightarrow> c \<notin> X" for c using Y by auto
  have "socks_ok Y g'"
    unfolding socks_ok_def
  proof (intro allI impI)
    fix c u assume u: "g_sockets g' c = Some u"
    show "c < g_next_socket g' \<and> sock_ok Y g' c u"
    proof (cases "c = a")
      case True
      then show ?thesis using u sk new same(1) D(2) s by (auto simp: socks_ok_def)
    next
      case False
      then have c: "g_sockets g c = Some u" using u sk by simp
      then have "c < g_next_socket g" "sock_ok X g c u" using D(2) by (auto simp: socks_ok_def)
      then show ?thesis
        using sock_ok_transfer [OF _ False core fde lists(1) [OF False] lists(2) [OF False] same(2,3) ev(2)]
          nX [OF False] same(1) by simp
    qed
  qed
  moreover have "peers_ok Y g'"
    unfolding peers_ok_def
  proof (intro allI impI)
    fix c u b assume u: "g_sockets g' c = Some u" "c \<notin> Y" "as_peer u = Some b"
    have cX: "c \<notin> X" using u peer(2) sk nX by (cases "c = a") auto
    obtain u0 where u0: "g_sockets g c = Some u0" "as_peer u0 = Some b" "is_local u0 \<longrightarrow> is_local u"
    proof (cases "c = a")
      case True
      then obtain s' where s': "so = Some s'" "as_peer s' = as_peer s" using peer(1) cX by blast
      then have "u = s'" using u(1) sk True by simp
      then show thesis using that [of s] s s' u(3) True new [OF s'(1)] by simp
    next
      case False
      then show thesis using that [of u] u sk by simp
    qed
    obtain p where p: "b \<noteq> c" "b \<notin> X" "g_sockets g b = Some p" "as_peer p = Some c" "is_local u0 \<or> is_local p"
      by (rule peers_okD [OF D(3) u0(1) cX u0(2)])
    have "\<exists>q. g_sockets g' b = Some q \<and> as_peer q = Some c \<and> (is_local p \<longrightarrow> is_local q)"
    proof (cases "b = a")
      case True
      then obtain s' where s': "so = Some s'" "as_peer s' = as_peer s" using peer(1) p(2) by blast
      then show ?thesis using True p(3,4) s sk new [OF s'(1)] by simp
    next
      case False
      then show ?thesis using p sk by simp
    qed
    then show "b \<noteq> c \<and> b \<notin> Y \<and> (\<exists>p. g_sockets g' b = Some p \<and> as_peer p = Some c \<and> (is_local u \<or> is_local p))"
      using p u0(3) Y(1) by blast
  qed
  moreover have "lists_ok g'"
  proof -
    have loc: "is_local s" using core by (simp add: local_core_def)
    have "a \<notin> set (g_trackers g)" using D(4) s not_tracker [OF loc] by (auto simp: lists_ok_def)
    then have t: "\<exists>u. g_sockets g' c = Some u \<and> is_tracker u" if "c \<in> set (g_trackers g)" for c
      using D(4) that sk by (auto simp: lists_ok_def)
    have "c \<in> dom (g_sockets g')" if "c \<in> set (g_local_list g') \<union> set (g_closing_list g')" for c
    proof (cases "c = a")
      case True
      then show ?thesis using lists(6) that sk by auto
    next
      case False
      then have "c \<in> dom (g_sockets g)" using lists(1,2) that D(4) by (auto simp: lists_ok_def)
      then show ?thesis using False sk by auto
    qed
    then show ?thesis using lists(3,4) D(4) same(2) t by (auto simp: lists_ok_def)
  qed
  moreover have "ids_ok g'"
    unfolding ids_ok_def
  proof (intro conjI allI impI)
    show "g_next_id g' \<noteq> 0" using D(5) same(3) by (simp add: ids_ok_def)
  next
    fix c d u v
    assume h: "c \<in> set (g_local_list g')" "d \<in> set (g_local_list g')" "g_sockets g' c = Some u"
      "g_sockets g' d = Some v" "as_id u = as_id v"
    have old: "\<exists>w. e \<in> set (g_local_list g) \<and> g_sockets g e = Some w \<and> as_id w = as_id z"
      if "e \<in> set (g_local_list g')" "g_sockets g' e = Some z" for e z
      using that sk lists(1,5) new s by (cases "e = a") auto
    show "c = d" using old [OF h(1,3)] old [OF h(2,4)] h(5) D(5) by (auto simp: ids_ok_def)
  qed
  moreover have "fdes_ok g'"
    unfolding fdes_ok_def
  proof (intro allI impI)
    fix j fd e f assume v: "fde_view (g_ev g') j = Some (fd, e, f)"
    have vi: "\<exists>e0. fde_view (g_ev g) i = Some (as_fd s, e0, local_socket_event_f a)"
      using core fde by (auto simp: local_core_def)
    show "fd \<in> set (os_open (fd_os (g_ev g')))
        \<and> (\<forall>c. f = local_socket_event_f c \<longrightarrow> (\<exists>u. g_sockets g' c = Some u \<and> as_fde u = Some j))"
    proof (cases "j = i")
      case True
      then have "so \<noteq> None" using v ev(3) by auto
      then obtain s' where s': "so = Some s'" "as_fde s' = Some i" using new by auto
      then have "fd = as_fd s" "f = local_socket_event_f a" using v ev(4) True by auto
      moreover have "as_fd s \<in> set (os_open (fd_os (g_ev g)))" using vi D(6) by (auto simp: fdes_ok_def)
      ultimately show ?thesis using s' sk os(2) True by simp
    next
      case False
      then have vj: "fde_view (g_ev g) j = Some (fd, e, f)" using v ev(2) by simp
      then have o: "fd \<in> set (os_open (fd_os (g_ev g)))" using D(6) by (auto simp: fdes_ok_def)
      have "fd \<noteq> as_fd s" using fdt.view_inj [OF D(1)] vi vj False by (auto simp: table_inj_def)
      moreover have "\<exists>u. g_sockets g' c = Some u \<and> as_fde u = Some j" if fc: "f = local_socket_event_f c" for c
      proof -
        obtain u where u: "g_sockets g c = Some u" "as_fde u = Some j"
          using vj fc D(6) unfolding fdes_ok_def by blast
        then have "c \<noteq> a" using s fde False by auto
        then show ?thesis using u sk by simp
      qed
      ultimately show ?thesis using o os(1) by auto
    qed
  qed
  ultimately show ?thesis using ev(1) tp by (simp add: inv_ex_def)
qed

section \<open>What an operation on sockets leaves alone\<close>

definition adb_rest where
  "adb_rest g =
     (g_next_transport g, g_transport_list g, g_pending_list g, g_next_transport_id g,
      g_registration g, (g_reconnect_queue g, g_reconnect_running g, g_now g, g_local_transports g,
      g_retry_ports g, g_keys g, g_services g), g_listeners g, g_next_listener g, g_listener_list g,
      g_transports_ready g, g_device_scan_complete g, fde_rest (g_ev g))"

text \<open>The events that belong to no socket.\<close>

definition foreign_fdes :: "adb \<Rightarrow> (nat \<times> int \<times> u16 \<times> fd_func) set" where
  "foreign_fdes g =
     {(i, fd, ev, f). fde_view (g_ev g) i = Some (fd, ev, f) \<and> (\<forall>a. f \<noteq> local_socket_event_f a)}"

text \<open>The open descriptors that are not registered with the event loop.\<close>

definition free_fds :: "(fd_func, runnable) fdevents \<Rightarrow> int set" where
  "free_fds e = set (os_open (fd_os e)) - table_fds (fde_view e)"

lemma free_fds_same:
  "fde_view e' = fde_view e \<Longrightarrow> os_open (fd_os e') = os_open (fd_os e) \<Longrightarrow> free_fds e' = free_fds e"
  by (simp add: free_fds_def)

lemma free_fds_destroy:
  assumes "fde_view e i = Some (fd, ev, f)" "fde_view e' = (fde_view e)(i := None)"
    "fd_os e' = adb_close fd (fd_os e)"
  shows "free_fds e \<subseteq> free_fds e'"
  using assms by (auto simp: free_fds_def table_fds_def adb_close_def split: if_splits)

lemma free_fds_update:
  assumes "fde_view e i = Some (fd, ev, f)" "fde_view e' = (fde_view e)(i \<mapsto> (fd, ev', f))"
    "os_open (fd_os e') = os_open (fd_os e)"
  shows "free_fds e' = free_fds e"
proof -
  have "table_fds (fde_view e') = table_fds (fde_view e)"
    using assms(1,2) by (auto simp: table_fds_def split: if_splits) (metis prod.inject option.inject)+
  then show ?thesis using assms(3) by (simp add: free_fds_def)
qed

definition frame :: "nat set \<Rightarrow> adb \<Rightarrow> adb \<Rightarrow> bool" where
  "frame A g g' \<longleftrightarrow>
     (\<forall>c. c \<notin> A \<longrightarrow> g_sockets g' c = g_sockets g c) \<and> adb_rest g' = adb_rest g
     \<and> foreign_fdes g' = foreign_fdes g \<and> free_fds (g_ev g) \<subseteq> free_fds (g_ev g')"

lemma frame_refl [simp]: "frame A g g"
  by (simp add: frame_def)

lemma frame_trans: "frame A g g1 \<Longrightarrow> frame B g1 g2 \<Longrightarrow> frame (A \<union> B) g g2"
  by (auto simp: frame_def)

lemma frame_mono: "frame A g g' \<Longrightarrow> A \<subseteq> B \<Longrightarrow> frame B g g'"
  by (auto simp: frame_def)

lemma foreign_fdes_update:
  assumes "fde_view (g_ev g) i = Some (fd, ev, local_socket_event_f a)"
    "\<And>j. j \<noteq> i \<Longrightarrow> fde_view (g_ev g') j = fde_view (g_ev g) j"
    "fde_view (g_ev g') i = None \<or> (\<exists>fd e c. fde_view (g_ev g') i = Some (fd, e, local_socket_event_f c))"
  shows "foreign_fdes g' = foreign_fdes g"
  unfolding foreign_fdes_def
proof (rule Collect_cong)
  fix x :: "nat \<times> int \<times> u16 \<times> fd_func"
  obtain j fd' e f where x: "x = (j, fd', e, f)" by (metis surj_pair)
  show "(case x of (i, fd, ev, f) \<Rightarrow> fde_view (g_ev g') i = Some (fd, ev, f) \<and> (\<forall>a. f \<noteq> local_socket_event_f a))
      = (case x of (i, fd, ev, f) \<Rightarrow> fde_view (g_ev g) i = Some (fd, ev, f) \<and> (\<forall>a. f \<noteq> local_socket_event_f a))"
    using assms x by (cases "j = i") auto
qed

section \<open>Event bits\<close>

lemma event_bits:
  "has ((ev AND NOT FDE_READ) AND FDE_EVENTMASK) FDE_WRITE = has ev FDE_WRITE"
  "has ((ev OR FDE_READ) AND FDE_EVENTMASK) FDE_WRITE = has ev FDE_WRITE"
  "has ((ev OR FDE_WRITE) AND FDE_EVENTMASK) FDE_WRITE"
  "\<not> has ((ev AND NOT FDE_WRITE) AND FDE_EVENTMASK) FDE_WRITE"
  by (simp_all add: fde_bits)

lemma FDE_WRITE_check: "FDE_WRITE = st AND FDE_WRITE \<longleftrightarrow> has st FDE_WRITE"
proof
  assume "FDE_WRITE = st AND FDE_WRITE"
  then have "st AND FDE_WRITE = FDE_WRITE" by (rule sym)
  then show "has st FDE_WRITE" by (simp add: has_def FDE_WRITE_def)
next
  assume "has st FDE_WRITE"
  then show "FDE_WRITE = st AND FDE_WRITE" by (intro bit_word_eqI) (auto simp: fde_bits)
qed

section \<open>Destroying a socket, or keeping it until its data is written\<close>

lemma distinct_filter_snoc: "distinct xs \<Longrightarrow> distinct (filter (\<lambda>x. x \<noteq> a) xs @ [a])"
  by simp

lemma local_socket_finish_spec:
  assumes inv: "inv_ex X g" and aX: "a \<in> X" and s: "g_sockets g a = Some s"
    and core: "local_core g a s" and peer: "as_peer s = None"
  obtains g' where "local_socket_finish a g = Inr g'" "inv_ex (X - {a}) g'" "frame {a} g g'"
    "g_transports g' = g_transports g" "g_local_list g' = filter (\<lambda>x. x \<noteq> a) (g_local_list g)"
    "g_trackers g' = g_trackers g" "g_next_socket g' = g_next_socket g" "g_next_id g' = g_next_id g"
proof -
  note D = inv_exD [OF inv]
  obtain i ev where i: "as_fde s = Some i" "fde_view (g_ev g) i = Some (as_fd s, ev, local_socket_event_f a)"
    "\<not> IOVector_empty (as_queue s) \<and> \<not> as_has_write_error s \<longrightarrow> has ev FDE_WRITE"
    by (rule local_coreD [OF core])
  have dl: "distinct (g_local_list g)" "distinct (g_closing_list g)" using D(4) by (simp_all add: lists_ok_def)
  have exit: "\<not> as_exit_on_close s" and loc: "is_local s" using core by (simp_all add: local_core_def is_local_def)
  show thesis
  proof (cases "as_closing s \<or> as_has_write_error s \<or> IOVector_empty (as_queue s)")
    case True
    obtain e where e: "fdevent_destroy i (g_ev g) = Inr e" "fdevents_inv e"
      "fde_view e = (fde_view (g_ev g))(i := None)" "fde_rest e = fde_rest (g_ev g)"
      "fd_os e = adb_close (as_fd s) (fd_os (g_ev g))"
      by (rule fdevent_destroy_spec [OF D(1) i(2)])
    let ?g = "sock_delete a (remove_socket a (g\<lparr>g_ev := e\<rparr>))"
    have r: "local_socket_finish a g = Inr ?g"
      using True s i(1) e(1) exit by (simp add: local_socket_finish_def local_socket_destroy_def ev_do_def)
    have "inv_ex (X - {a}) ?g"
    proof (rule inv_ex_local_update [OF inv s core i(1)])
      show "tports_ok ?g" using D(7) by (auto simp: tports_ok_def sock_delete_def remove_socket_def)
    qed (use aX dl e in \<open>auto simp: sock_delete_def remove_socket_def adb_close_def\<close>)
    moreover have "frame {a} g ?g"
      using e(4) foreign_fdes_update [OF i(2), of ?g] e(3) free_fds_destroy [OF i(2) e(3,5)]
      by (simp add: frame_def adb_rest_def sock_delete_def remove_socket_def)
    ultimately show thesis using that [OF r] by (simp add: sock_delete_def remove_socket_def)
  next
    case False
    obtain e where e: "fdevent_del i FDE_READ (g_ev g) = Inr e" "fdevents_inv e"
      "fde_view e = (fde_view (g_ev g))(i \<mapsto> (as_fd s, (ev AND NOT FDE_READ) AND FDE_EVENTMASK, local_socket_event_f a))"
      "fde_rest e = fde_rest (g_ev g)" "fd_os e = fd_os (g_ev g)"
      by (rule fdevent_del_spec [OF D(1) i(2)])
    have w: "has ev FDE_WRITE" using False i(3) by blast
    obtain f where f: "fde_heap e i = Some f"
      "(ev AND NOT FDE_READ) AND FDE_EVENTMASK = fde_state f AND FDE_EVENTMASK"
      using e(3) fde_view_Some [of e i] by (metis fun_upd_same)
    have fw: "has (fde_state f) FDE_WRITE" using w event_bits(1) [of ev] f(2) by simp
    let ?s = "s\<lparr>as_closing := True\<rparr>"
    let ?g1 = "g\<lparr>g_sockets := (g_sockets g)(a \<mapsto> ?s), g_ev := e\<rparr>"
    let ?g = "(remove_socket a ?g1)\<lparr>g_closing_list := filter (\<lambda>x. x \<noteq> a) (g_closing_list g) @ [a]\<rparr>"
    have r: "local_socket_finish a g = Inr ?g"
      using False s i(1) e(1) f(1) fw
      by (simp add: local_socket_finish_def fde_del_def sock_fde_def ev_do_def remove_socket_def
          fde_deref_def FDE_WRITE_check)
    have v: "fde_view (g_ev ?g) i =
        Some (as_fd s, (ev AND NOT FDE_READ) AND FDE_EVENTMASK, local_socket_event_f a)"
      using e(3) by (simp add: remove_socket_def)
    have ok: "sock_ok (X - {a}) ?g a ?s"
      using core peer i(1) v event_bits(1) [of ev] w
      by (auto simp: sock_ok_def local_core_def local_settled_def is_local_def remove_socket_def)
    have "inv_ex (X - {a}) ?g"
    proof (rule inv_ex_local_update [OF inv s core i(1), of _ _ "Some ?s"])
      show "tports_ok ?g" using D(7) s by (auto simp: tports_ok_def remove_socket_def)
      show "\<exists>e. fde_view (g_ev ?g) i = Some (as_fd s, e, local_socket_event_f a)" using v by blast
      show "as_fde s' = Some i \<and> as_id s' = as_id s \<and> is_local s' \<and> sock_ok (X - {a}) ?g a s'"
        if "Some ?s = Some s'" for s' using that ok i(1) loc by (auto simp: is_local_def)
    qed (use aX dl e peer in \<open>auto simp: remove_socket_def\<close>)
    moreover have "frame {a} g ?g"
      using e(4) foreign_fdes_update [OF i(2), of ?g] e(3) v free_fds_update [OF i(2) e(3)] e(5)
      by (simp add: frame_def adb_rest_def remove_socket_def)
    ultimately show thesis using that [OF r] by (simp add: remove_socket_def)
  qed
qed

section \<open>Deleting the other kinds of sockets\<close>

lemma sock_ok_deleted:
  assumes ok: "sock_ok X g c u" and cb: "c \<noteq> b"
    and same: "g_local_list g' = g_local_list g" "g_closing_list g' = g_closing_list g"
      "set (g_trackers g') = set (g_trackers g) - {b}" "g_next_id g' = g_next_id g" "g_ev g' = g_ev g"
  shows "sock_ok (X - {b}) g' c u"
  using ok cb unfolding sock_ok_def local_core_def local_settled_def wants_write_def other_core_def same
  by auto

lemma inv_ex_delete_other:
  assumes inv: "inv_ex X g" and bX: "b \<in> X" and p: "g_sockets g b = Some p" and core: "other_core g b p"
  shows "inv_ex (X - {b}) (g\<lparr>g_sockets := (g_sockets g)(b := None), g_trackers := remove1 b (g_trackers g)\<rparr>)"
    (is "inv_ex _ ?g")
proof -
  note D = inv_exD [OF inv]
  have dt: "distinct (g_trackers g)" using D(4) by (simp add: lists_ok_def)
  have ok: "sock_ok (X - {b}) ?g c u" if "g_sockets g c = Some u" "c \<noteq> b" for c u
    by (rule sock_ok_deleted [of X g]) (use D(2) that dt in \<open>auto simp: socks_ok_def\<close>)
  have "socks_ok (X - {b}) ?g"
    unfolding socks_ok_def
  proof (intro allI impI)
    fix c u assume "g_sockets ?g c = Some u"
    then have "c \<noteq> b" "g_sockets g c = Some u" by (auto split: if_splits)
    then show "c < g_next_socket ?g \<and> sock_ok (X - {b}) ?g c u"
      using ok D(2) by (simp add: socks_ok_def)
  qed
  moreover have "peers_ok (X - {b}) ?g"
    unfolding peers_ok_def
  proof (intro allI impI)
    fix c u d assume h: "g_sockets ?g c = Some u" "c \<notin> X - {b}" "as_peer u = Some d"
    then have c: "c \<noteq> b" "g_sockets g c = Some u" "c \<notin> X" by (auto split: if_splits)
    obtain q where "d \<noteq> c" "d \<notin> X" "g_sockets g d = Some q" "as_peer q = Some c" "is_local u \<or> is_local q"
      by (rule peers_okD [OF D(3) c(2,3) h(3)])
    moreover from this have "d \<noteq> b" using bX by auto
    ultimately show "d \<noteq> c \<and> d \<notin> X - {b} \<and> (\<exists>p. g_sockets ?g d = Some p \<and> as_peer p = Some c \<and> (is_local u \<or> is_local p))"
      by simp
  qed
  moreover have "lists_ok ?g"
    using D(4) core dt by (auto simp: lists_ok_def other_core_def)
  moreover have "ids_ok ?g"
    using D(5) by (auto simp: ids_ok_def)
  moreover have "fdes_ok ?g"
    unfolding fdes_ok_def
  proof (intro allI impI)
    fix i fd ev f assume "fde_view (g_ev ?g) i = Some (fd, ev, f)"
    then have v: "fde_view (g_ev g) i = Some (fd, ev, f)" by simp
    have "c \<noteq> b" if "f = local_socket_event_f c" for c
    proof
      assume "c = b"
      then have "as_fde p = Some i" using D(6) v that p unfolding fdes_ok_def by fastforce
      then show False using core by (simp add: other_core_def)
    qed
    then show "fd \<in> set (os_open (fd_os (g_ev ?g)))
        \<and> (\<forall>c. f = local_socket_event_f c \<longrightarrow> (\<exists>s. g_sockets ?g c = Some s \<and> as_fde s = Some i))"
      using D(6) v unfolding fdes_ok_def by simp
  qed
  moreover have "tports_ok ?g"
    using D(7) by (auto simp: tports_ok_def)
  ultimately show ?thesis using D(1) by (simp add: inv_ex_def)
qed

section \<open>The peer of a socket in transition\<close>

lemma inv_ex_set_peer:
  assumes inv: "inv_ex X g" and bX: "b \<in> X" and p: "g_sockets g b = Some p"
  shows "inv_ex X (g\<lparr>g_sockets := (g_sockets g)(b \<mapsto> p\<lparr>as_peer := z\<rparr>)\<rparr>)" (is "inv_ex X ?g")
proof -
  note D = inv_exD [OF inv]
  have kinds: "is_local (p\<lparr>as_peer := z\<rparr>) = is_local p" "is_remote (p\<lparr>as_peer := z\<rparr>) = is_remote p"
    "is_smart (p\<lparr>as_peer := z\<rparr>) = is_smart p" "is_tracker (p\<lparr>as_peer := z\<rparr>) = is_tracker p"
    by (simp_all add: is_local_def is_remote_def is_smart_def is_tracker_def)
  have same: "sock_ok X ?g c u = sock_ok X g c u" for c u
    by (simp add: sock_ok_def local_core_def local_settled_def wants_write_def other_core_def)
  have b: "sock_ok X g b (p\<lparr>as_peer := z\<rparr>) = sock_ok X g b p"
    using bX by (simp add: sock_ok_def local_core_def other_core_def kinds)
  have "socks_ok X ?g"
    using D(2) p same b by (auto simp: socks_ok_def)
  moreover have "peers_ok X ?g"
    unfolding peers_ok_def
  proof (intro allI impI)
    fix c u d assume h: "g_sockets ?g c = Some u" "c \<notin> X" "as_peer u = Some d"
    then have c: "c \<noteq> b" "g_sockets g c = Some u" using bX by (auto split: if_splits)
    obtain q where "d \<noteq> c" "d \<notin> X" "g_sockets g d = Some q" "as_peer q = Some c" "is_local u \<or> is_local q"
      by (rule peers_okD [OF D(3) c(2) h(2,3)])
    moreover from this have "d \<noteq> b" using bX by auto
    ultimately show "d \<noteq> c \<and> d \<notin> X \<and> (\<exists>p. g_sockets ?g d = Some p \<and> as_peer p = Some c \<and> (is_local u \<or> is_local p))"
      by simp
  qed
  moreover have "lists_ok ?g" using D(4) p kinds by (auto simp: lists_ok_def)
  moreover have "ids_ok ?g" using D(5) p by (auto simp: ids_ok_def split: if_splits)
  moreover have "fdes_ok ?g" using D(6) p by (fastforce simp: fdes_ok_def)
  moreover have "tports_ok ?g" using D(7) p by (auto simp: tports_ok_def split: if_splits)
  ultimately show ?thesis using D(1) by (simp add: inv_ex_def)
qed

section \<open>Writing to a descriptor outside the event table\<close>

lemma fdevents_inv_os [simp]: "fdevents_inv (e\<lparr>fd_os := w\<rparr>) = fdevents_inv e"
  by (simp add: fdevents_inv_def fde_ok_def)

lemma fde_view_os [simp]: "fde_view (e\<lparr>fd_os := w\<rparr>) = fde_view e"
  by (simp add: fde_view_def fun_eq_iff)

lemma fde_rest_os [simp]: "fde_rest (e\<lparr>fd_os := w\<rparr>) = fde_rest e"
  by (simp add: fde_rest_def)

lemma inv_ex_os:
  assumes "inv_ex X g" "os_open w = os_open (fd_os (g_ev g))"
  shows "inv_ex X (g\<lparr>g_ev := (g_ev g)\<lparr>fd_os := w\<rparr>\<rparr>)"
  by (rule inv_ex_cong [OF assms(1)])
    (use inv_exD [OF assms(1)] assms(2) in \<open>simp_all add: tports_ok_def\<close>)

lemma free_fds_os [simp]:
  "os_open w = os_open (fd_os e) \<Longrightarrow> free_fds (e\<lparr>fd_os := w\<rparr>) = free_fds e"
  by (simp add: free_fds_def)

lemma frame_os:
  "os_open w = os_open (fd_os (g_ev g)) \<Longrightarrow> frame A g (g\<lparr>g_ev := (g_ev g)\<lparr>fd_os := w\<rparr>\<rparr>)"
  by (simp add: frame_def adb_rest_def foreign_fdes_def)

lemma WriteFdExactly_open: "os_open (snd (WriteFdExactly fd bs w)) = os_open w"
proof (induction fd bs w rule: WriteFdExactly.induct)
  case (1 fd bs w)
  obtain res w1 where aw: "adb_write fd bs w = (res, w1)" by fastforce
  with 1 adb_write_frame(4) [OF aw] show ?case
    by (subst WriteFdExactly.simps) (auto split: sum.splits)
qed

lemma SendProtocolString_open: "os_open (snd (SendProtocolString fd s w)) = os_open w"
  by (simp add: SendProtocolString_def Let_def WriteFdExactly_open)

lemma SendFail_open: "os_open (snd (SendFail fd s w)) = os_open w"
  using WriteFdExactly_open [of fd "''FAIL''" w] SendProtocolString_open [of fd s]
  by (auto simp: SendFail_def split: prod.splits sum.splits)

lemma SendOkay_open: "os_open (snd (SendOkay fd w)) = os_open w"
  by (simp add: SendOkay_def WriteFdExactly_open)

end
