(* ===== verification/SocketClose.thy ===== *)
theory SocketClose
  imports SocketInv
begin

text \<open>
  Closing sockets: whatever the two ends of a stream are, closing one of them succeeds, keeps the
  invariant and tells the other end exactly once.
\<close>

section \<open>Closing a socket without peer\<close>

lemma is_local_reset: "is_local s \<Longrightarrow> is_local (reset_slots s)"
  by (simp add: is_local_def reset_slots_def)

lemma inv_ex_reset_slots:
  assumes inv: "inv_ex X g" and aX: "a \<in> X" and s: "g_sockets g a = Some s" and core: "local_core g a s"
  shows "inv_ex X (g\<lparr>g_sockets := (g_sockets g)(a \<mapsto> reset_slots s)\<rparr>)" (is "inv_ex X ?g")
    "local_core (g\<lparr>g_sockets := (g_sockets g)(a \<mapsto> reset_slots s)\<rparr>) a (reset_slots s)"
proof -
  note D = inv_exD [OF inv]
  have loc: "is_local s" using core by (simp add: local_core_def)
  obtain i ev where i: "as_fde s = Some i" "fde_view (g_ev g) i = Some (as_fd s, ev, local_socket_event_f a)"
    by (rule local_coreD [OF core])
  show core': "local_core ?g a (reset_slots s)"
    using core is_local_reset [OF loc] by (simp add: local_core_def reset_slots_def)
  have dom: "a \<in> dom (g_sockets g)" using s by blast
  show "inv_ex X ?g"
  proof (rule inv_ex_local_update [OF inv s core i(1), of X _ "Some (reset_slots s)"])
    show "tports_ok ?g" using D(7) s by (auto simp: tports_ok_def reset_slots_def split: if_splits)
    show "as_fde s' = Some i \<and> as_id s' = as_id s \<and> is_local s' \<and> sock_ok X ?g a s'"
      if "Some (reset_slots s) = Some s'" for s'
      using that core' i(1) aX is_local_reset [OF loc] by (auto simp: sock_ok_def reset_slots_def)
  qed (use D(1,4) aX i in \<open>auto simp: lists_ok_def\<close>)
qed

lemma sock_cases:
  assumes "inv_ex X g" "g_sockets g a = Some s"
  obtains (loc) "local_core g a s" | (other) "other_core g a s"
  using assms unfolding inv_ex_def socks_ok_def sock_ok_def by blast

lemma filter_absent: "b \<notin> set xs \<Longrightarrow> filter (\<lambda>x. x \<noteq> b) xs = xs"
  by (auto simp: filter_id_conv)

lemma not_in_trackers:
  assumes "inv_ex X g" "g_sockets g b = Some p" "\<not> is_tracker p"
  shows "remove1 b (g_trackers g) = g_trackers g"
proof (rule remove1_idem, rule notI)
  assume "b \<in> set (g_trackers g)"
  then have "\<exists>s. g_sockets g b = Some s \<and> is_tracker s"
    using inv_exD(4) [OF assms(1)] unfolding lists_ok_def by blast
  then show False using assms(2,3) by simp
qed

text \<open>What closing one socket leaves behind, whatever its kind.\<close>

definition closed_one :: "nat set \<Rightarrow> nat \<Rightarrow> adb \<Rightarrow> adb \<Rightarrow> bool" where
  "closed_one X b g g' \<longleftrightarrow>
     inv_ex (X - {b}) g' \<and> frame {b} g g' \<and> g_transports g' = g_transports g
     \<and> g_local_list g' = filter (\<lambda>x. x \<noteq> b) (g_local_list g)
     \<and> g_trackers g' = remove1 b (g_trackers g) \<and> g_next_socket g' = g_next_socket g
     \<and> g_next_id g' = g_next_id g"

lemma finish_closed_one:
  assumes inv: "inv_ex X g" and bX: "b \<in> X" and p: "g_sockets g b = Some p" and core: "local_core g b p"
    and peer: "as_peer p = None"
  shows "\<exists>g'. local_socket_finish b g = Inr g' \<and> closed_one X b g g'"
proof -
  have "is_local p" using core by (simp add: local_core_def)
  then have nt: "remove1 b (g_trackers g) = g_trackers g"
    by (intro not_in_trackers [OF inv p] not_tracker)
  obtain g' where "local_socket_finish b g = Inr g'" "inv_ex (X - {b}) g'" "frame {b} g g'"
    "g_transports g' = g_transports g" "g_local_list g' = filter (\<lambda>x. x \<noteq> b) (g_local_list g)"
    "g_trackers g' = g_trackers g" "g_next_socket g' = g_next_socket g" "g_next_id g' = g_next_id g"
    by (rule local_socket_finish_spec [OF inv bX p core peer])
  then show ?thesis using nt by (intro exI [of _ g']) (simp add: closed_one_def)
qed

text \<open>The state in which \<open>local_socket_close_notify\<close> continues: the client has been told.\<close>

definition notified :: "nat \<Rightarrow> asocket \<Rightarrow> adb \<Rightarrow> adb" where
  "notified b p g =
     g\<lparr>g_sockets := (g_sockets g)(b \<mapsto> reset_slots p),
       g_ev := (g_ev g)\<lparr>fd_os := snd (SendFail (as_fd p) ''closed'' (fd_os (g_ev g)))\<rparr>\<rparr>"

lemma notified_props:
  assumes inv: "inv_ex X g" and bX: "b \<in> X" and p: "g_sockets g b = Some p" and core: "local_core g b p"
  shows "inv_ex X (notified b p g)" "local_core (notified b p g) b (reset_slots p)"
    "frame {b} g (notified b p g)"
proof -
  let ?g1 = "g\<lparr>g_sockets := (g_sockets g)(b \<mapsto> reset_slots p)\<rparr>"
  let ?w = "snd (SendFail (as_fd p) ''closed'' (fd_os (g_ev g)))"
  have eq: "notified b p g = ?g1\<lparr>g_ev := (g_ev ?g1)\<lparr>fd_os := ?w\<rparr>\<rparr>" by (simp add: notified_def)
  show "inv_ex X (notified b p g)" unfolding eq
    by (rule inv_ex_os [OF inv_ex_reset_slots(1) [OF inv bX p core]]) (simp add: SendFail_open)
  show "local_core (notified b p g) b (reset_slots p)"
    using inv_ex_reset_slots(2) [OF inv bX p core] by (simp add: local_core_def notified_def)
  show "frame {b} g (notified b p g)"
    by (simp add: frame_def adb_rest_def foreign_fdes_def notified_def SendFail_open)
qed

lemma close_lone_local:
  assumes inv: "inv_ex X g" and bX: "b \<in> X" and p: "g_sockets g b = Some p" and core: "local_core g b p"
    and peer: "as_peer p = None"
  shows "\<exists>g'. sock_close (Suc n) b g = Inr g' \<and> closed_one X b g g'"
proof (cases "as_close p = local_socket_close_f")
  case True
  then have "sock_close (Suc n) b g = local_socket_finish b g"
    using p peer by (simp add: local_socket_close_def)
  then show ?thesis using finish_closed_one [OF assms] by simp
next
  case False
  then have cn: "as_close p = local_socket_close_notify_f"
    using core by (auto simp: is_local_def local_core_def)
  have p2: "g_sockets (notified b p g) b = Some (reset_slots p)" "as_peer (reset_slots p) = None"
    "as_fd (reset_slots p) = as_fd p"
    using peer by (simp_all add: reset_slots_def notified_def)
  obtain g' where g': "local_socket_finish b (notified b p g) = Inr g'" "closed_one X b (notified b p g) g'"
    using finish_closed_one [OF notified_props(1) [OF inv bX p core] bX p2(1)
        notified_props(2) [OF inv bX p core] p2(2)] by blast
  have "sock_close (Suc n) b g = local_socket_close (sock_close n) b (notified b p g)"
    using cn p by (simp add: local_socket_close_notify_def os_do_def notified_def reset_slots_def split_beta)
  also have "\<dots> = local_socket_finish b (notified b p g)"
    using p2 by (simp add: local_socket_close_def)
  finally have "sock_close (Suc n) b g = Inr g'" using g'(1) by simp
  moreover have "closed_one X b g g'"
    using g'(2) frame_trans [OF notified_props(3) [OF inv bX p core]]
    unfolding closed_one_def by (fastforce simp: notified_def)
  ultimately show ?thesis by blast
qed

lemma close_lone_other:
  assumes inv: "inv_ex X g" and bX: "b \<in> X" and p: "g_sockets g b = Some p" and core: "other_core g b p"
    and peer: "as_peer p = None"
  shows "\<exists>g'. sock_close (Suc n) b g = Inr g' \<and> closed_one X b g g'"
proof -
  let ?g = "g\<lparr>g_sockets := (g_sockets g)(b := None), g_trackers := remove1 b (g_trackers g)\<rparr>"
  note nt = not_in_trackers [OF inv p]
  have "is_remote p \<or> is_smart p \<or> is_tracker p" using core by (auto simp: other_core_def)
  then have "sock_close (Suc n) b g = Inr ?g"
  proof (elim disjE)
    assume r: "is_remote p"
    then have "\<not> is_tracker p" by (auto simp: is_remote_def is_tracker_def)
    with nt show ?thesis using r p peer
      by (simp add: is_remote_def remote_socket_close_def sock_delete_def)
  next
    assume r: "is_smart p"
    then have "\<not> is_tracker p" by (auto simp: is_smart_def is_tracker_def)
    with nt show ?thesis using r p peer
      by (simp add: is_smart_def smart_socket_close_def sock_delete_def)
  next
    assume "is_tracker p"
    then show ?thesis using p peer
      by (simp add: is_tracker_def device_tracker_close_def sock_delete_def)
  qed
  moreover have "filter (\<lambda>x. x \<noteq> b) (g_local_list g) = g_local_list g"
    using core by (intro filter_absent) (simp add: other_core_def)
  then have "closed_one X b g ?g"
    using inv_ex_delete_other [OF inv bX p core]
    by (simp add: closed_one_def frame_def adb_rest_def foreign_fdes_def)
  ultimately show ?thesis by blast
qed

lemma close_lone_spec:
  assumes "inv_ex X g" "b \<in> X" "g_sockets g b = Some p" "as_peer p = None"
  shows "\<exists>g'. sock_close (Suc n) b g = Inr g' \<and> closed_one X b g g'"
  using sock_cases [OF assms(1,3)] close_lone_local [OF assms(1,2,3) _ assms(4)]
    close_lone_other [OF assms(1,2,3) _ assms(4)] by blast

section \<open>Closing a pair of peers\<close>

lemma kinds_disjoint:
  "is_remote s \<Longrightarrow> \<not> is_local s" "is_smart s \<Longrightarrow> \<not> is_local s" "is_tracker s \<Longrightarrow> \<not> is_local s"
  "is_remote s \<Longrightarrow> \<not> is_tracker s" "is_smart s \<Longrightarrow> \<not> is_tracker s" "is_remote s \<Longrightarrow> \<not> is_smart s"
  by (auto simp: is_local_def is_remote_def is_smart_def is_tracker_def)

lemma is_local_peer [simp]: "is_local (s\<lparr>as_peer := z\<rparr>) = is_local s"
  by (simp add: is_local_def)

lemma sock_local:
  assumes "inv_ex X g" "g_sockets g a = Some s" "is_local s"
  shows "local_core g a s"
  using sock_cases [OF assms(1,2)] kinds_disjoint assms(3) unfolding other_core_def by blast

lemma sock_other:
  assumes "inv_ex X g" "g_sockets g a = Some s" "\<not> is_local s"
  shows "other_core g a s"
  using sock_cases [OF assms(1,2)] assms(3) unfolding local_core_def by blast

lemma peers_involution:
  assumes "adb_inv g" "g_sockets g a = Some s" "as_peer s = Some b"
  obtains p where "b \<noteq> a" "g_sockets g b = Some p" "as_peer p = Some a" "is_local s \<or> is_local p"
  using peers_okD [OF inv_exD(3) [OF assms(1)] assms(2) _ assms(3)] by blast

lemma inv_ex_pair:
  assumes inv: "adb_inv g" and s: "g_sockets g a = Some s" and peer: "as_peer s = Some b"
  shows "inv_ex {a, b} g"
proof (rule inv_ex_mono [OF inv])
  obtain p where p: "b \<noteq> a" "g_sockets g b = Some p" "as_peer p = Some a"
    by (rule peers_involution [OF inv s peer])
  fix c u d assume h: "g_sockets g c = Some u" "c \<notin> {a, b}" "as_peer u = Some d"
  obtain q where "g_sockets g d = Some q" "as_peer q = Some c"
    by (rule peers_involution [OF inv h(1,3)])
  then show "d \<notin> {a, b}" using s p peer h(2) by auto
qed simp

text \<open>The packet that announces the end of a stream to the device.\<close>

definition clse_packet :: "u32 \<Rightarrow> u32 \<Rightarrow> apacket" where
  "clse_packet i j = get_apacket\<lparr>msg := (msg get_apacket)\<lparr>command := A_CLSE, arg0 := i, arg1 := j\<rparr>\<rparr>"

definition close_packets :: "adb \<Rightarrow> asocket \<Rightarrow> nat \<Rightarrow> apacket list" where
  "close_packets g s =
     (case as_peer s of
        None \<Rightarrow> (\<lambda>_. [])
      | Some b \<Rightarrow>
          (case g_sockets g b of
             None \<Rightarrow> (\<lambda>_. [])
           | Some p \<Rightarrow>
               (case as_transport p of
                  None \<Rightarrow> (\<lambda>_. [])
                | Some t \<Rightarrow>
                    if as_shutdown p = None \<or> \<not> is_local s then (\<lambda>_. [])
                    else one_packet t (stamp (the (g_transports g t)) (clse_packet (as_id s) (as_id p))))))"

definition closed_both :: "nat \<Rightarrow> asocket \<Rightarrow> adb \<Rightarrow> adb \<Rightarrow> bool" where
  "closed_both a s g g' \<longleftrightarrow>
     adb_inv g' \<and> frame (insert a (set_option (as_peer s))) g g' \<and> sent g g' (close_packets g s)
     \<and> g_local_list g' = filter (\<lambda>x. x \<noteq> a \<and> Some x \<noteq> as_peer s) (g_local_list g)
     \<and> g_next_socket g' = g_next_socket g \<and> g_next_id g' = g_next_id g"

lemma transport_of_socket:
  assumes "inv_ex X g" "g_sockets g b = Some p" "as_transport p = Some t"
  obtains x where "g_transports g t = Some x" "at_connection x \<noteq> None"
  using inv_exD(7) [OF assms(1)] assms(2-3) unfolding tports_ok_def by fastforce

text \<open>Before the peer of a local socket is closed, a remote peer tells the device.\<close>

lemma shutdown_peer:
  assumes inv: "adb_inv g" and s: "g_sockets g a = Some s" and loc: "is_local s"
    and peer: "as_peer s = Some b" and p: "g_sockets g b = Some p" "as_peer p = Some a"
  obtains g1 where "sock_shutdown b g = Inr g1" "sent g g1 (close_packets g s)"
    "inv_ex {a, b} g1" "\<exists>T. g1 = g\<lparr>g_transports := T\<rparr>"
proof (cases "is_remote p")
  case True
  then have "other_core g b p" by (intro sock_other [OF inv p(1)] kinds_disjoint(1))
  then have nc: "\<not> as_closing p" by (simp add: other_core_def)
  obtain t where t: "as_transport p = Some t" using True by (auto simp: is_remote_def)
  obtain x where x: "g_transports g t = Some x" "at_connection x \<noteq> None"
    by (rule transport_of_socket [OF inv p(1) t])
  let ?k = "clse_packet (as_id s) (as_id p)"
  have "sendable ?k" by (simp add: clse_packet_def)
  from send_packet_spec [OF x this] obtain g1 where
    g1: "send_packet ?k t g = Inr g1" "g1 = g\<lparr>g_transports := (g_transports g)(t \<mapsto> push [stamp x ?k] x)\<rparr>"
      "sent g g1 (one_packet t (stamp x ?k))" by blast
  have sd: "sock_shutdown b g = Inr g1"
    using True p s t g1(1)
    by (simp add: sock_shutdown_def is_remote_def remote_socket_shutdown_def clse_packet_def)
  have cp: "close_packets g s = one_packet t (stamp x ?k)"
    using True p peer t x loc by (simp add: close_packets_def is_remote_def)
  show thesis
    by (rule that [OF sd]) (use g1 cp inv_ex_sent [OF inv_ex_pair [OF inv s peer] g1(3,2)] in auto)
next
  case False
  have "as_shutdown p = None"
    using sock_cases [OF inv p(1)] False
    by (auto simp: local_core_def other_core_def is_local_def is_smart_def is_tracker_def)
  then have "sock_shutdown b g = Inr g" "close_packets g s = (\<lambda>_. [])"
    using p peer by (simp_all add: sock_shutdown_def close_packets_def split: option.splits)
  then show thesis
    using inv_ex_pair [OF inv s peer] by (intro that [of g]) (auto intro: exI [of _ "g_transports g"])
qed

declare sock_close.simps [simp del]

lemma unlink_close:
  assumes inv: "inv_ex {a, b} g" and ab: "b \<noteq> a" and s: "g_sockets g a = Some s" and p: "g_sockets g b = Some p"
  obtains g3 where
    "rbind (sock_upd b (\<lambda>p. p\<lparr>as_peer := None\<rparr>) g) (sock_close (Suc n) b) = Inr g3"
    "inv_ex {a} g3" "g_sockets g3 a = Some s" "frame {b} g g3" "g_transports g3 = g_transports g"
    "g_local_list g3 = filter (\<lambda>x. x \<noteq> b) (g_local_list g)"
    "g_next_socket g3 = g_next_socket g" "g_next_id g3 = g_next_id g"
proof -
  let ?g = "g\<lparr>g_sockets := (g_sockets g)(b \<mapsto> p\<lparr>as_peer := None\<rparr>)\<rparr>"
  have inv': "inv_ex {a, b} ?g" by (rule inv_ex_set_peer [OF inv _ p]) simp
  from close_lone_spec [OF this, of b "p\<lparr>as_peer := None\<rparr>" n] obtain g3
    where g3: "sock_close (Suc n) b ?g = Inr g3" "closed_one {a, b} b ?g g3" by auto
  have "{a, b} - {b} = {a}" using ab by auto
  with g3(2) have c: "inv_ex {a} g3" "frame {b} ?g g3" "g_transports g3 = g_transports g"
    "g_local_list g3 = filter (\<lambda>x. x \<noteq> b) (g_local_list g)"
    "g_next_socket g3 = g_next_socket g" "g_next_id g3 = g_next_id g"
    by (simp_all add: closed_one_def)
  have "frame {b} g ?g" by (simp add: frame_def adb_rest_def foreign_fdes_def)
  with c(2) have "frame {b} g g3" using frame_trans [of "{b}" g ?g "{b}" g3] by simp
  moreover have "sock_upd b (\<lambda>p. p\<lparr>as_peer := None\<rparr>) g = Inr ?g" using p by (simp add: sock_upd_def)
  moreover have "g_sockets g3 a = Some s" using c(2) ab s by (simp add: frame_def)
  ultimately show thesis using g3(1) c by (intro that [of g3]) simp_all
qed

text \<open>The two halves put together, for a local socket and for the others.\<close>

lemma local_close_pair:
  assumes inv: "adb_inv g" and s: "g_sockets g a = Some s" and loc: "is_local s" and peer: "as_peer s = Some b"
  shows "\<exists>g'. local_socket_close (sock_close (Suc n)) a g = Inr g' \<and> closed_both a s g g'"
proof -
  obtain p where p: "b \<noteq> a" "g_sockets g b = Some p" "as_peer p = Some a"
    by (rule peers_involution [OF inv s peer])
  obtain g1 T where g1: "sock_shutdown b g = Inr g1" "sent g g1 (close_packets g s)" "inv_ex {a, b} g1"
    "g1 = g\<lparr>g_transports := T\<rparr>" using shutdown_peer [OF inv s loc peer p(2,3)] by metis
  have s1: "g_sockets g1 a = Some s" "g_sockets g1 b = Some p" using g1(4) s p by simp_all
  obtain g3 where g3: "rbind (sock_upd b (\<lambda>p. p\<lparr>as_peer := None\<rparr>) g1) (sock_close (Suc n) b) = Inr g3"
    "inv_ex {a} g3" "g_sockets g3 a = Some s" "frame {b} g1 g3" "g_transports g3 = g_transports g1"
    "g_local_list g3 = filter (\<lambda>x. x \<noteq> b) (g_local_list g1)"
    "g_next_socket g3 = g_next_socket g1" "g_next_id g3 = g_next_id g1"
    by (rule unlink_close [OF g1(3) p(1) s1])
  let ?g4 = "g3\<lparr>g_sockets := (g_sockets g3)(a \<mapsto> s\<lparr>as_peer := None\<rparr>)\<rparr>"
  have inv4: "inv_ex {a} ?g4" by (rule inv_ex_set_peer [OF g3(2) _ g3(3)]) simp
  have core4: "local_core ?g4 a (s\<lparr>as_peer := None\<rparr>)" by (rule sock_local [OF inv4]) (use loc in simp_all)
  from finish_closed_one [OF inv4 _ _ core4] obtain g' where
    g': "local_socket_finish a ?g4 = Inr g'" "closed_one {a} a ?g4 g'" by auto
  have "sock_upd a (\<lambda>s. s\<lparr>as_peer := None\<rparr>) g3 = Inr ?g4" using g3(3) by (simp add: sock_upd_def)
  then have "local_socket_close (sock_close (Suc n)) a g = Inr g'"
    using s peer g1(1) g3(1) g'(1) by (simp add: local_socket_close_def rbind_assoc [symmetric])
  moreover have "frame {b} g g3" using g1(4) g3(4) by (simp add: frame_def adb_rest_def foreign_fdes_def)
  then have "frame {a, b} g g'"
    using g'(2) by (auto simp: closed_one_def frame_def adb_rest_def foreign_fdes_def)
  moreover have "sent g g' (close_packets g s)"
    by (rule sent_same [OF g1(2)]) (use g'(2) g3(5) in \<open>simp add: closed_one_def\<close>)
  ultimately show ?thesis
    using g'(2) g3(6-) g1(4) peer
    by (intro exI [of _ g']) (auto simp: closed_both_def closed_one_def conj_commute intro: filter_cong)
qed

lemma other_close_pair:
  assumes inv: "adb_inv g" and s: "g_sockets g a = Some s" and oth: "\<not> is_local s" and peer: "as_peer s = Some b"
  shows "\<exists>g'. sock_close (Suc (Suc n)) a g = Inr g' \<and> closed_both a s g g'"
proof -
  obtain p where p: "b \<noteq> a" "g_sockets g b = Some p" "as_peer p = Some a"
    by (rule peers_involution [OF inv s peer])
  obtain g3 where g3: "rbind (sock_upd b (\<lambda>p. p\<lparr>as_peer := None\<rparr>) g) (sock_close (Suc n) b) = Inr g3"
    "inv_ex {a} g3" "g_sockets g3 a = Some s" "frame {b} g g3" "g_transports g3 = g_transports g"
    "g_local_list g3 = filter (\<lambda>x. x \<noteq> b) (g_local_list g)"
    "g_next_socket g3 = g_next_socket g" "g_next_id g3 = g_next_id g"
    by (rule unlink_close [OF inv_ex_pair [OF inv s peer] p(1) s p(2)])
  have core3: "other_core g3 a s" by (rule sock_other [OF g3(2,3) oth])
  let ?g' = "g3\<lparr>g_sockets := (g_sockets g3)(a := None), g_trackers := remove1 a (g_trackers g3)\<rparr>"
  have "adb_inv ?g'" using inv_ex_delete_other [OF g3(2) _ g3(3) core3] by simp
  note nt = not_in_trackers [OF g3(2,3)]
  have "is_remote s \<or> is_smart s \<or> is_tracker s" using core3 by (auto simp: other_core_def)
  then have "sock_close (Suc (Suc n)) a g = Inr ?g'"
  proof (elim disjE)
    assume r: "is_remote s"
    then have "g3\<lparr>g_sockets := (g_sockets g3)(a := None)\<rparr> = ?g'" using nt kinds_disjoint(4) by simp
    then show ?thesis using r s peer g3(1)
      by (simp add: is_remote_def remote_socket_close_def sock_delete_def sock_close.simps(2) [of "Suc n"])
  next
    assume r: "is_smart s"
    then have "g3\<lparr>g_sockets := (g_sockets g3)(a := None)\<rparr> = ?g'" using nt kinds_disjoint(5) by simp
    then show ?thesis using r s peer g3(1,3)
      by (simp add: is_smart_def smart_socket_close_def sock_delete_def sock_upd_def
          sock_close.simps(2) [of "Suc n"] rbind_assoc [symmetric])
  next
    assume "is_tracker s"
    then show ?thesis using s peer g3(1)
      by (simp add: is_tracker_def device_tracker_close_def sock_delete_def sock_close.simps(2) [of "Suc n"])
  qed
  moreover have "close_packets g s = (\<lambda>_. [])" using oth by (simp add: close_packets_def split: option.splits)
  moreover have "frame {a, b} g ?g'"
    using g3(4) by (simp add: frame_def adb_rest_def foreign_fdes_def)
  moreover have "g_local_list g3 = filter (\<lambda>x. x \<noteq> a \<and> x \<noteq> b) (g_local_list g)"
    using g3(6) core3 by (auto simp: other_core_def intro: filter_cong)
  ultimately show ?thesis
    using \<open>adb_inv ?g'\<close> g3(5,7-) peer by (intro exI [of _ ?g']) (simp add: closed_both_def)
qed

lemma lone_transition:
  assumes inv: "adb_inv g" and s: "g_sockets g a = Some s" and peer: "as_peer s = None"
  shows "inv_ex {a} g"
proof (rule inv_ex_mono [OF inv])
  fix c u d assume h: "g_sockets g c = Some u" "as_peer u = Some d"
  obtain q where "g_sockets g d = Some q" "as_peer q = Some c"
    by (rule peers_involution [OF inv h])
  then show "d \<notin> {a}" using s peer by auto
qed simp

lemma close_socket_spec:
  assumes inv: "adb_inv g" and s: "g_sockets g a = Some s"
  shows "\<exists>g'. close_socket a g = Inr g' \<and> closed_both a s g g'"
proof (cases "as_peer s")
  case None
  from close_lone_spec [OF lone_transition [OF inv s None] _ s None, of 1] obtain g' where
    g': "sock_close 2 a g = Inr g'" "closed_one {a} a g g'" by (auto simp: numeral_2_eq_2)
  moreover have "close_packets g s = (\<lambda>_. [])" using None by (simp add: close_packets_def)
  ultimately show ?thesis
    using None by (intro exI [of _ g']) (simp add: close_socket_def closed_both_def closed_one_def)
next
  case (Some b)
  show ?thesis
  proof (cases "is_local s")
    case True
    have "sock_ok {} g a s" using inv_exD(2) [OF inv] s by (simp add: socks_ok_def)
    moreover have "\<not> other_core g a s" using True kinds_disjoint by (auto simp: other_core_def)
    ultimately have "local_settled g s" by (simp add: sock_ok_def)
    then have "as_close s = local_socket_close_f"
      using Some True by (auto simp: local_settled_def is_local_def)
    then have "close_socket a g = local_socket_close (sock_close (Suc 0)) a g"
      using s by (simp add: close_socket_def numeral_2_eq_2 sock_close.simps(2) [of "Suc 0"])
    then show ?thesis using local_close_pair [OF inv s True Some, of 0] by simp
  next
    case False
    then show ?thesis
      using other_close_pair [OF inv s False Some, of 0] by (simp add: close_socket_def numeral_2_eq_2)
  qed
qed

lemma settled_local:
  assumes "adb_inv g" "g_sockets g a = Some s" "is_local s"
  shows "local_settled g s"
proof -
  have "sock_ok {} g a s" using inv_exD(2) [OF assms(1)] assms(2) by (simp add: socks_ok_def)
  moreover have "\<not> other_core g a s" using assms(3) kinds_disjoint by (auto simp: other_core_def)
  ultimately show ?thesis by (simp add: sock_ok_def)
qed

section \<open>Closing all sockets of a transport\<close>

definition bound_to :: "nat \<Rightarrow> adb \<Rightarrow> nat \<Rightarrow> bool" where
  "bound_to t g a \<longleftrightarrow>
     (\<exists>s. g_sockets g a = Some s
        \<and> (as_transport s = Some t \<or> (\<exists>b p. as_peer s = Some b \<and> g_sockets g b = Some p \<and> as_transport p = Some t)))"

lemma first_of_transport_spec:
  assumes inv: "adb_inv g" and sub: "set xs \<subseteq> dom (g_sockets g)"
  shows "\<exists>r. first_of_transport t g xs = Inr r
          \<and> (case r of None \<Rightarrow> \<forall>a \<in> set xs. \<not> bound_to t g a | Some a \<Rightarrow> a \<in> set xs)"
  using sub
proof (induction xs)
  case (Cons a xs)
  obtain s where s: "g_sockets g a = Some s" using Cons.prems by auto
  obtain r where r: "first_of_transport t g xs = Inr r"
    "case r of None \<Rightarrow> \<forall>a \<in> set xs. \<not> bound_to t g a | Some a \<Rightarrow> a \<in> set xs"
    using Cons by auto
  show ?case
  proof (cases "as_transport s = Some t")
    case True
    then show ?thesis using s by simp
  next
    case False
    show ?thesis
    proof (cases "as_peer s")
      case None
      then have "\<not> bound_to t g a" using s False by (simp add: bound_to_def)
      then show ?thesis using s False None r by (cases r) auto
    next
      case (Some b)
      obtain p where p: "g_sockets g b = Some p" by (rule peers_involution [OF inv s Some])
      then have "\<not> bound_to t g a" if "as_transport p \<noteq> Some t"
        using s False Some that by (simp add: bound_to_def)
      then show ?thesis using s False Some p r by (cases r) auto
    qed
  qed
qed simp

lemma sent_exists_trans:
  "(\<exists>ps. sent g g1 ps) \<Longrightarrow> (\<exists>ps. sent g1 g2 ps) \<Longrightarrow> (\<exists>ps. sent g g2 ps)"
  using sent_trans by metis

lemma close_all_loop_spec:
  assumes "adb_inv g" "length (g_local_list g) < n"
  shows "\<exists>g'. close_all_loop n close_socket t g = Inr g' \<and> adb_inv g' \<and> frame UNIV g g'
          \<and> (\<exists>ps. sent g g' ps) \<and> (\<forall>a \<in> set (g_local_list g'). \<not> bound_to t g' a)
          \<and> g_next_socket g' = g_next_socket g \<and> g_next_id g' = g_next_id g"
  using assms
proof (induction n arbitrary: g)
  case (Suc n)
  have sub: "set (g_local_list g) \<subseteq> dom (g_sockets g)"
    using inv_exD(4) [OF Suc.prems(1)] by (simp add: lists_ok_def)
  obtain r where r: "first_of_transport t g (g_local_list g) = Inr r"
    "case r of None \<Rightarrow> \<forall>a \<in> set (g_local_list g). \<not> bound_to t g a | Some a \<Rightarrow> a \<in> set (g_local_list g)"
    using first_of_transport_spec [OF Suc.prems(1) sub] by blast
  show ?case
  proof (cases r)
    case None
    moreover have "\<exists>ps. sent g g ps" using sent_refl [of g g] by blast
    ultimately show ?thesis using r Suc.prems(1) by simp
  next
    case (Some a)
    then have a: "a \<in> set (g_local_list g)" using r(2) by simp
    then obtain s where s: "g_sockets g a = Some s" using sub by auto
    obtain g1 where g1: "close_socket a g = Inr g1" "closed_both a s g g1"
      using close_socket_spec [OF Suc.prems(1) s] by blast
    have "length (g_local_list g1) < length (g_local_list g)"
      using g1(2) a by (auto simp: closed_both_def intro!: length_filter_less)
    then have "length (g_local_list g1) < n" using Suc.prems(2) by simp
    with Suc.IH [of g1] g1(2) obtain g' where g': "close_all_loop n close_socket t g1 = Inr g'" "adb_inv g'"
      "frame UNIV g1 g'" "\<exists>ps. sent g1 g' ps" "\<forall>a \<in> set (g_local_list g'). \<not> bound_to t g' a"
      "g_next_socket g' = g_next_socket g1" "g_next_id g' = g_next_id g1"
      by (auto simp: closed_both_def)
    have "frame UNIV g g'" using frame_trans [OF _ g'(3)] g1(2) by (auto simp: closed_both_def)
    moreover have "\<exists>ps. sent g g' ps" using sent_exists_trans [OF _ g'(4)] g1(2) by (auto simp: closed_both_def)
    ultimately show ?thesis using r(1) Some g1 g' by (simp add: closed_both_def)
  qed
qed simp

text \<open>Afterwards no socket in use refers to the transport, neither a local one nor a remote one.\<close>

lemma unbound:
  assumes inv: "adb_inv g" and un: "\<forall>a \<in> set (g_local_list g). \<not> bound_to t g a"
    and s: "g_sockets g a = Some s" "\<not> as_closing s"
  shows "as_transport s \<noteq> Some t"
proof (cases "is_local s")
  case True
  then have "a \<in> set (g_local_list g)" using sock_local [OF inv s(1)] s(2) by (simp add: local_core_def)
  then show ?thesis using un s(1) by (auto simp: bound_to_def)
next
  case False
  have "sock_ok {} g a s" using inv_exD(2) [OF inv] s(1) by (simp add: socks_ok_def)
  then have "as_peer s \<noteq> None" using False by (auto simp: sock_ok_def local_core_def)
  then obtain b where b: "as_peer s = Some b" by blast
  obtain p where p: "g_sockets g b = Some p" "as_peer p = Some a" "is_local s \<or> is_local p"
    by (rule peers_involution [OF inv s(1) b])
  then have loc: "is_local p" using False by simp
  have "\<not> as_closing p" using settled_local [OF inv p(1) loc] p(2) by (auto simp: local_settled_def)
  then have "b \<in> set (g_local_list g)" using sock_local [OF inv p(1) loc] by (simp add: local_core_def)
  then show ?thesis using un p s(1) by (auto simp: bound_to_def)
qed

end
