(* ===== verification/SocketFlow.thy ===== *)
theory SocketFlow
  imports SocketClose
begin

text \<open>
  Data through a local socket: enqueueing, flushing to and from its descriptor, and its event
  handler. No operation on a healthy state crashes, each keeps the invariant, and the bytes written
  together with the bytes queued are the bytes enqueued.
\<close>

section \<open>Writing the queue\<close>

text \<open>The state after a change to the queue and the error flag of one socket and to the event table.\<close>

definition local_set :: "nat \<Rightarrow> asocket \<Rightarrow> IOVector \<Rightarrow> bool \<Rightarrow> (fd_func, runnable) fdevents \<Rightarrow> adb \<Rightarrow> adb" where
  "local_set a s q we e g =
     g\<lparr>g_sockets := (g_sockets g)(a \<mapsto> s\<lparr>as_has_write_error := we, as_queue := q\<rparr>), g_ev := e\<rparr>"

lemma local_set_id: "g_sockets g a = Some s \<Longrightarrow> local_set a s (as_queue s) (as_has_write_error s) (g_ev g) g = g"
  by (simp add: local_set_def fun_upd_idem)

lemma local_set_set [simp]:
  "local_set a (s\<lparr>as_has_write_error := we, as_queue := q\<rparr>) q' we' e' (local_set a s q we e g)
   = local_set a s q' we' e' g"
  by (simp add: local_set_def)

lemma local_set_sock [simp]:
  "g_sockets (local_set a s q we e g) a = Some (s\<lparr>as_has_write_error := we, as_queue := q\<rparr>)"
  "g_ev (local_set a s q we e g) = e"
  by (simp_all add: local_set_def)

lemma sock_upd_queue:
  assumes "g_sockets g a = Some s"
  shows "sock_upd a (\<lambda>s. s\<lparr>as_queue := q\<rparr>) (g\<lparr>g_ev := e\<rparr>) = Inr (local_set a s q (as_has_write_error s) e g)"
    "sock_upd a (\<lambda>s. s\<lparr>as_has_write_error := True\<rparr>) (g\<lparr>g_ev := e\<rparr>) = Inr (local_set a s (as_queue s) True e g)"
  using assms by (simp_all add: local_set_def)

text \<open>The part of the event table that a socket may change: the events of its own object.\<close>

definition ev_changed :: "nat \<Rightarrow> u16 \<Rightarrow> (fd_func, runnable) fdevents \<Rightarrow> (fd_func, runnable) fdevents \<Rightarrow> bool" where
  "ev_changed i ev e e' \<longleftrightarrow>
     fdevents_inv e' \<and> fde_rest e' = fde_rest e \<and> os_open (fd_os e') = os_open (fd_os e)
     \<and> (\<exists>fd ev0 f. fde_view e i = Some (fd, ev0, f) \<and> fde_view e' = (fde_view e)(i \<mapsto> (fd, ev, f)))"

lemma ev_changed_os:
  assumes "fdevents_inv e" "fde_view e i = Some (fd, ev, f)" "os_open w = os_open (fd_os e)"
  shows "ev_changed i ev e (e\<lparr>fd_os := w\<rparr>)"
  using assms by (simp add: ev_changed_def fun_upd_idem)

lemma ev_changed_trans:
  "ev_changed i ev e e1 \<Longrightarrow> ev_changed i ev' e1 e2 \<Longrightarrow> ev_changed i ev' e e2"
  by (auto simp: ev_changed_def)

lemma fde_add_changed:
  assumes "g_sockets g a = Some s" "as_fde s = Some i" "fdevents_inv (g_ev g)" "fde_view (g_ev g) i = Some (fd, ev, f)"
  obtains e where "fde_add a b g = Inr (g\<lparr>g_ev := e\<rparr>)"
    "ev_changed i ((ev OR b) AND FDE_EVENTMASK) (g_ev g) e" "fd_os e = fd_os (g_ev g)"
proof -
  obtain e where "fdevent_add i b (g_ev g) = Inr e" "fdevents_inv e"
    "fde_view e = (fde_view (g_ev g))(i \<mapsto> (fd, (ev OR b) AND FDE_EVENTMASK, f))"
    "fde_rest e = fde_rest (g_ev g)" "fd_os e = fd_os (g_ev g)"
    by (rule fdevent_add_spec [OF assms(3,4)])
  then show thesis
    using assms by (intro that [of e]) (simp_all add: fde_add_def sock_fde_def ev_do_def ev_changed_def)
qed

lemma fde_del_changed:
  assumes "g_sockets g a = Some s" "as_fde s = Some i" "fdevents_inv (g_ev g)" "fde_view (g_ev g) i = Some (fd, ev, f)"
  obtains e where "fde_del a b g = Inr (g\<lparr>g_ev := e\<rparr>)"
    "ev_changed i ((ev AND NOT b) AND FDE_EVENTMASK) (g_ev g) e" "fd_os e = fd_os (g_ev g)"
proof -
  obtain e where "fdevent_del i b (g_ev g) = Inr e" "fdevents_inv e"
    "fde_view e = (fde_view (g_ev g))(i \<mapsto> (fd, (ev AND NOT b) AND FDE_EVENTMASK, f))"
    "fde_rest e = fde_rest (g_ev g)" "fd_os e = fd_os (g_ev g)"
    by (rule fdevent_del_spec [OF assms(3,4)])
  then show thesis
    using assms by (intro that [of e]) (simp_all add: fde_del_def sock_fde_def ev_do_def ev_changed_def)
qed

text \<open>What one pass over the queue does, and that it loses no byte.\<close>

definition flushed :: "asocket \<Rightarrow> nat \<Rightarrow> u16 \<Rightarrow> (fd_func, runnable) fdevents \<Rightarrow>
    SocketFlushResult option \<Rightarrow> IOVector \<Rightarrow> bool \<Rightarrow> (fd_func, runnable) fdevents \<Rightarrow> bool" where
  "flushed s i ev e r q we e' \<longleftrightarrow>
     IOVector_open q \<and> (as_has_write_error s \<longrightarrow> we)
     \<and> os_written (fd_os e') (as_fd s) @ IOVector_bytes q
         = os_written (fd_os e) (as_fd s) @ IOVector_bytes (as_queue s)
     \<and> (r = None \<and> (IOVector_empty q \<or> we) \<and> ev_changed i ev e e'
        \<or> r = Some TryAgain \<and> \<not> IOVector_empty q \<and> we = as_has_write_error s
          \<and> ev_changed i ((ev OR FDE_WRITE) AND FDE_EVENTMASK) e e')"

text \<open>The two ways in which a write ends that does not take the whole queue.\<close>

lemma flush_failed:
  assumes "g_sockets g a = Some s" "IOVector_open (as_queue s)" "ev_changed i ev (g_ev g) e"
    "os_written (fd_os e) (as_fd s) = os_written (fd_os (g_ev g)) (as_fd s)"
  shows "rbind (sock_upd a (\<lambda>s. s\<lparr>as_has_write_error := True\<rparr>) (g\<lparr>g_ev := e\<rparr>)) (\<lambda>g2. Inr (None, g2))
           = Inr (None, local_set a s (as_queue s) True e g)"
    "flushed s i ev (g_ev g) None (as_queue s) True e"
  using assms sock_upd_queue(2) [OF assms(1), of e] by (simp_all add: flushed_def)

lemma flush_again:
  assumes s: "as_fde s = Some i" and ch: "ev_changed i ev (g_ev g) e"
    and q: "IOVector_open q" "\<not> IOVector_empty q"
      "os_written (fd_os e) (as_fd s) @ IOVector_bytes q
         = os_written (fd_os (g_ev g)) (as_fd s) @ IOVector_bytes (as_queue s)"
  shows "\<exists>e'. rbind (fde_add a FDE_WRITE (local_set a s q (as_has_write_error s) e g)) (\<lambda>g3. Inr (Some TryAgain, g3))
             = Inr (Some TryAgain, local_set a s q (as_has_write_error s) e' g)
           \<and> flushed s i ev (g_ev g) (Some TryAgain) q (as_has_write_error s) e'"
proof -
  let ?g = "local_set a s q (as_has_write_error s) e g"
  obtain fd f where v: "fdevents_inv (g_ev ?g)" "fde_view (g_ev ?g) i = Some (fd, ev, f)"
    using ch by (auto simp: ev_changed_def)
  have i: "as_fde (s\<lparr>as_has_write_error := as_has_write_error s, as_queue := q\<rparr>) = Some i" using s by simp
  obtain e' where e': "fde_add a FDE_WRITE ?g = Inr (?g\<lparr>g_ev := e'\<rparr>)"
      "ev_changed i ((ev OR FDE_WRITE) AND FDE_EVENTMASK) (g_ev ?g) e'" "fd_os e' = fd_os (g_ev ?g)"
    by (rule fde_add_changed [OF local_set_sock(1) i v])
  have "rbind (fde_add a FDE_WRITE ?g) (\<lambda>g3. Inr (Some TryAgain, g3))
      = Inr (Some TryAgain, local_set a s q (as_has_write_error s) e' g)"
    using e'(1) by (simp add: local_set_def)
  moreover have "flushed s i ev (g_ev g) (Some TryAgain) q (as_has_write_error s) e'"
    using q e'(3) ev_changed_trans [OF ch] e'(2) by (simp add: flushed_def)
  ultimately show ?thesis by (intro exI conjI)
qed

lemma flush_queue_write:
  assumes s: "g_sockets g a = Some s" and ne: "\<not> IOVector_empty (as_queue s)" and q: "IOVector_open (as_queue s)"
    and wr: "adb_write (as_fd s) (IOVector_bytes (as_queue s)) (fd_os (g_ev g)) = (rc, w)"
    and e: "e = (g_ev g)\<lparr>fd_os := w\<rparr>"
  shows "flush_queue a g = (case rc of
      Inr n \<Rightarrow> if n > 0 \<and> n = IOVector_size (as_queue s)
          then Inr (None, local_set a s IOVector_new (as_has_write_error s) e g)
          else if n > 0 then
            rbind (IOVector_take_front n (as_queue s)) (\<lambda>(_, q).
            rbind (fde_add a FDE_WRITE (local_set a s q (as_has_write_error s) e g)) (\<lambda>g3. Inr (Some TryAgain, g3)))
          else rbind (sock_upd a (\<lambda>s. s\<lparr>as_has_write_error := True\<rparr>) (g\<lparr>g_ev := e\<rparr>)) (\<lambda>g2. Inr (None, g2))
    | Inl er \<Rightarrow> if er = EAGAIN
        then rbind (fde_add a FDE_WRITE (local_set a s (as_queue s) (as_has_write_error s) e g))
               (\<lambda>g2. Inr (Some TryAgain, g2))
        else rbind (sock_upd a (\<lambda>s. s\<lparr>as_has_write_error := True\<rparr>) (g\<lparr>g_ev := e\<rparr>)) (\<lambda>g2. Inr (None, g2)))"
proof -
  obtain iov where "IOVector_iovecs (as_queue s) = Inr iov" "concat iov = IOVector_bytes (as_queue s)"
    using IOVector_iovecs_spec q by (auto simp: IOVector_open_def)
  moreover have "local_set a s (as_queue s) (as_has_write_error s) e g = g\<lparr>g_ev := e\<rparr>"
    using s by (simp add: local_set_def fun_upd_idem)
  ultimately show ?thesis
    using s ne wr sock_upd_queue(1) [OF s]
    by (simp add: flush_queue_def os_do_def adb_writev_def e IOVector_clear_new cong: sum.case_cong if_cong)
qed

lemma flush_queue_spec:
  assumes s: "g_sockets g a = Some s" and q: "IOVector_open (as_queue s)" and fde: "as_fde s = Some i"
    and ev: "fdevents_inv (g_ev g)" "fde_view (g_ev g) i = Some (fd, ev, f)"
  shows "\<exists>r q' we e. flush_queue a g = Inr (r, local_set a s q' we e g) \<and> flushed s i ev (g_ev g) r q' we e"
proof (cases "IOVector_empty (as_queue s)")
  case True
  have "flushed s i ev (g_ev g) None (as_queue s) (as_has_write_error s) (g_ev g)"
    using True q ev by (simp add: flushed_def ev_changed_def fun_upd_idem)
  moreover have "flush_queue a g = Inr (None, local_set a s (as_queue s) (as_has_write_error s) (g_ev g) g)"
    using True s by (simp add: flush_queue_def local_set_id)
  ultimately show ?thesis by blast
next
  case False
  let ?q = "as_queue s" and ?w = "fd_os (g_ev g)"
  have qi: "IOVector_inv ?q" "end_offset ?q = 0" using q by (simp_all add: IOVector_open_def)
  obtain rc w where wr: "adb_write (as_fd s) (IOVector_bytes ?q) ?w = (rc, w)" by fastforce
  let ?e = "(g_ev g)\<lparr>fd_os := w\<rparr>"
  have ch: "ev_changed i ev (g_ev g) ?e" by (rule ev_changed_os [OF ev adb_write_frame(4) [OF wr]])
  note start = flush_queue_write [OF s False q wr refl]
  show ?thesis
  proof (cases rc)
    case (Inl er)
    then have w: "os_written w = os_written ?w" using adb_write_Inl wr by blast
    show ?thesis
    proof (cases "er = EAGAIN")
      case True
      with start Inl w flush_again [OF fde ch q \<open>\<not> IOVector_empty ?q\<close>, of a] show ?thesis by (simp, metis)
    next
      case False
      with start Inl w flush_failed [OF s q ch]
      have "flush_queue a g = Inr (None, local_set a s ?q True ?e g)" "flushed s i ev (g_ev g) None ?q True ?e"
        by simp_all
      then show ?thesis by (intro exI conjI)
    qed
  next
    case (Inr n)
    then have n: "n \<le> length (IOVector_bytes ?q)" "os_written w (as_fd s) = os_written ?w (as_fd s) @ take n (IOVector_bytes ?q)"
      using adb_write_Inr wr by blast+
    have sz: "IOVector_size ?q = length (IOVector_bytes ?q)" using qi(1) by simp
    consider (all) "n > 0" "n = IOVector_size ?q" | (part) "n > 0" "n \<noteq> IOVector_size ?q" | (none) "n = 0" by auto
    then show ?thesis
    proof cases
      case all
      then have "flushed s i ev (g_ev g) None IOVector_new (as_has_write_error s) ?e"
        using n sz ch by (simp add: flushed_def IOVector_empty_iff)
      moreover have "flush_queue a g = Inr (None, local_set a s IOVector_new (as_has_write_error s) ?e g)"
        using start Inr all by simp
      ultimately show ?thesis by (intro exI conjI)
    next
      case part
      obtain h q' where tf: "IOVector_take_front n ?q = Inr (h, q')" "IOVector_open q'"
        "IOVector_bytes q' = drop n (IOVector_bytes ?q)"
        using IOVector_take_front_spec [OF qi(1), of n] n(1) sz qi(2) by (auto simp: IOVector_open_def)
      then have "\<not> IOVector_empty q'" using part n(1) sz by (simp add: IOVector_empty_iff IOVector_open_def)
      with start Inr part tf n flush_again [OF fde ch tf(2), of a] show ?thesis by (simp, metis)
    next
      case none
      with start Inr n flush_failed [OF s q ch]
      have "flush_queue a g = Inr (None, local_set a s ?q True ?e g)" "flushed s i ev (g_ev g) None ?q True ?e"
        by simp_all
      then show ?thesis by (intro exI conjI)
    qed
  qed
qed

section \<open>The invariant while data moves\<close>

lemma local_core_view:
  assumes "local_core g a s" "as_fde s = Some i"
  obtains ev where "fde_view (g_ev g) i = Some (as_fd s, ev, local_socket_event_f a)"
    "\<not> IOVector_empty (as_queue s) \<and> \<not> as_has_write_error s \<longrightarrow> has ev FDE_WRITE"
  using assms by (auto elim: local_coreD)

lemma inv_local_set:
  assumes inv: "adb_inv g" and s: "g_sockets g a = Some s" and loc: "is_local s" and i: "as_fde s = Some i"
    and q: "IOVector_open q" and ch: "ev_changed i ev (g_ev g) e"
    and w: "\<not> IOVector_empty q \<and> \<not> we \<longrightarrow> has ev FDE_WRITE"
    and p: "has ev FDE_WRITE \<and> \<not> as_closing s \<longrightarrow> as_peer s \<noteq> None"
  shows "adb_inv (local_set a s q we e g)" (is "adb_inv ?g")
    "frame {a} g (local_set a s q we e g)"
proof -
  note D = inv_exD [OF inv]
  let ?s = "s\<lparr>as_has_write_error := we, as_queue := q\<rparr>"
  have core: "local_core g a s" by (rule sock_local [OF inv s loc])
  obtain ev0 where v: "fde_view (g_ev g) i = Some (as_fd s, ev0, local_socket_event_f a)"
    by (rule local_core_view [OF core i])
  have e: "fdevents_inv e" "fde_rest e = fde_rest (g_ev g)" "os_open (fd_os e) = os_open (fd_os (g_ev g))"
    "fde_view e = (fde_view (g_ev g))(i \<mapsto> (as_fd s, ev, local_socket_event_f a))"
    using ch v by (auto simp: ev_changed_def)
  have loc': "is_local ?s" using loc by (simp add: is_local_def)
  have "local_core ?g a ?s"
    using core loc' q i e(4) w by (simp add: local_core_def local_set_def)
  moreover have "local_settled ?g ?s"
    using settled_local [OF inv s loc] i e(4) p
    by (simp add: local_settled_def wants_write_def local_set_def)
  ultimately have ok: "sock_ok {} ?g a ?s" by (simp add: sock_ok_def)
  show "adb_inv ?g"
  proof (rule inv_ex_local_update [OF inv s core i, of "{}" _ "Some ?s"])
    show "tports_ok ?g" using D(7) s by (auto simp: tports_ok_def local_set_def split: if_splits)
    show "as_fde s' = Some i \<and> as_id s' = as_id s \<and> is_local s' \<and> sock_ok {} ?g a s'"
      if "Some ?s = Some s'" for s' using that i loc' ok by auto
    show "a \<notin> {} \<Longrightarrow> \<exists>s'. Some ?s = Some s' \<and> as_peer s' = as_peer s" by simp
  qed (use D(4) e in \<open>auto simp: local_set_def lists_ok_def\<close>)
  show "frame {a} g ?g"
    using e(2) foreign_fdes_update [OF v, of ?g] e(4) free_fds_update [OF v e(4) e(3)]
    by (simp add: frame_def adb_rest_def local_set_def)
qed

text \<open>The components of the state that data moving through a local socket leaves alone.\<close>

definition flow_frame :: "nat \<Rightarrow> adb \<Rightarrow> adb \<Rightarrow> bool" where
  "flow_frame a g g' \<longleftrightarrow>
     frame {a} g g' \<and> g_transports g' = g_transports g \<and> g_next_socket g' = g_next_socket g
     \<and> g_next_id g' = g_next_id g"

lemma flow_frame_set: "frame {a} g (local_set a s q we e g) \<Longrightarrow> flow_frame a g (local_set a s q we e g)"
  by (simp add: flow_frame_def local_set_def)

definition flush_result :: "nat \<Rightarrow> asocket \<Rightarrow> IOVector \<Rightarrow> adb \<Rightarrow> SocketFlushResult \<Rightarrow> adb \<Rightarrow> bool" where
  "flush_result a s q0 g r g' \<longleftrightarrow>
     adb_inv g' \<and> flow_frame a g g'
     \<and> (case r of
          Destroyed \<Rightarrow> as_closing s \<and> g_local_list g' = g_local_list g
        | _ \<Rightarrow> \<exists>q we e. g' = local_set a s q we e g
             \<and> os_written (fd_os e) (as_fd s) @ IOVector_bytes q
                 = os_written (fd_os (g_ev g)) (as_fd s) @ IOVector_bytes q0
             \<and> (r = Completed \<longrightarrow> \<not> as_closing s \<and> (IOVector_empty q \<or> we)))"

lemma sent_nothing: "sent g g' (\<lambda>_. []) \<Longrightarrow> g_transports g' = g_transports g"
  by (simp add: sent_def fun_eq_iff)

text \<open>A closing socket whose queue is done is destroyed.\<close>

lemma flush_closing:
  assumes inv: "adb_inv g" and s: "g_sockets g a = Some s" and loc: "is_local s" and c: "as_closing s"
    and inv1: "adb_inv (local_set a s q we e g)" "frame {a} g (local_set a s q we e g)"
  shows "\<exists>g'. close_socket a (local_set a s q we e g) = Inr g' \<and> flush_result a s q0 g Destroyed g'"
proof -
  let ?g1 = "local_set a s q we e g" and ?s1 = "s\<lparr>as_has_write_error := we, as_queue := q\<rparr>"
  have "local_settled g s" by (rule settled_local [OF inv s loc])
  then have peer: "as_peer ?s1 = None" using c by (simp add: local_settled_def)
  obtain g' where g': "close_socket a ?g1 = Inr g'" "closed_both a ?s1 ?g1 g'"
    using close_socket_spec [OF inv1(1) local_set_sock(1)] by metis
  have "a \<notin> set (g_local_list g)"
    using sock_local [OF inv s loc] c by (simp add: local_core_def)
  then have "g_local_list g' = g_local_list g"
    using g'(2) peer by (auto simp: closed_both_def local_set_def filter_id_conv)
  moreover have "frame {a} ?g1 g'" using g'(2) peer by (simp add: closed_both_def)
  then have "frame {a} g g'" using frame_trans [OF inv1(2)] by fastforce
  moreover have "close_packets ?g1 ?s1 = (\<lambda>_. [])" using peer by (simp add: close_packets_def)
  then have "g_transports g' = g_transports g"
    using g'(2) sent_nothing [of ?g1 g'] by (simp add: closed_both_def local_set_def)
  ultimately have "flush_result a s q0 g Destroyed g'"
    using g'(2) c by (simp add: flush_result_def flow_frame_def closed_both_def local_set_def)
  then show ?thesis using g'(1) by (intro exI conjI)
qed

text \<open>Otherwise the socket stops waiting for its descriptor.\<close>

lemma flush_completed:
  assumes inv: "adb_inv g" and s: "g_sockets g a = Some s" and loc: "is_local s" and c: "\<not> as_closing s"
    and i: "as_fde s = Some i" and q: "IOVector_open q" "IOVector_empty q \<or> we" and ch: "ev_changed i ev (g_ev g) e"
    and cons: "os_written (fd_os e) (as_fd s) @ IOVector_bytes q
      = os_written (fd_os (g_ev g)) (as_fd s) @ IOVector_bytes q0"
  shows "\<exists>g'. fde_del a FDE_WRITE (local_set a s q we e g) = Inr g' \<and> flush_result a s q0 g Completed g'"
proof -
  let ?g1 = "local_set a s q we e g" and ?s1 = "s\<lparr>as_has_write_error := we, as_queue := q\<rparr>"
  obtain fd f where v: "fdevents_inv (g_ev ?g1)" "fde_view (g_ev ?g1) i = Some (fd, ev, f)"
    using ch by (auto simp: ev_changed_def)
  have i1: "as_fde ?s1 = Some i" using i by simp
  obtain e' where e': "fde_del a FDE_WRITE ?g1 = Inr (?g1\<lparr>g_ev := e'\<rparr>)"
    "ev_changed i ((ev AND NOT FDE_WRITE) AND FDE_EVENTMASK) (g_ev ?g1) e'" "fd_os e' = fd_os (g_ev ?g1)"
    by (rule fde_del_changed [OF local_set_sock(1) i1 v])
  have ch': "ev_changed i ((ev AND NOT FDE_WRITE) AND FDE_EVENTMASK) (g_ev g) e'"
    using ev_changed_trans [OF ch] e'(2) by simp
  let ?g2 = "local_set a s q we e' g"
  have "adb_inv ?g2" "frame {a} g ?g2"
    using inv_local_set [OF inv s loc i q(1) ch'] q(2) event_bits(4) by auto
  then have "flush_result a s q0 g Completed ?g2"
    using flow_frame_set [of a g s q we e'] cons c q(2) e'(3)
    by (auto simp: flush_result_def intro!: exI [of _ q] exI [of _ we] exI [of _ e'])
  moreover have "fde_del a FDE_WRITE ?g1 = Inr ?g2" using e'(1) by (simp add: local_set_def)
  ultimately show ?thesis by (intro exI conjI)
qed

lemma flush_incoming_spec:
  assumes inv: "adb_inv g" and s: "g_sockets g a = Some s" and loc: "is_local s" and q0: "IOVector_open q0"
    and peer: "as_closing s \<or> as_peer s \<noteq> None"
  shows "\<exists>r g'. local_socket_flush_incoming close_socket a
                 (local_set a s q0 (as_has_write_error s) (g_ev g) g) = Inr (r, g')
             \<and> flush_result a s q0 g r g'"
proof -
  let ?s = "s\<lparr>as_has_write_error := as_has_write_error s, as_queue := q0\<rparr>"
  let ?g = "local_set a s q0 (as_has_write_error s) (g_ev g) g"
  have core: "local_core g a s" by (rule sock_local [OF inv s loc])
  obtain i where i: "as_fde s = Some i" by (rule local_coreD [OF core])
  obtain ev where v: "fde_view (g_ev g) i = Some (as_fd s, ev, local_socket_event_f a)"
    by (rule local_core_view [OF core i])
  have "\<exists>r q' we e. flush_queue a ?g = Inr (r, local_set a ?s q' we e ?g) \<and> flushed ?s i ev (g_ev ?g) r q' we e"
    by (rule flush_queue_spec) (use q0 i v inv_exD(1) [OF inv] in simp_all)
  then obtain r q we e where f: "flush_queue a ?g = Inr (r, local_set a s q we e g)"
      "flushed ?s i ev (g_ev g) r q we e" by (simp only: local_set_set local_set_sock(2)) metis
  let ?g1 = "local_set a s q we e g"
  have cons: "os_written (fd_os e) (as_fd s) @ IOVector_bytes q
      = os_written (fd_os (g_ev g)) (as_fd s) @ IOVector_bytes q0" and q: "IOVector_open q"
    using f(2) by (simp_all add: flushed_def)
  consider (again) "r = Some TryAgain" "ev_changed i ((ev OR FDE_WRITE) AND FDE_EVENTMASK) (g_ev g) e"
    | (go) "r = None" "IOVector_empty q \<or> we" "ev_changed i ev (g_ev g) e"
    using f(2) by (auto simp: flushed_def)
  then show ?thesis
  proof cases
    case again
    have "adb_inv ?g1" "frame {a} g ?g1"
      using inv_local_set [OF inv s loc i q again(2)] peer event_bits(3) by auto
    then have "flush_result a s q0 g TryAgain ?g1"
      using cons flow_frame_set [of a g s q we e] by (auto simp: flush_result_def)
    then show ?thesis using f(1) again(1) by (simp add: local_socket_flush_incoming_def)
  next
    case go
    have wp: "has ev FDE_WRITE \<and> \<not> as_closing s \<longrightarrow> as_peer s \<noteq> None" using peer by auto
    have inv1: "adb_inv ?g1" "frame {a} g ?g1"
      using inv_local_set [OF inv s loc i q go(3) _ wp] go(2) by auto
    have step: "local_socket_flush_incoming close_socket a ?g =
        (if as_closing s then rbind (close_socket a ?g1) (\<lambda>g2. Inr (Destroyed, g2))
         else rbind (fde_del a FDE_WRITE ?g1) (\<lambda>g2. Inr (Completed, g2)))"
      using f(1) go(1) by (simp add: local_socket_flush_incoming_def)
    show ?thesis
      using flush_closing [OF inv s loc _ inv1, of q0] flush_completed [OF inv s loc _ i q go(2,3) cons] step
      by (cases "as_closing s") auto
  qed
qed

end
