(* ===== verification/SocketCreate.thy ===== *)
theory SocketCreate
  imports SocketFlow
begin

text \<open>
  New sockets: a local socket for a descriptor, and the socket at the other end of its stream, be it
  a stream of a device, a smart socket or a device tracker.
\<close>

section \<open>Local sockets\<close>

lemma fresh_socket:
  assumes "inv_ex X g"
  shows "g_sockets g (g_next_socket g) = None" "g_next_socket g \<notin> set (g_local_list g)"
    "g_next_socket g \<notin> set (g_closing_list g)" "g_next_socket g \<notin> set (g_trackers g)"
proof -
  note D = inv_exD [OF assms]
  show n: "g_sockets g (g_next_socket g) = None"
    using D(2) unfolding socks_ok_def by (metis less_irrefl option.exhaust)
  show "g_next_socket g \<notin> set (g_local_list g)" "g_next_socket g \<notin> set (g_closing_list g)"
    using D(4) n unfolding lists_ok_def by auto
  show "g_next_socket g \<notin> set (g_trackers g)"
    using D(4) n unfolding lists_ok_def by fastforce
qed

lemma no_peer_fresh:
  assumes "adb_inv g" "g_sockets g c = Some u"
  shows "as_peer u \<noteq> Some (g_next_socket g)"
proof
  assume p: "as_peer u = Some (g_next_socket g)"
  obtain p where "g_sockets g (g_next_socket g) = Some p" by (rule peers_involution [OF assms p])
  then show False using fresh_socket(1) [OF assms(1)] by simp
qed

definition local_new :: "int \<Rightarrow> u32 \<Rightarrow> nat \<Rightarrow> asocket" where
  "local_new fd i e =
     (asocket_new local_socket_enqueue_f local_socket_ready_f None local_socket_close_f)
       \<lparr>as_id := i, as_fde := Some e, as_fd := fd\<rparr>"

definition created_local :: "int \<Rightarrow> adb \<Rightarrow> nat \<Rightarrow> adb \<Rightarrow> bool" where
  "created_local fd g i g' \<longleftrightarrow>
     g_sockets g' = (g_sockets g)(g_next_socket g \<mapsto> local_new fd (g_next_id g) i)
     \<and> g_next_socket g' = Suc (g_next_socket g) \<and> g_next_id g' = g_next_id g + 1
     \<and> g_local_list g' = g_local_list g @ [g_next_socket g] \<and> g_closing_list g' = g_closing_list g
     \<and> g_trackers g' = g_trackers g \<and> g_transports g' = g_transports g
     \<and> fde_view (g_ev g) i = None \<and> fdevents_inv (g_ev g') \<and> fd_os (g_ev g') = fd_os (g_ev g)
     \<and> fde_view (g_ev g') = (fde_view (g_ev g))(i \<mapsto> (fd, 0, local_socket_event_f (g_next_socket g)))
     \<and> adb_rest g' = adb_rest g"

lemma create_local_socket_eq:
  assumes inv: "adb_inv g" and fd: "fd \<ge> 0" "\<forall>i e f. fde_view (g_ev g) i \<noteq> Some (fd, e, f)"
  shows "if g_next_id g + 1 = 0 then create_local_socket fd g = Inl (Abort ''local socket id overflow'')
    else \<exists>i g'. create_local_socket fd g = Inr (g_next_socket g, g') \<and> created_local fd g i g'"
proof (cases "g_next_id g + 1 = 0")
  case True
  then show ?thesis
    by (simp add: create_local_socket_def sock_new_def install_local_socket_def)
next
  case False
  obtain i e where e: "fdevent_create fd (local_socket_event_f (g_next_socket g)) (g_ev g) = Inr (i, e)"
    "fde_view (g_ev g) i = None" "fdevents_inv e"
    "fde_view e = (fde_view (g_ev g))(i \<mapsto> (fd, 0, local_socket_event_f (g_next_socket g)))"
    "fde_rest e = fde_rest (g_ev g)" "fd_os e = fd_os (g_ev g)"
    by (rule fdevent_create_spec [OF inv_exD(1) [OF inv] fd])
  let ?g = "g\<lparr>g_sockets := (g_sockets g)(g_next_socket g \<mapsto> local_new fd (g_next_id g) i),
      g_next_socket := Suc (g_next_socket g), g_local_list := g_local_list g @ [g_next_socket g],
      g_next_id := g_next_id g + 1, g_ev := e\<rparr>"
  have "create_local_socket fd g = Inr (g_next_socket g, ?g)"
    using False e(1)
    by (simp add: create_local_socket_def sock_new_def install_local_socket_def local_new_def asocket_new_def)
  moreover have "created_local fd g i ?g"
    using e by (simp add: created_local_def adb_rest_def)
  ultimately show ?thesis using False by auto
qed

lemma unat_next: "(i :: u32) + 1 \<noteq> 0 \<Longrightarrow> unat (i + 1) = Suc (unat i)"
  by (simp add: unatSuc add.commute)

text \<open>An old socket is as well as before.\<close>

lemma created_local_others:
  assumes inv: "adb_inv g" and c: "created_local fd g i g'" and ovf: "g_next_id g + 1 \<noteq> 0"
    and u: "g_sockets g c = Some u"
  shows "sock_ok {} g' c u"
proof -
  have cn: "c \<noteq> g_next_socket g" using u fresh_socket(1) [OF inv] by auto
  have l: "c \<in> set (g_local_list g') \<longleftrightarrow> c \<in> set (g_local_list g)" "g_closing_list g' = g_closing_list g"
    "g_trackers g' = g_trackers g" "unat (g_next_id g') = Suc (unat (g_next_id g))"
    using c cn ovf by (auto simp: created_local_def unat_next)
  have v: "fde_view (g_ev g') j = fde_view (g_ev g) j" if "fde_view (g_ev g) j \<noteq> None" for j
    using c that by (auto simp: created_local_def)
  have ok: "sock_ok {} g c u" using inv_exD(2) [OF inv] u by (simp add: socks_ok_def)
  show ?thesis
  proof (cases "is_local u")
    case True
    have core: "local_core g c u" by (rule sock_local [OF inv u True])
    obtain j e where j: "as_fde u = Some j" "fde_view (g_ev g) j = Some (as_fd u, e, local_socket_event_f c)"
      by (rule local_coreD [OF core])
    then have vj: "fde_view (g_ev g') j = fde_view (g_ev g) j" using v by simp
    then have "local_core g' c u" using core l j(1) by (simp add: local_core_def)
    moreover have "local_settled g' u = local_settled g u" using vj j(1) by (simp add: local_settled_def wants_write_def)
    ultimately show ?thesis using settled_local [OF inv u True] by (simp add: sock_ok_def)
  next
    case False
    then have "other_core g c u" "as_peer u \<noteq> None" using sock_other [OF inv u] ok
      by (auto simp: sock_ok_def local_core_def)
    then show ?thesis using l cn by (simp add: sock_ok_def other_core_def)
  qed
qed

lemma local_new_props [simp]:
  "is_local (local_new fd i e)" "as_id (local_new fd i e) = i" "as_peer (local_new fd i e) = None"
  "as_fde (local_new fd i e) = Some e" "as_transport (local_new fd i e) = None" "\<not> as_closing (local_new fd i e)"
  "as_ready (local_new fd i e) = local_socket_ready_f" "as_queue (local_new fd i e) = IOVector_new"
  "as_fd (local_new fd i e) = fd" "\<not> as_has_write_error (local_new fd i e)"
  by (simp_all add: local_new_def asocket_new_def is_local_def)

lemma inv_created_local:
  assumes inv: "adb_inv g" and c: "created_local fd g i g'" and ovf: "g_next_id g + 1 \<noteq> 0"
    and fd: "fd \<in> set (os_open (fd_os (g_ev g)))"
  shows "adb_inv g'"
proof -
  note D = inv_exD [OF inv] and F = fresh_socket [OF inv]
  note C = c [unfolded created_local_def]
  let ?n = "g_next_socket g" and ?s = "local_new fd (g_next_id g) i"
  have nid: "unat (g_next_id g') = Suc (unat (g_next_id g))" using C unat_next [OF ovf] by simp
  have "sock_ok {} g' ?n ?s"
    using C F nid D(5)
    by (simp add: sock_ok_def local_core_def local_settled_def wants_write_def ids_ok_def IOVector_empty_iff)
  moreover have "sock_ok {} g' c u \<and> c < ?n" if "g_sockets g c = Some u" for c u
    using created_local_others [OF inv c ovf that] D(2) that by (simp add: socks_ok_def)
  ultimately have socks: "socks_ok {} g'" using C unfolding socks_ok_def by (auto split: if_splits intro: less_SucI)
  have peers: "peers_ok {} g'"
    unfolding peers_ok_def
  proof (intro allI impI)
    fix c u b assume h: "g_sockets g' c = Some u" "as_peer u = Some b"
    then have cu: "c \<noteq> ?n" "g_sockets g c = Some u" using C by (auto split: if_splits)
    obtain p where "b \<noteq> c" "g_sockets g b = Some p" "as_peer p = Some c" "is_local u \<or> is_local p"
      by (rule peers_involution [OF inv cu(2) h(2)])
    moreover from this have "b \<noteq> ?n" using F(1) by auto
    ultimately show "b \<noteq> c \<and> b \<notin> {} \<and> (\<exists>p. g_sockets g' b = Some p \<and> as_peer p = Some c \<and> (is_local u \<or> is_local p))"
      using C by simp
  qed
  have idlt: "unat (as_id u) < unat (g_next_id g)" if "c \<in> set (g_local_list g)" "g_sockets g c = Some u" for c u
    using sock_cases [OF inv that(2)] that(1) by (auto simp: local_core_def other_core_def)
  have "lists_ok g'" using D(4) F C unfolding lists_ok_def by auto
  moreover have "ids_ok g'"
    unfolding ids_ok_def
  proof (intro conjI allI impI)
    show "g_next_id g' \<noteq> 0" using C ovf by simp
    fix a b s p assume h: "a \<in> set (g_local_list g')" "b \<in> set (g_local_list g')"
      "g_sockets g' a = Some s" "g_sockets g' b = Some p" "as_id s = as_id p"
    then show "a = b"
      using D(5) C idlt [of a s] idlt [of b p] F unfolding ids_ok_def by (auto split: if_splits)
  qed
  moreover have nv: "fde_view (g_ev g) j \<noteq> Some (fd', e, local_socket_event_f ?n)" for j fd' e
    using D(6) F(1) unfolding fdes_ok_def by fastforce
  have "fdes_ok g'" using D(6) C fd nv unfolding fdes_ok_def by (auto split: if_splits)
  moreover have "tports_ok g'" using D(7) C unfolding tports_ok_def by (auto split: if_splits)
  ultimately show ?thesis using socks peers C by (simp add: inv_ex_def)
qed

section \<open>The other end of a stream\<close>

definition linked :: "nat \<Rightarrow> asocket \<Rightarrow> asocket \<Rightarrow> adb \<Rightarrow> adb \<Rightarrow> bool" where
  "linked a s p g g' \<longleftrightarrow>
     g_sockets g' = (g_sockets g)(a \<mapsto> (reset_slots s)\<lparr>as_peer := Some (g_next_socket g)\<rparr>, g_next_socket g \<mapsto> p)
     \<and> g_next_socket g' = Suc (g_next_socket g) \<and> g_next_id g' = g_next_id g
     \<and> g_local_list g' = g_local_list g \<and> g_closing_list g' = g_closing_list g
     \<and> g_trackers g' = (if is_tracker p then g_next_socket g # g_trackers g else g_trackers g)
     \<and> g_transports g' = g_transports g \<and> g_ev g' = g_ev g"

lemma reset_slots_simps [simp]:
  "as_id (reset_slots s) = as_id s" "as_closing (reset_slots s) = as_closing s" "as_queue (reset_slots s) = as_queue s"
  "as_fde (reset_slots s) = as_fde s" "as_fd (reset_slots s) = as_fd s" "as_peer (reset_slots s) = as_peer s"
  "as_has_write_error (reset_slots s) = as_has_write_error s" "as_transport (reset_slots s) = as_transport s"
  "as_ready (reset_slots s) = local_socket_ready_f"
  by (simp_all add: reset_slots_def)

lemma reset_slots_id: "is_local s \<Longrightarrow> as_ready s = local_socket_ready_f \<Longrightarrow> reset_slots s = s"
  by (auto simp: is_local_def reset_slots_def)

lemma inv_linked:
  assumes inv: "adb_inv g" and s: "g_sockets g a = Some s" and loc: "is_local s" and peer: "as_peer s = None"
    and nc: "\<not> as_closing s" and l: "linked a s p g g'"
    and p: "is_remote p \<or> is_smart p \<or> is_tracker p" "as_peer p = Some a" "\<not> as_closing p" "as_fde p = None"
      "\<And>t. as_transport p = Some t \<Longrightarrow> g_transports g t \<noteq> None"
  shows "adb_inv g'"
proof -
  note D = inv_exD [OF inv] and F = fresh_socket [OF inv]
  let ?n = "g_next_socket g" and ?s = "(reset_slots s)\<lparr>as_peer := Some (g_next_socket g)\<rparr>"
  have gs: "g_sockets g' = (g_sockets g)(a \<mapsto> ?s, ?n \<mapsto> p)" and nx: "g_next_socket g' = Suc ?n"
    and tr: "set (g_trackers g') = (if is_tracker p then {?n} else {}) \<union> set (g_trackers g)"
    and dt: "distinct (g_trackers g) \<Longrightarrow> distinct (g_trackers g')"
    and L: "g_next_id g' = g_next_id g" "g_local_list g' = g_local_list g" "g_closing_list g' = g_closing_list g"
      "g_transports g' = g_transports g" "g_ev g' = g_ev g"
    using l F(4) by (simp_all add: linked_def)
  have an: "a \<noteq> ?n" using s F(1) by auto
  have locs: "is_local ?s" using is_local_reset [OF loc] by simp
  have nlp: "\<not> is_local p" using p(1) kinds_disjoint by blast
  have core: "local_core g a s" by (rule sock_local [OF inv s loc])
  have oka: "sock_ok {} g' a ?s"
    using core locs L nc by (simp add: sock_ok_def local_core_def local_settled_def)
  have okn: "sock_ok {} g' ?n p"
    using p L F(2,3) tr by (auto simp: sock_ok_def other_core_def)
  have okc: "sock_ok {} g' c u" if "sock_ok {} g c u" "c \<noteq> ?n" for c u
    using that L tr by (auto simp: sock_ok_def local_core_def local_settled_def wants_write_def other_core_def)
  have socks: "socks_ok {} g'"
    unfolding socks_ok_def
  proof (intro allI impI)
    fix c u assume "g_sockets g' c = Some u"
    then consider "c = ?n" "u = p" | "c = a" "u = ?s" | "c \<noteq> ?n" "g_sockets g c = Some u"
      unfolding gs by (metis fun_upd_apply option.inject)
    then show "c < g_next_socket g' \<and> sock_ok {} g' c u"
    proof cases
      case 1
      then show ?thesis using okn nx by simp
    next
      case 2
      then show ?thesis using oka nx D(2) s by (simp add: socks_ok_def less_SucI)
    next
      case 3
      then show ?thesis using okc nx D(2) by (simp add: socks_ok_def less_SucI)
    qed
  qed
  have peers: "peers_ok {} g'"
    unfolding peers_ok_def
  proof (intro allI impI)
    fix c u b assume h: "g_sockets g' c = Some u" "as_peer u = Some b"
    consider "c = ?n" | "c = a" | "c \<noteq> ?n" "c \<noteq> a" by blast
    then show "b \<noteq> c \<and> b \<notin> {} \<and> (\<exists>q. g_sockets g' b = Some q \<and> as_peer q = Some c \<and> (is_local u \<or> is_local q))"
    proof cases
      case 3
      then have u: "g_sockets g c = Some u" using h gs by simp
      obtain q where q: "b \<noteq> c" "g_sockets g b = Some q" "as_peer q = Some c" "is_local u \<or> is_local q"
        by (rule peers_involution [OF inv u h(2)])
      then have "b \<noteq> ?n" "b \<noteq> a" using F(1) s peer by auto
      then show ?thesis using q gs by simp
    next
      case 2
      then have "u = ?s" using h gs an by simp
      then show ?thesis using 2 h gs an p locs by simp
    qed (use h gs an p locs in simp)
  qed
  have old: "\<exists>u'. g_sockets g' c = Some u' \<and> as_id u' = as_id u \<and> as_fde u' = as_fde u \<and> (is_tracker u \<longrightarrow> is_tracker u')"
    if "g_sockets g c = Some u" for c u
    using that gs s F(1) kinds_disjoint loc by auto
  have was: "\<exists>u'. g_sockets g c = Some u' \<and> as_id u' = as_id u \<and> as_transport u' = as_transport u \<and> as_closing u' = as_closing u"
    if "g_sockets g' c = Some u" "c \<noteq> ?n" for c u
    using that gs s by (cases "c = a") auto
  have "\<exists>u. g_sockets g' c = Some u \<and> is_tracker u" if "c \<in> set (g_trackers g')" for c
  proof (cases "c \<in> set (g_trackers g)")
    case True
    then show ?thesis using D(4) old unfolding lists_ok_def by metis
  next
    case False
    then show ?thesis using that tr gs by (simp split: if_splits)
  qed
  then have "lists_ok g'"
    using D(4) L(2,3) dt unfolding lists_ok_def gs by auto
  moreover have "ids_ok g'"
    unfolding ids_ok_def
  proof (intro conjI allI impI)
    show "g_next_id g' \<noteq> 0" using D(5) L by (simp add: ids_ok_def)
    fix c d u v
    assume h: "c \<in> set (g_local_list g')" "d \<in> set (g_local_list g')" "g_sockets g' c = Some u"
      "g_sockets g' d = Some v" "as_id u = as_id v"
    then have "c \<noteq> ?n" "d \<noteq> ?n" using L F(2) by auto
    then obtain u' v' where "g_sockets g c = Some u'" "g_sockets g d = Some v'" "as_id u' = as_id v'"
      using was [OF h(3)] was [OF h(4)] h(5) by auto
    then show "c = d" using D(5) h(1,2) unfolding ids_ok_def L by blast
  qed
  moreover have "fdes_ok g'"
    unfolding fdes_ok_def
  proof (intro allI impI conjI)
    fix i fd ev f assume v: "fde_view (g_ev g') i = Some (fd, ev, f)"
    then show "fd \<in> set (os_open (fd_os (g_ev g')))" using D(6) L by (auto simp: fdes_ok_def)
    fix c assume "f = local_socket_event_f c"
    then obtain u where "g_sockets g c = Some u" "as_fde u = Some i" using D(6) L v unfolding fdes_ok_def by metis
    then show "\<exists>u. g_sockets g' c = Some u \<and> as_fde u = Some i" using old by metis
  qed
  moreover have "tports_ok g'"
    unfolding tports_ok_def
  proof (intro allI impI conjI)
    fix c u t assume h: "g_sockets g' c = Some u" "as_transport u = Some t"
    show "g_transports g' t \<noteq> None"
    proof (cases "c = ?n")
      case True
      then show ?thesis using h gs p(5) L by simp
    next
      case False
      then show ?thesis using was [OF h(1)] h D(7) L unfolding tports_ok_def by metis
    qed
  qed (use D(7) L in \<open>simp add: tports_ok_def\<close>)
  ultimately show ?thesis using D(1) L socks peers by (simp add: inv_ex_def)
qed

end
