(* ===== verification/SocketSpec.thy ===== *)
theory SocketSpec
  imports Transport
begin

text \<open>
  \<open>socket_spec.cpp\<close>: addresses of the form \<open>tcp:port\<close>, \<open>tcp:host:port\<close> and \<open>local...:name\<close>, and the
  network calls they are turned into.
\<close>

record LocalSocketType =
  socket_namespace :: nat
  available :: bool

definition ANDROID_SOCKET_NAMESPACE_ABSTRACT :: nat where "ANDROID_SOCKET_NAMESPACE_ABSTRACT = 0"
definition ANDROID_SOCKET_NAMESPACE_RESERVED :: nat where "ANDROID_SOCKET_NAMESPACE_RESERVED = 1"
definition ANDROID_SOCKET_NAMESPACE_FILESYSTEM :: nat where "ANDROID_SOCKET_NAMESPACE_FILESYSTEM = 2"

text \<open>The table for a host build on Linux. No two of the names with a colon are prefixes of each
  other, so the order in which the \<open>unordered_map\<close> is searched does not matter.\<close>

definition kLocalSocketTypes :: "(string \<times> LocalSocketType) list" where
  "kLocalSocketTypes =
     [(''local'', \<lparr>socket_namespace = ANDROID_SOCKET_NAMESPACE_FILESYSTEM, available = True\<rparr>),
      (''localreserved'', \<lparr>socket_namespace = ANDROID_SOCKET_NAMESPACE_RESERVED, available = False\<rparr>),
      (''localabstract'', \<lparr>socket_namespace = ANDROID_SOCKET_NAMESPACE_ABSTRACT, available = True\<rparr>),
      (''localfilesystem'', \<lparr>socket_namespace = ANDROID_SOCKET_NAMESPACE_FILESYSTEM, available = True\<rparr>)]"

definition local_type_of :: "string \<Rightarrow> (string \<times> LocalSocketType) option" where
  "local_type_of spec = find (\<lambda>it. StartsWith spec (fst it @ '':'')) kLocalSocketTypes"

definition parse_tcp_socket_spec :: "string \<Rightarrow> (string + string \<times> int) res" where
  "parse_tcp_socket_spec spec =
     (if \<not> StartsWith spec ''tcp:'' then Inr (Inl (''specification is not tcp: '' @ quoted spec))
      else case ParseInt_int (drop 4 spec) of
        Some port_value \<Rightarrow>
          if port_value < 0 \<or> port_value > 65535
          then Inr (Inl (''bad port number '' @ quoted (dec port_value)))
          else Inr (Inr ([], port_value))
      | None \<Rightarrow>
          rbind (ParseNetAddress (drop 4 spec) (-1)) (\<lambda>r.
          case r of
            Inl error \<Rightarrow> Inr (Inl error)
          | Inr (hostname_value, port_value, _) \<Rightarrow>
              if port_value = -1 then Inr (Inl (''missing port in specification: '' @ quoted spec))
              else Inr (Inr (hostname_value, port_value))))"

definition tcp_host_is_local :: "string \<Rightarrow> bool" where
  "tcp_host_is_local hostname \<longleftrightarrow> hostname = [] \<or> hostname = ''localhost''"

definition is_socket_spec :: "string \<Rightarrow> bool" where
  "is_socket_spec spec \<longleftrightarrow> local_type_of spec \<noteq> None \<or> StartsWith spec ''tcp:''"

definition is_local_socket_spec :: "string \<Rightarrow> bool res" where
  "is_local_socket_spec spec =
     (if local_type_of spec \<noteq> None then Inr True
      else rbind (parse_tcp_socket_spec spec) (\<lambda>r.
           Inr (case r of Inl _ \<Rightarrow> False | Inr (hostname, _) \<Rightarrow> tcp_host_is_local hostname)))"

definition socket_spec_connect :: "host_env \<Rightarrow> string \<Rightarrow> os \<Rightarrow> ((string + int) \<times> os) res" where
  "socket_spec_connect env spec w =
     (if StartsWith spec ''tcp:'' then
        rbind (parse_tcp_socket_spec spec) (\<lambda>r.
        case r of
          Inl error \<Rightarrow> Inr (Inl error, w)
        | Inr (hostname, port) \<Rightarrow>
            Inr (env_network env
                   (if tcp_host_is_local hostname then network_loopback_client_r port
                    else network_connect_r hostname port) w))
      else case local_type_of spec of
        Some (name, ty) \<Rightarrow>
          if \<not> available ty
          then Inr (Inl (''socket type '' @ name @ '' is unavailable on this platform''), w)
          else Inr (env_network env
                      (network_local_client_r (c_str (drop (length name + 1) spec)) (socket_namespace ty)) w)
      | None \<Rightarrow> Inr (Inl (''unknown socket specification '' @ quoted spec), w))"

text \<open>The descriptor, and the port in \<open>*resolved_tcp_port\<close> if it is set.\<close>

definition socket_spec_listen ::
  "host_env \<Rightarrow> string \<Rightarrow> os \<Rightarrow> ((string + int \<times> int option) \<times> os) res" where
  "socket_spec_listen env spec w =
     (if StartsWith spec ''tcp:'' then
        rbind (parse_tcp_socket_spec spec) (\<lambda>r.
        case r of
          Inl error \<Rightarrow> Inr (Inl error, w)
        | Inr (hostname, port) \<Rightarrow>
            (let listen_on = (\<lambda>request. case env_network env request w of
                   (Inl error, w1) \<Rightarrow> Inr (Inl error, w1)
                 | (Inr fd, w1) \<Rightarrow>
                     Inr (Inr (fd, if port = 0 then Some (env_local_port env fd) else None), w1))
             in if hostname = [] \<and> env_listen_all env then listen_on (network_inaddr_any_server_r port)
                else if tcp_host_is_local hostname then listen_on (network_loopback_server_r port)
                else Inr (Inl ''listening on specified hostname currently unsupported'', w)))
      else case local_type_of spec of
        Some (name, ty) \<Rightarrow>
          if \<not> available ty
          then Inr (Inl (''attempted to listen on unavailable socket type: '' @ quoted spec), w)
          else (case env_network env
                  (network_local_server_r (c_str (drop (length name + 1) spec)) (socket_namespace ty)) w of
                  (Inl error, w1) \<Rightarrow> Inr (Inl error, w1)
                | (Inr fd, w1) \<Rightarrow> Inr (Inr (fd, None), w1))
      | None \<Rightarrow> Inr (Inl (''unknown socket specification '' @ quoted spec), w))"

section \<open>Parsing\<close>

lemma mem_dropWhile: "x \<in> set s \<Longrightarrow> \<not> P x \<Longrightarrow> x \<in> set (dropWhile P s)"
  by (induction s) auto

lemma scan_digits_keeps:
  "x \<in> set s \<Longrightarrow> digit_val base x = None \<Longrightarrow> x \<in> set (snd (scan_digits base acc s))"
  by (induction base acc s rule: scan_digits.induct) (auto split: option.splits)

lemma strto_subject_keeps:
  assumes "strto_subject base s = Some (neg, n, rest)" "CHR '':'' \<in> set (c_str s)" "base \<noteq> 0"
  shows "CHR '':'' \<in> set rest"
proof -
  define s1 where "s1 = dropWhile isspace (c_str s)"
  define s2 where "s2 = (if s1 \<noteq> [] \<and> (hd s1 = CHR ''-'' \<or> hd s1 = CHR ''+'') then tl s1 else s1)"
  define s3 where "s3 = (if base = 16 \<and> hex_prefix s2 then drop 2 s2 else s2)"
  have "CHR '':'' \<in> set s1" unfolding s1_def by (rule mem_dropWhile [OF assms(2)]) (simp add: isspace_def)
  then have "CHR '':'' \<in> set s2" by (cases s1) (auto simp: s2_def)
  then have s3: "CHR '':'' \<in> set s3" by (auto simp: s3_def hex_prefix_def split: list.splits)
  have "digit_val b (CHR '':'') = None" for b
    by (simp add: digit_val_def isdigit_def islower_def isupper_def Let_def)
  from scan_digits_keeps [OF s3 this] have "CHR '':'' \<in> set (snd (scan_digits base 0 s3))" .
  moreover have "rest = snd (scan_digits base 0 s3)"
    using assms(1,3) unfolding strto_subject_def Let_def s1_def [symmetric] s2_def [symmetric]
    by (auto simp: s3_def split: list.splits if_splits prod.splits)
  ultimately show ?thesis by simp
qed

lemma ParseInt_colon:
  assumes "CHR '':'' \<in> set (c_str s)"
  shows "ParseInt mn mx s = None"
proof -
  obtain v er rest where r: "strtoll (parse_base (c_str s)) s = (v, er, rest)" by (metis surj_pair)
  have "parse_base (c_str s) \<noteq> 0" by (simp add: parse_base_def split: list.split)
  then have "rest \<noteq> []"
    using r strto_subject_keeps [OF _ assms, of "parse_base (c_str s)"] assms
    by (cases "strto_subject (parse_base (c_str s)) s") (auto simp: strtoll_def Let_def split: if_splits)
  then show ?thesis using r by (simp add: ParseInt_def)
qed

lemma StartsWith_append: "NUL \<notin> set p \<Longrightarrow> NUL \<notin> set s \<Longrightarrow> StartsWith (p @ s) p"
  by (simp add: StartsWith_def strncmp_eq_def)

lemma dec_no_NUL: "NUL \<notin> set (dec p)"
  by (metis c_str_dec c_str_no_NUL)

lemma ParseNetAddress_port:
  "ParseNetAddress a q = Inr (Inr (h, p, canon)) \<Longrightarrow> p = q \<or> 0 < p \<and> p \<le> 65535"
  by (auto simp: ParseNetAddress_def Let_def split: sum.splits if_splits option.splits)

lemma parse_tcp_range:
  assumes "parse_tcp_socket_spec spec = Inr (Inr (host, port))"
  shows "0 \<le> port \<and> port \<le> 65535"
  using assms ParseNetAddress_port [of "drop 4 spec" "-1" host port]
  by (auto simp: parse_tcp_socket_spec_def split: if_splits option.splits sum.splits)

lemma tcp_prefix: "NUL \<notin> set s \<Longrightarrow> StartsWith (''tcp:'' @ s) ''tcp:''"
  by (rule StartsWith_append) (simp_all add: NUL_def)

lemma parse_tcp_port:
  assumes "INT_MIN \<le> p" "p \<le> INT_MAX"
  shows "parse_tcp_socket_spec (''tcp:'' @ dec p) =
     (if p < 0 \<or> 65535 < p then Inr (Inl (''bad port number '' @ quoted (dec p))) else Inr (Inr ([], p)))"
proof -
  have "ParseInt_int (dec p) = Some p"
    using assms by (intro ParseInt_dec) (simp_all add: INT_MIN_def INT_MAX_def LLONG_MIN_def LLONG_MAX_def)
  then show ?thesis using tcp_prefix [OF dec_no_NUL [of p]] by (simp add: parse_tcp_socket_spec_def)
qed

lemma parse_tcp_host_port:
  assumes "0 < p" "p \<le> 65535" "h \<noteq> []" "CHR '':'' \<notin> set h" "hd h \<noteq> CHR ''[''" "NUL \<notin> set h"
  shows "parse_tcp_socket_spec (''tcp:'' @ h @ '':'' @ dec p) = Inr (Inr (h, p))"
proof -
  have n: "NUL \<notin> set (h @ '':'' @ dec p)" using assms(6) dec_no_NUL [of p] by (simp add: NUL_def)
  then have "ParseInt_int (h @ '':'' @ dec p) = None" by (intro ParseInt_colon) simp
  moreover have "ParseNetAddress (h @ '':'' @ dec p) (-1) = Inr (Inr (h, p, h @ '':'' @ dec p))"
    by (rule ParseNetAddress_plain [OF assms(3-6,1,2)])
  ultimately show ?thesis using tcp_prefix [OF n] assms(1) by (simp add: parse_tcp_socket_spec_def)
qed



section \<open>Connecting\<close>

text \<open>The requests that stay on this machine.\<close>

fun local_request :: "net_request \<Rightarrow> bool" where
  "local_request (network_connect_r h p) = False"
| "local_request _ = True"

lemma StartsWith_hd:
  assumes "StartsWith spec p" "p \<noteq> []" "NUL \<notin> set p"
  shows "hd (c_str spec) = hd p"
proof -
  have "take (length p) (c_str spec) = p" using assms by (simp add: StartsWith_def strncmp_eq_def)
  then show ?thesis using assms(2) by (metis hd_append2 append_take_drop_id)
qed

lemma tcp_not_local_type: "StartsWith spec ''tcp:'' \<Longrightarrow> local_type_of spec = None"
proof (rule ccontr)
  assume t: "StartsWith spec ''tcp:''" and "local_type_of spec \<noteq> None"
  then obtain it where "find (\<lambda>it. StartsWith spec (fst it @ '':'')) kLocalSocketTypes = Some it"
    unfolding local_type_of_def by blast
  then have it: "it \<in> set kLocalSocketTypes" "StartsWith spec (fst it @ '':'')"
    by (auto simp: find_Some_iff intro: nth_mem)
  from it(1) have "fst it @ '':'' \<noteq> []" "NUL \<notin> set (fst it @ '':'')" "hd (fst it @ '':'') = CHR ''l''"
    by (auto simp: kLocalSocketTypes_def NUL_def)
  then have "hd (c_str spec) = CHR ''l''" using StartsWith_hd [OF it(2)] by simp
  moreover have "hd (c_str spec) = CHR ''t''" using StartsWith_hd [OF t] by (simp add: NUL_def)
  ultimately show False by simp
qed

lemma parse_tcp_prefix: "parse_tcp_socket_spec spec = Inr (Inr r) \<Longrightarrow> StartsWith spec ''tcp:''"
  by (auto simp: parse_tcp_socket_spec_def split: if_splits)

text \<open>
  Property C15. A specification that \<open>is_local_socket_spec\<close> accepts never leaves the machine: connecting
  to it makes one loopback or local request, or fails before any request is made. A specification that
  \<open>is_socket_spec\<close> refuses is never connected to.
\<close>

theorem local_spec_stays_local:
  "(is_local_socket_spec spec = Inr True \<longrightarrow>
      (\<exists>e. socket_spec_connect env spec w = Inr (Inl e, w))
      \<or> (\<exists>r. local_request r \<and> socket_spec_connect env spec w = Inr (env_network env r w)))
   \<and> (\<not> is_socket_spec spec \<longrightarrow>
        socket_spec_connect env spec w = Inr (Inl (''unknown socket specification '' @ quoted spec), w))"
proof (intro conjI impI)
  assume l: "is_local_socket_spec spec = Inr True"
  show "(\<exists>e. socket_spec_connect env spec w = Inr (Inl e, w))
      \<or> (\<exists>r. local_request r \<and> socket_spec_connect env spec w = Inr (env_network env r w))"
  proof (cases "local_type_of spec")
    case None
    then obtain h p where hp: "parse_tcp_socket_spec spec = Inr (Inr (h, p))" "tcp_host_is_local h"
      using l by (auto simp: is_local_socket_spec_def split: sum.splits)
    then have "socket_spec_connect env spec w = Inr (env_network env (network_loopback_client_r p) w)"
      using parse_tcp_prefix [OF hp(1)] by (simp add: socket_spec_connect_def)
    then show ?thesis using local_request.simps(2) by blast
  next
    case (Some nt)
    obtain n ty where nt: "nt = (n, ty)" by (cases nt)
    have "\<not> StartsWith spec ''tcp:''" using Some tcp_not_local_type by auto
    then show ?thesis using Some nt
      by (cases "available ty") (auto simp: socket_spec_connect_def intro!: exI [of _ "network_local_client_r _ _"])
  qed
next
  assume "\<not> is_socket_spec spec"
  then have "local_type_of spec = None" "\<not> StartsWith spec ''tcp:''"
    unfolding is_socket_spec_def by blast+
  then show "socket_spec_connect env spec w
      = Inr (Inl (''unknown socket specification '' @ quoted spec), w)"
    by (simp add: socket_spec_connect_def)
qed

theorem local_spec_stays_local_witness:
  "is_local_socket_spec ''localabstract:jdwp'' = Inr True
   \<and> ((\<exists>e. socket_spec_connect plain_env ''localabstract:jdwp'' os_init = Inr (Inl e, os_init))
      \<or> (\<exists>r. local_request r
            \<and> socket_spec_connect plain_env ''localabstract:jdwp'' os_init = Inr (env_network plain_env r os_init)))
   \<and> socket_spec_connect plain_env ''udp:1'' os_init
       = Inr (Inl (''unknown socket specification '' @ quoted ''udp:1''), os_init)"
proof -
  have "is_local_socket_spec ''localabstract:jdwp'' = Inr True" "\<not> is_socket_spec ''udp:1''"
    by (simp_all add: is_local_socket_spec_def is_socket_spec_def local_type_of_def kLocalSocketTypes_def
        StartsWith_def strncmp_eq_def c_str_def NUL_def)
  then show ?thesis
    using local_spec_stays_local [of "''localabstract:jdwp''" plain_env os_init]
      local_spec_stays_local [of "''udp:1''" plain_env os_init] by simp
qed

end
