(* ===== verification/Listeners.thy ===== *)
theory Listeners
  imports Sockets SocketSpec
begin

text \<open>
  \<open>adb_listeners.cpp\<close>: the listening sockets of the server, that of the clients (the smart socket
  listener) and those of port forwarding, which belong to a transport and go away with it.
\<close>

section \<open>Access to listeners\<close>

definition lst :: "nat \<Rightarrow> adb \<Rightarrow> alistener res" where
  "lst l g = (case g_listeners g l of None \<Rightarrow> Inl UseAfterFree | Some x \<Rightarrow> Inr x)"

definition lst_upd :: "nat \<Rightarrow> (alistener \<Rightarrow> alistener) \<Rightarrow> adb \<Rightarrow> adb res" where
  "lst_upd l f g = rbind (lst l g) (\<lambda>x. Inr (g\<lparr>g_listeners := (g_listeners g)(l \<mapsto> f x)\<rparr>))"

text \<open>Lifting a call that may crash, or that works on descriptors only.\<close>

definition os_res :: "(os \<Rightarrow> ('a \<times> os) res) \<Rightarrow> adb \<Rightarrow> ('a \<times> adb) res" where
  "os_res f g = rbind (f (fd_os (g_ev g))) (\<lambda>(x, w). Inr (x, g\<lparr>g_ev := (g_ev g)\<lparr>fd_os := w\<rparr>\<rparr>))"

section \<open>Disconnect callbacks of a transport\<close>

text \<open>The only function ever registered is \<open>listener_disconnect\<close>; the entries are its arguments.\<close>

definition AddDisconnect :: "nat \<Rightarrow> nat \<Rightarrow> adb \<Rightarrow> adb res" where
  "AddDisconnect t l g = tport_upd t (\<lambda>x. x\<lparr>at_disconnects := at_disconnects x @ [l]\<rparr>) g"

definition RemoveDisconnect :: "nat \<Rightarrow> nat \<Rightarrow> adb \<Rightarrow> adb res" where
  "RemoveDisconnect t l g = tport_upd t (\<lambda>x. x\<lparr>at_disconnects := filter (\<lambda>m. m \<noteq> l) (at_disconnects x)\<rparr>) g"

section \<open>Life cycle of a listener\<close>

text \<open>The destructor, and the end of the object.\<close>

definition alistener_delete :: "nat \<Rightarrow> adb \<Rightarrow> adb res" where
  "alistener_delete l g =
     rbind (lst l g) (\<lambda>x.
     rbind (case al_fde x of None \<Rightarrow> Inr g | Some i \<Rightarrow> ev_do (fdevent_destroy i) g) (\<lambda>g1.
     rbind (case al_transport x of None \<Rightarrow> Inr g1 | Some t \<Rightarrow> RemoveDisconnect t l g1) (\<lambda>g2.
     Inr (g2\<lparr>g_listeners := (g_listeners g2)(l := None)\<rparr>))))"

text \<open>\<open>listener_list.erase\<close>.\<close>

definition listener_erase :: "nat \<Rightarrow> adb \<Rightarrow> adb res" where
  "listener_erase l g = alistener_delete l (g\<lparr>g_listener_list := filter (\<lambda>m. m \<noteq> l) (g_listener_list g)\<rparr>)"

definition listener_disconnect :: "nat \<Rightarrow> adb \<Rightarrow> adb res" where
  "listener_disconnect l g =
     (if l \<in> set (g_listener_list g)
      then rbind (lst_upd l (\<lambda>x. x\<lparr>al_transport := None\<rparr>) g) (listener_erase l)
      else Inr g)"

fun disconnect_each :: "nat list \<Rightarrow> adb \<Rightarrow> adb res" where
  "disconnect_each [] g = Inr g"
| "disconnect_each (l # ls) g = rbind (listener_disconnect l g) (disconnect_each ls)"

definition RunDisconnects :: "nat \<Rightarrow> adb \<Rightarrow> adb res" where
  "RunDisconnects t g =
     rbind (tport t g) (\<lambda>x.
     rbind (disconnect_each (at_disconnects x) g)
       (tport_upd t (\<lambda>x. x\<lparr>at_disconnects := []\<rparr>)))"

section \<open>Connections\<close>

definition ss_listener_event_func ::
  "host_env \<Rightarrow> (nat \<Rightarrow> Block \<Rightarrow> adb \<Rightarrow> (int \<times> adb) res) \<Rightarrow> u16 \<Rightarrow> adb \<Rightarrow> adb res" where
  "ss_listener_event_func env smart ev g =
     (if has ev FDE_READ then
        (let (fd, g1) = os_do new_fd g
         in if fd < 0 then Inr g1
            else rbind (create_local_socket fd g1) (\<lambda>(s, g2). connect_to_smartsocket env smart s g2))
      else Inr g)"

definition listener_event_func :: "u16 \<Rightarrow> nat \<Rightarrow> adb \<Rightarrow> adb res" where
  "listener_event_func ev l g =
     (if has ev FDE_READ then
        (let (fd, g1) = os_do new_fd g
         in if fd < 0 then Inr g1
            else rbind (create_local_socket fd g1) (\<lambda>(s, g2).
                 rbind (lst l g2) (\<lambda>x.
                 rbind (sock_upd s (\<lambda>a. a\<lparr>as_transport := al_transport x\<rparr>) g2) (\<lambda>g3.
                 connect_to_remote s (c_str (al_connect_to x)) g3))))
      else Inr g)"

section \<open>Requests\<close>

text \<open>Special listeners have a target that starts with a star.\<close>

definition special :: "alistener \<Rightarrow> bool" where
  "special x \<longleftrightarrow> al_connect_to x \<noteq> [] \<and> hd (al_connect_to x) = CHR ''*''"

fun format_loop :: "adb \<Rightarrow> nat list \<Rightarrow> string \<Rightarrow> string res" where
  "format_loop g [] result = Inr result"
| "format_loop g (l # ls) result =
     rbind (lst l g) (\<lambda>x.
     if special x then format_loop g ls result
     else
       rbind (nonnull (al_transport x)) (\<lambda>t.
       rbind (tport t g) (\<lambda>tr.
       format_loop g ls
         (result @ (if at_serial tr \<noteq> [] then c_str (at_serial tr) else ''(reverse)'') @ '' ''
          @ c_str (al_local_name x) @ '' '' @ c_str (al_connect_to x) @ [CHR 0x0A]))))"

definition format_listeners :: "adb \<Rightarrow> string res" where
  "format_listeners g = format_loop g (g_listener_list g) []"

datatype InstallStatus = INSTALL_STATUS_OK | INSTALL_STATUS_INTERNAL_ERROR | INSTALL_STATUS_CANNOT_BIND
  | INSTALL_STATUS_CANNOT_REBIND | INSTALL_STATUS_LISTENER_NOT_FOUND

text \<open>The first listener of that name.\<close>

fun find_listener :: "string \<Rightarrow> adb \<Rightarrow> nat list \<Rightarrow> nat option res" where
  "find_listener local_name g [] = Inr None"
| "find_listener local_name g (l # ls) =
     rbind (lst l g) (\<lambda>x. if local_name = al_local_name x then Inr (Some l) else find_listener local_name g ls)"

text \<open>The parameter \<open>transport\<close> of \<open>remove_listener\<close> is not used.\<close>

definition remove_listener :: "string \<Rightarrow> nat \<Rightarrow> adb \<Rightarrow> (InstallStatus \<times> adb) res" where
  "remove_listener local_name transport g =
     rbind (find_listener (c_str local_name) g (g_listener_list g)) (\<lambda>r.
     case r of
       None \<Rightarrow> Inr (INSTALL_STATUS_LISTENER_NOT_FOUND, g)
     | Some l \<Rightarrow> rbind (listener_erase l g) (\<lambda>g1. Inr (INSTALL_STATUS_OK, g1)))"

fun remove_each :: "nat list \<Rightarrow> adb \<Rightarrow> adb res" where
  "remove_each [] g = Inr g"
| "remove_each (l # ls) g =
     rbind (lst l g) (\<lambda>x.
     if special x then remove_each ls g else rbind (listener_erase l g) (remove_each ls))"

definition remove_all_listeners :: "adb \<Rightarrow> adb res" where
  "remove_all_listeners g = remove_each (g_listener_list g) g"

fun close_smart_each :: "nat list \<Rightarrow> adb \<Rightarrow> adb res" where
  "close_smart_each [] g = Inr g"
| "close_smart_each (l # ls) g =
     rbind (lst l g) (\<lambda>x.
     if al_local_name x = ''*smartsocket*'' then rbind (listener_erase l g) (close_smart_each ls)
     else close_smart_each ls g)"

definition close_smartsockets :: "adb \<Rightarrow> adb res" where
  "close_smartsockets g = close_smart_each (g_listener_list g) g"

text \<open>
  \<open>install_listener\<close>, in two parts: a listener of that name exists already, or a new one is made. The
  result is the status, the value of \<open>*error\<close> when it is set, and that of \<open>*resolved_tcp_port\<close>.
\<close>

definition rebind_listener ::
  "nat \<Rightarrow> string \<Rightarrow> nat option \<Rightarrow> bool \<Rightarrow> adb \<Rightarrow> ((InstallStatus \<times> string option \<times> int) \<times> adb) res" where
  "rebind_listener l connect_to transport no_rebind g =
     rbind (lst l g) (\<lambda>x.
     if special x then Inr ((INSTALL_STATUS_INTERNAL_ERROR, Some ''cannot repurpose smartsocket'', 0), g)
     else if no_rebind then Inr ((INSTALL_STATUS_CANNOT_REBIND, Some ''cannot rebind'', 0), g)
     else
       rbind (lst_upd l (\<lambda>x. x\<lparr>al_connect_to := c_str connect_to\<rparr>) g) (\<lambda>g1.
       rbind (if al_transport x \<noteq> transport then
                rbind (nonnull (al_transport x)) (\<lambda>told.
                rbind (RemoveDisconnect told l g1) (\<lambda>g2.
                rbind (lst_upd l (\<lambda>x. x\<lparr>al_transport := transport\<rparr>) g2) (\<lambda>g3.
                rbind (nonnull transport) (\<lambda>tnew. AddDisconnect tnew l g3))))
              else Inr g1) (\<lambda>g4.
       Inr ((INSTALL_STATUS_OK, None, 0), g4))))"

definition new_listener ::
  "host_env \<Rightarrow> string \<Rightarrow> string \<Rightarrow> nat option \<Rightarrow> adb \<Rightarrow> ((InstallStatus \<times> string option \<times> int) \<times> adb) res" where
  "new_listener env local_name connect_to transport g =
     rbind (os_res (socket_spec_listen env local_name) g) (\<lambda>(r, g1).
     case r of
       Inl error \<Rightarrow> Inr ((INSTALL_STATUS_CANNOT_BIND, Some error, 0), g1)
     | Inr (fd, port) \<Rightarrow>
         (let resolved = (case port of None \<Rightarrow> 0 | Some p \<Rightarrow> p);
              l = g_next_listener g1;
              name = (if resolved \<noteq> 0 then ''tcp:'' @ dec resolved else local_name);
              func = (if c_str connect_to = ''*smartsocket*'' then ss_listener_event_f l else listener_event_f l)
          in rbind (fdevent_create fd func (g_ev g1)) (\<lambda>(i, e1).
             rbind (fdevent_set i FDE_READ e1) (\<lambda>e2.
             (let x = \<lparr>al_fde = Some i, al_fd = fd, al_local_name = name, al_connect_to = c_str connect_to,
                       al_transport = transport\<rparr>;
                  g2 = g1\<lparr>g_listeners := (g_listeners g1)(l \<mapsto> x), g_next_listener := Suc l, g_ev := e2\<rparr>
              in rbind (case transport of None \<Rightarrow> Inr g2 | Some t \<Rightarrow> AddDisconnect t l g2) (\<lambda>g3.
                 Inr ((INSTALL_STATUS_OK, None, resolved),
                      g3\<lparr>g_listener_list := g_listener_list g3 @ [l]\<rparr>)))))))"

definition install_listener ::
  "host_env \<Rightarrow> string \<Rightarrow> string \<Rightarrow> nat option \<Rightarrow> bool \<Rightarrow> adb \<Rightarrow>
   ((InstallStatus \<times> string option \<times> int) \<times> adb) res" where
  "install_listener env local_name connect_to transport no_rebind g =
     rbind (find_listener local_name g (g_listener_list g)) (\<lambda>r.
     case r of
       Some l \<Rightarrow> rebind_listener l connect_to transport no_rebind g
     | None \<Rightarrow> new_listener env local_name connect_to transport g)"

end
