(* ===== verification/ListenerInv.thy ===== *)
theory ListenerInv
  imports SocketFlow Listeners
begin

text \<open>
  The invariant of the whole server: that of the sockets, that of the listeners and their
  registration with transports, and that the lists of transports hold live objects only. Every
  operation on listeners keeps it.
\<close>

section \<open>The invariant\<close>

definition listener_ok :: "adb \<Rightarrow> nat \<Rightarrow> alistener \<Rightarrow> bool" where
  "listener_ok g l x \<longleftrightarrow>
     l < g_next_listener g
     \<and> (\<exists>i ev. al_fde x = Some i
          \<and> (fde_view (g_ev g) i = Some (al_fd x, ev, listener_event_f l) \<and> al_transport x \<noteq> None
             \<or> fde_view (g_ev g) i = Some (al_fd x, ev, ss_listener_event_f l) \<and> special x))
     \<and> (\<forall>t. al_transport x = Some t \<longrightarrow> (\<exists>y. g_transports g t = Some y \<and> l \<in> set (at_disconnects y)))"

definition listeners_inv :: "adb \<Rightarrow> bool" where
  "listeners_inv g \<longleftrightarrow>
     distinct (g_listener_list g) \<and> set (g_listener_list g) = dom (g_listeners g)
     \<and> (\<forall>l x. g_listeners g l = Some x \<longrightarrow> listener_ok g l x)
     \<and> (\<forall>i fd ev f l. fde_view (g_ev g) i = Some (fd, ev, f) \<longrightarrow> f = listener_event_f l \<or> f = ss_listener_event_f l \<longrightarrow>
          (\<exists>x. g_listeners g l = Some x \<and> al_fde x = Some i))
     \<and> (\<forall>t y l. g_transports g t = Some y \<longrightarrow> l \<in> set (at_disconnects y) \<longrightarrow>
          (\<exists>x. g_listeners g l = Some x \<and> al_transport x = Some t))
     \<and> (\<forall>t y. g_transports g t = Some y \<longrightarrow> distinct (at_disconnects y))"

lemma listeners_invD:
  assumes "listeners_inv g"
  shows "distinct (g_listener_list g)" "set (g_listener_list g) = dom (g_listeners g)"
    "g_listeners g l = Some x \<Longrightarrow> listener_ok g l x"
    "g_transports g t = Some y \<Longrightarrow> l \<in> set (at_disconnects y) \<Longrightarrow> \<exists>x. g_listeners g l = Some x \<and> al_transport x = Some t"
    "g_transports g t = Some y \<Longrightarrow> distinct (at_disconnects y)"
  using assms unfolding listeners_inv_def by blast+

definition lists_live :: "adb \<Rightarrow> bool" where
  "lists_live g \<longleftrightarrow> set (g_transport_list g) \<union> set (g_pending_list g) \<subseteq> dom (g_transports g)"

definition srv_inv :: "adb \<Rightarrow> bool" where
  "srv_inv g \<longleftrightarrow> adb_inv g \<and> listeners_inv g \<and> lists_live g"

section \<open>Operations on sockets keep it\<close>

text \<open>The transports are the same but for their connections.\<close>

definition same_transports :: "adb \<Rightarrow> adb \<Rightarrow> bool" where
  "same_transports g g' \<longleftrightarrow>
     (\<forall>t. map_option at_disconnects (g_transports g' t) = map_option at_disconnects (g_transports g t))"

lemma same_transports_sent: "sent g g' ps \<Longrightarrow> same_transports g g'"
  by (auto simp: same_transports_def sent_def option.map_comp comp_def)

lemma same_transports_eq: "g_transports g' = g_transports g \<Longrightarrow> same_transports g g'"
  by (simp add: same_transports_def)

lemma same_transports_dom: "same_transports g g' \<Longrightarrow> dom (g_transports g') = dom (g_transports g)"
  by (auto simp: same_transports_def) (metis map_option_is_None option.distinct(1) option.exhaust)+

lemma same_transports_Some:
  assumes "same_transports g g'" "g_transports g t = Some y"
  obtains y' where "g_transports g' t = Some y'" "at_disconnects y' = at_disconnects y"
proof -
  have "map_option at_disconnects (g_transports g' t) = Some (at_disconnects y)"
    using assms by (simp add: same_transports_def)
  then show thesis using that by auto
qed

lemma same_transports_sym: "same_transports g g' \<Longrightarrow> same_transports g' g"
  by (simp add: same_transports_def)

lemma foreign_view:
  assumes "foreign_fdes g' = foreign_fdes g" "\<forall>a. f \<noteq> local_socket_event_f a"
  shows "fde_view (g_ev g') i = Some (fd, ev, f) \<longleftrightarrow> fde_view (g_ev g) i = Some (fd, ev, f)"
proof -
  have "(i, fd, ev, f) \<in> foreign_fdes g' \<longleftrightarrow> (i, fd, ev, f) \<in> foreign_fdes g" using assms(1) by simp
  then show ?thesis using assms(2) by (simp add: foreign_fdes_def)
qed

lemma srv_inv_frame:
  assumes srv: "srv_inv g" and inv: "adb_inv g'" and fr: "frame A g g'" and tr: "same_transports g g'"
  shows "srv_inv g'"
proof -
  have rest: "g_listeners g' = g_listeners g" "g_next_listener g' = g_next_listener g"
    "g_listener_list g' = g_listener_list g" "g_transport_list g' = g_transport_list g"
    "g_pending_list g' = g_pending_list g"
    using fr by (simp_all add: frame_def adb_rest_def)
  have ff: "foreign_fdes g' = foreign_fdes g" using fr by (simp add: frame_def)
  have v: "fde_view (g_ev g') i = Some (fd, ev, listener_event_f l) \<longleftrightarrow> fde_view (g_ev g) i = Some (fd, ev, listener_event_f l)"
    "fde_view (g_ev g') i = Some (fd, ev, ss_listener_event_f l) \<longleftrightarrow> fde_view (g_ev g) i = Some (fd, ev, ss_listener_event_f l)"
    for i fd ev l by (rule foreign_view [OF ff]; simp)+
  have L: "listeners_inv g" "lists_live g" using srv by (simp_all add: srv_inv_def)
  have tSome: "(\<exists>y. g_transports g' t = Some y \<and> l \<in> set (at_disconnects y))
      \<longleftrightarrow> (\<exists>y. g_transports g t = Some y \<and> l \<in> set (at_disconnects y))" for t l
    using same_transports_Some [OF tr, of t] same_transports_Some [OF same_transports_sym [OF tr], of t] by metis
  have "listener_ok g' l x = listener_ok g l x" for l x
    unfolding listener_ok_def v tSome rest ..
  moreover have "\<exists>x. g_listeners g' l = Some x \<and> al_transport x = Some t"
    if h: "g_transports g' t = Some y" "l \<in> set (at_disconnects y)" for t y l
  proof -
    obtain z where "g_transports g t = Some z" "at_disconnects z = at_disconnects y"
      by (rule same_transports_Some [OF same_transports_sym [OF tr] h(1)])
    then show ?thesis using L(1) h(2) rest(1) unfolding listeners_inv_def by metis
  qed
  moreover have "distinct (at_disconnects y)" if "g_transports g' t = Some y" for t y
    using same_transports_Some [OF same_transports_sym [OF tr] that] L(1) unfolding listeners_inv_def by metis
  moreover have "\<exists>x. g_listeners g' l = Some x \<and> al_fde x = Some i"
    if "fde_view (g_ev g') i = Some (fd, ev, f)" "f = listener_event_f l \<or> f = ss_listener_event_f l" for i fd ev f l
    using that v L(1) rest(1) unfolding listeners_inv_def by metis
  ultimately have "listeners_inv g'"
    using L(1) unfolding listeners_inv_def rest by blast
  moreover have "lists_live g'"
    using L(2) same_transports_dom [OF tr] by (simp add: lists_live_def rest)
  ultimately show ?thesis using inv by (simp add: srv_inv_def)
qed

section \<open>Events that belong to no socket\<close>

text \<open>The sockets do not notice when events of others come and go.\<close>

lemma inv_ex_foreign:
  assumes inv: "inv_ex X g"
    and same: "g_sockets g' = g_sockets g" "g_next_socket g' = g_next_socket g"
      "g_local_list g' = g_local_list g" "g_closing_list g' = g_closing_list g"
      "g_next_id g' = g_next_id g" "g_trackers g' = g_trackers g" "tports_ok g'"
    and ev: "fdevents_inv (g_ev g')"
      "\<And>i fd e a. fde_view (g_ev g') i = Some (fd, e, local_socket_event_f a)
                  \<longleftrightarrow> fde_view (g_ev g) i = Some (fd, e, local_socket_event_f a)"
      "\<And>i fd e f. fde_view (g_ev g') i = Some (fd, e, f) \<Longrightarrow> fd \<in> set (os_open (fd_os (g_ev g')))"
  shows "inv_ex X g'"
proof -
  note D = inv_exD [OF inv]
  have core: "local_core g' c u" if "local_core g c u" for c u
    using that unfolding local_core_def same ev(2) .
  have settled: "local_settled g' u = local_settled g u" if lc: "local_core g c u" for c u
  proof -
    obtain i e where i: "as_fde u = Some i" "fde_view (g_ev g) i = Some (as_fd u, e, local_socket_event_f c)"
      by (rule local_coreD [OF lc])
    then have "fde_view (g_ev g') i = Some (as_fd u, e, local_socket_event_f c)" using ev(2) by simp
    then show ?thesis using i by (simp add: local_settled_def wants_write_def)
  qed
  have other: "other_core g' c u = other_core g c u" for c u unfolding other_core_def same ..
  have "sock_ok X g' c u" if "sock_ok X g c u" for c u
    using that core settled other unfolding sock_ok_def by blast
  then have "socks_ok X g'" using D(2) unfolding socks_ok_def same by blast
  moreover have "peers_ok X g' = peers_ok X g" "lists_ok g' = lists_ok g" "ids_ok g' = ids_ok g"
    unfolding peers_ok_def lists_ok_def ids_ok_def same by (rule refl)+
  moreover have "fdes_ok g'"
    unfolding fdes_ok_def same
  proof (intro allI impI conjI)
    fix i fd e f a
    assume v: "fde_view (g_ev g') i = Some (fd, e, f)"
    show "fd \<in> set (os_open (fd_os (g_ev g')))" by (rule ev(3) [OF v])
    assume "f = local_socket_event_f a"
    then have "fde_view (g_ev g) i = Some (fd, e, local_socket_event_f a)" using v ev(2) by simp
    then show "\<exists>s. g_sockets g a = Some s \<and> as_fde s = Some i" using D(6) by (simp add: fdes_ok_def)
  qed
  ultimately show ?thesis using D ev(1) same(7) by (simp add: inv_ex_def)
qed

definition same_core :: "adb \<Rightarrow> adb \<Rightarrow> bool" where
  "same_core g g' \<longleftrightarrow>
     g_sockets g' = g_sockets g \<and> g_next_socket g' = g_next_socket g \<and> g_local_list g' = g_local_list g
     \<and> g_closing_list g' = g_closing_list g \<and> g_next_id g' = g_next_id g \<and> g_trackers g' = g_trackers g
     \<and> g_transport_list g' = g_transport_list g \<and> g_pending_list g' = g_pending_list g"

lemma tports_ok_dom:
  assumes "tports_ok g" "g_sockets g' = g_sockets g"
    "\<And>t. map_option at_connection (g_transports g' t) = map_option at_connection (g_transports g t)"
  shows "tports_ok g'"
proof -
  have "g_transports g' t = None \<longleftrightarrow> g_transports g t = None" for t
    using assms(3) [of t] by (metis map_option_is_None)
  moreover have "at_connection y \<noteq> None" if "g_transports g' t = Some y" for t y
  proof -
    have "map_option at_connection (g_transports g t) = Some (at_connection y)" using assms(3) [of t] that by simp
    then obtain z where "g_transports g t = Some z" "at_connection z = at_connection y" by auto
    moreover have "at_connection z \<noteq> None" using assms(1) \<open>g_transports g t = Some z\<close>
      unfolding tports_ok_def by blast
    ultimately show ?thesis by simp
  qed
  ultimately show ?thesis using assms(1,2) unfolding tports_ok_def by metis
qed

text \<open>A listener disappears, with its event and its registrations.\<close>

lemma erase_adb_inv:
  assumes srv: "srv_inv g" and x: "g_listeners g l = Some x" "al_fde x = Some i"
    and core: "same_core g g'" "g_next_listener g' = g_next_listener g"
      "g_listeners g' = (g_listeners g)(l := None)" "g_listener_list g' = filter (\<lambda>m. m \<noteq> l) (g_listener_list g)"
    and ev: "fdevents_inv (g_ev g')" "fde_view (g_ev g') = (fde_view (g_ev g))(i := None)"
      "fd_os (g_ev g') = adb_close (al_fd x) (fd_os (g_ev g))"
    and tr: "\<And>t. g_transports g' t = map_option (\<lambda>y. y\<lparr>at_disconnects := filter (\<lambda>m. m \<noteq> l) (at_disconnects y)\<rparr>)
                                         (g_transports g t)"
  shows "adb_inv g'"
proof -
  have I: "adb_inv g" "listeners_inv g" "lists_live g" using srv by (simp_all add: srv_inv_def)
  have C: "g_sockets g' = g_sockets g" "g_transport_list g' = g_transport_list g" "g_pending_list g' = g_pending_list g"
    using core(1) by (simp_all add: same_core_def)
  have ok: "listener_ok g l x" using I(2) x by (simp add: listeners_inv_def)
  then obtain e f where v: "fde_view (g_ev g) i = Some (al_fd x, e, f)" "f = listener_event_f l \<or> f = ss_listener_event_f l"
    using x(2) by (auto simp: listener_ok_def)
  have inj: "fd \<noteq> al_fd x" if "fde_view (g_ev g) j = Some (fd, e', f')" "j \<noteq> i" for j fd e' f'
    using fdt.view_inj [OF inv_exD(1) [OF I(1)]] v(1) that unfolding table_inj_def by blast
  show ?thesis
  proof (rule inv_ex_foreign [OF I(1)])
    show "tports_ok g'"
      by (rule tports_ok_dom [OF inv_exD(7) [OF I(1)] C(1)]) (simp add: tr option.map_comp comp_def)
    show "fd \<in> set (os_open (fd_os (g_ev g')))" if "fde_view (g_ev g') j = Some (fd, e', f')" for j fd e' f'
      using that inv_exD(6) [OF I(1)] inj unfolding fdes_ok_def ev(2,3) by (auto simp: adb_close_def split: if_splits)
  qed (use core(1) ev(1,2) v in \<open>auto simp: same_core_def\<close>)
qed

lemma srv_inv_erase:
  assumes srv: "srv_inv g" and x: "g_listeners g l = Some x" "al_fde x = Some i"
    and core: "same_core g g'" "g_next_listener g' = g_next_listener g"
      "g_listeners g' = (g_listeners g)(l := None)" "g_listener_list g' = filter (\<lambda>m. m \<noteq> l) (g_listener_list g)"
    and ev: "fdevents_inv (g_ev g')" "fde_view (g_ev g') = (fde_view (g_ev g))(i := None)"
      "fd_os (g_ev g') = adb_close (al_fd x) (fd_os (g_ev g))"
    and tr: "\<And>t. g_transports g' t = map_option (\<lambda>y. y\<lparr>at_disconnects := filter (\<lambda>m. m \<noteq> l) (at_disconnects y)\<rparr>)
                                         (g_transports g t)"
  shows "srv_inv g'"
proof -
  have I: "adb_inv g" "listeners_inv g" "lists_live g" using srv by (simp_all add: srv_inv_def)
  have C: "g_sockets g' = g_sockets g" "g_transport_list g' = g_transport_list g" "g_pending_list g' = g_pending_list g"
    using core(1) by (simp_all add: same_core_def)
  have ok: "listener_ok g l x" using I(2) x by (simp add: listeners_inv_def)
  then obtain e f where v: "fde_view (g_ev g) i = Some (al_fd x, e, f)" "f = listener_event_f l \<or> f = ss_listener_event_f l"
    using x(2) by (auto simp: listener_ok_def)
  have "listener_ok g' m y" if y: "g_listeners g m = Some y" "m \<noteq> l" for m y
  proof -
    have oky: "listener_ok g m y" using I(2) y by (simp add: listeners_inv_def)
    then obtain j e' f' where j: "al_fde y = Some j" "fde_view (g_ev g) j = Some (al_fd y, e', f')"
      "f' = listener_event_f m \<or> f' = ss_listener_event_f m" by (auto simp: listener_ok_def)
    have ji: "j \<noteq> i" using j(2,3) v y(2) by auto
    have "fde_view (g_ev g') j = fde_view (g_ev g) j" using ji ev(2) by simp
    moreover have "\<exists>z. g_transports g' t = Some z \<and> m \<in> set (at_disconnects z)" if "al_transport y = Some t" for t
      using oky that y(2) tr [of t] by (auto simp: listener_ok_def)
    ultimately show ?thesis using oky j(1) core(2) by (auto simp: listener_ok_def)
  qed
  then have okg': "listener_ok g' m y" if "g_listeners g' m = Some y" for m y
    using that core(3) by (cases "m = l") simp_all
  have "distinct (g_listener_list g')" "set (g_listener_list g') = dom (g_listeners g')"
    using I(2) core(3,4) unfolding listeners_inv_def by auto
  moreover have "\<exists>y. g_listeners g' m = Some y \<and> al_fde y = Some j"
    if h: "fde_view (g_ev g') j = Some (fd, e', f')" "f' = listener_event_f m \<or> f' = ss_listener_event_f m" for j fd e' f' m
  proof -
    have j: "j \<noteq> i" "fde_view (g_ev g) j = Some (fd, e', f')" using h(1) ev(2) by (auto split: if_splits)
    then obtain y where y: "g_listeners g m = Some y" "al_fde y = Some j"
      using I(2) h(2) unfolding listeners_inv_def by metis
    then have "m \<noteq> l" using x j(1) by auto
    then show ?thesis using y core(3) by simp
  qed
  moreover have "\<exists>y. g_listeners g' m = Some y \<and> al_transport y = Some t"
    if h: "g_transports g' t = Some z" "m \<in> set (at_disconnects z)" for t z m
  proof -
    obtain z0 where z0: "g_transports g t = Some z0" "m \<in> set (at_disconnects z0)" "m \<noteq> l"
      using h tr [of t] by auto
    then show ?thesis using I(2) core(3) unfolding listeners_inv_def by fastforce
  qed
  moreover have "distinct (at_disconnects z)" if "g_transports g' t = Some z" for t z
    using that tr [of t] I(2) unfolding listeners_inv_def by auto
  ultimately have "listeners_inv g'" unfolding listeners_inv_def using okg' by blast
  moreover have "dom (g_transports g') = dom (g_transports g)" using tr by (auto simp: dom_def)
  then have "lists_live g'" using I(3) C unfolding lists_live_def by simp
  ultimately show ?thesis using erase_adb_inv [OF assms] by (simp add: srv_inv_def)
qed

section \<open>Removing listeners\<close>

definition drop_disconnect :: "nat \<Rightarrow> atransport \<Rightarrow> atransport" where
  "drop_disconnect l y = y\<lparr>at_disconnects := filter (\<lambda>m. m \<noteq> l) (at_disconnects y)\<rparr>"

text \<open>The queues stay, and no open descriptor that is not registered is closed.\<close>

definition kept :: "adb \<Rightarrow> adb \<Rightarrow> bool" where
  "kept g g' \<longleftrightarrow>
     g_services g' = g_services g \<and> g_registration g' = g_registration g
     \<and> g_reconnect_queue g' = g_reconnect_queue g \<and> g_next_transport g' = g_next_transport g
     \<and> fde_rest (g_ev g') = fde_rest (g_ev g) \<and> free_fds (g_ev g) \<subseteq> free_fds (g_ev g')"

lemma kept_refl [simp]: "kept g g"
  by (simp add: kept_def)

lemma kept_trans: "kept g g1 \<Longrightarrow> kept g1 g2 \<Longrightarrow> kept g g2"
  by (auto simp: kept_def)

lemma free_fds_unregister:
  assumes "fde_view e i = Some (fd, ev, f)" "fde_view e' = (fde_view e)(i := None)" "fd_os e' = adb_close fd (fd_os e)"
  shows "free_fds e \<subseteq> free_fds e'"
proof
  fix x assume x: "x \<in> free_fds e"
  have "fd \<in> table_fds (fde_view e)" using assms(1) by (auto simp: table_fds_def)
  then have "x \<noteq> fd" using x by (auto simp: free_fds_def)
  moreover have "table_fds (fde_view e') \<subseteq> table_fds (fde_view e)"
    unfolding assms(2) by (auto simp: table_fds_def split: if_splits)
  ultimately show "x \<in> free_fds e'" using x assms(3) by (auto simp: free_fds_def adb_close_def)
qed

definition erased :: "nat \<Rightarrow> adb \<Rightarrow> adb \<Rightarrow> bool" where
  "erased l g g' \<longleftrightarrow>
     same_core g g' \<and> g_next_listener g' = g_next_listener g
     \<and> g_listeners g' = (g_listeners g)(l := None)
     \<and> g_listener_list g' = filter (\<lambda>m. m \<noteq> l) (g_listener_list g)
     \<and> kept g g'"

lemma drop_disconnect_id: "l \<notin> set (at_disconnects y) \<Longrightarrow> drop_disconnect l y = y"
  by (simp add: drop_disconnect_def filter_absent)

lemma listener_view:
  assumes "srv_inv g" "g_listeners g l = Some x"
  obtains i e f where "al_fde x = Some i" "fde_view (g_ev g) i = Some (al_fd x, e, f)"
    "f = listener_event_f l \<or> f = ss_listener_event_f l"
proof -
  have "listener_ok g l x" using assms by (simp add: srv_inv_def listeners_inv_def)
  then show thesis using that unfolding listener_ok_def by blast
qed

text \<open>The end of a listener object, in a state where its registrations may be gone already.\<close>

lemma alistener_delete_spec:
  assumes ev: "fdevents_inv (g_ev g)" and x: "g_listeners g l = Some x" "al_fde x = Some i"
    and v: "fde_view (g_ev g) i = Some (al_fd x, e, f)"
    and t: "\<And>t. al_transport x = Some t \<Longrightarrow> g_transports g t \<noteq> None"
  obtains e' where
    "alistener_delete l g = Inr (g\<lparr>g_transports := (case al_transport x of None \<Rightarrow> g_transports g
          | Some t \<Rightarrow> (g_transports g)(t := map_option (drop_disconnect l) (g_transports g t))),
        g_listeners := (g_listeners g)(l := None), g_ev := e'\<rparr>)"
    "fdevents_inv e'" "fde_view e' = (fde_view (g_ev g))(i := None)" "fde_rest e' = fde_rest (g_ev g)"
    "fd_os e' = adb_close (al_fd x) (fd_os (g_ev g))"
proof -
  obtain e' where e': "fdevent_destroy i (g_ev g) = Inr e'" "fdevents_inv e'"
    "fde_view e' = (fde_view (g_ev g))(i := None)" "fde_rest e' = fde_rest (g_ev g)"
    "fd_os e' = adb_close (al_fd x) (fd_os (g_ev g))"
    by (rule fdevent_destroy_spec [OF ev v])
  show thesis
  proof (rule that [OF _ e'(2-5)], cases "al_transport x")
    case None
    then show "alistener_delete l g = Inr (g\<lparr>g_transports := (case al_transport x of None \<Rightarrow> g_transports g
          | Some t \<Rightarrow> (g_transports g)(t := map_option (drop_disconnect l) (g_transports g t))),
        g_listeners := (g_listeners g)(l := None), g_ev := e'\<rparr>)"
      using x e'(1) by (simp add: alistener_delete_def lst_def ev_do_def)
  next
    case (Some t)
    then obtain y where "g_transports g t = Some y" using t by blast
    with Some show "alistener_delete l g = Inr (g\<lparr>g_transports := (case al_transport x of None \<Rightarrow> g_transports g
          | Some t \<Rightarrow> (g_transports g)(t := map_option (drop_disconnect l) (g_transports g t))),
        g_listeners := (g_listeners g)(l := None), g_ev := e'\<rparr>)"
      using x e'(1) by (simp add: alistener_delete_def lst_def ev_do_def RemoveDisconnect_def drop_disconnect_def)
  qed
qed

lemma listener_erase_spec:
  assumes srv: "srv_inv g" and x: "g_listeners g l = Some x"
  shows "\<exists>g'. listener_erase l g = Inr g' \<and> srv_inv g' \<and> erased l g g'
          \<and> (\<forall>t. g_transports g' t = map_option (drop_disconnect l) (g_transports g t))"
proof -
  have L: "listeners_inv g" and ok: "listener_ok g l x" using srv x by (auto simp: srv_inv_def listeners_inv_def)
  obtain i e f where i: "al_fde x = Some i" "fde_view (g_ev g) i = Some (al_fd x, e, f)"
    by (rule listener_view [OF srv x])
  have t: "\<exists>y. g_transports g t = Some y" if "al_transport x = Some t" for t
    using ok that by (auto simp: listener_ok_def)
  let ?g0 = "g\<lparr>g_listener_list := filter (\<lambda>m. m \<noteq> l) (g_listener_list g)\<rparr>"
  have ev: "fdevents_inv (g_ev ?g0)" using srv by (simp add: srv_inv_def inv_ex_def)
  obtain e' where e': "alistener_delete l ?g0 = Inr (?g0\<lparr>g_transports := (case al_transport x of None \<Rightarrow> g_transports ?g0
          | Some t \<Rightarrow> (g_transports ?g0)(t := map_option (drop_disconnect l) (g_transports ?g0 t))),
        g_listeners := (g_listeners ?g0)(l := None), g_ev := e'\<rparr>)"
    "fdevents_inv e'" "fde_view e' = (fde_view (g_ev ?g0))(i := None)" "fde_rest e' = fde_rest (g_ev ?g0)"
    "fd_os e' = adb_close (al_fd x) (fd_os (g_ev ?g0))"
    by (rule alistener_delete_spec [OF ev, of l x i e f]) (use x i t in auto)
  define g' where "g' = ?g0\<lparr>g_transports := (case al_transport x of None \<Rightarrow> g_transports ?g0
          | Some t \<Rightarrow> (g_transports ?g0)(t := map_option (drop_disconnect l) (g_transports ?g0 t))),
        g_listeners := (g_listeners ?g0)(l := None), g_ev := e'\<rparr>"
  have tr: "g_transports g' t = map_option (drop_disconnect l) (g_transports g t)" for t
  proof (cases "al_transport x = Some t")
    case False
    have "l \<notin> set (at_disconnects y)" if "g_transports g t = Some y" for y
      using L that False x unfolding listeners_inv_def by fastforce
    then have "map_option (drop_disconnect l) (g_transports g t) = g_transports g t"
      by (cases "g_transports g t") (simp_all add: drop_disconnect_id)
    then show ?thesis using False by (simp add: g'_def split: option.split)
  qed (simp add: g'_def)
  have "free_fds (g_ev g) \<subseteq> free_fds e'" using e'(3,5) by (intro free_fds_unregister [OF i(2)]) simp_all
  then have "erased l g g'" using e'(4) by (simp add: erased_def g'_def same_core_def kept_def)
  moreover have "srv_inv g'"
    by (rule srv_inv_erase [OF srv x i(1)])
      (use e'(2-) tr in \<open>simp_all add: g'_def same_core_def drop_disconnect_def [abs_def]\<close>)
  ultimately show ?thesis using e'(1) tr by (simp add: listener_erase_def g'_def)
qed

text \<open>
  While \<open>RunDisconnects\<close> runs, the list it walks over still names listeners that are gone. The
  invariant holds of the state in which the list is what remains to be visited.
\<close>

definition with_disconnects :: "nat \<Rightarrow> nat list \<Rightarrow> adb \<Rightarrow> adb" where
  "with_disconnects t ds g =
     g\<lparr>g_transports := (g_transports g)(t := map_option (\<lambda>y. y\<lparr>at_disconnects := ds\<rparr>) (g_transports g t))\<rparr>"

lemma with_disconnects_simps [simp]:
  "g_listeners (with_disconnects t ds g) = g_listeners g" "g_ev (with_disconnects t ds g) = g_ev g"
  "g_listener_list (with_disconnects t ds g) = g_listener_list g"
  "g_next_listener (with_disconnects t ds g) = g_next_listener g"
  "same_core (with_disconnects t ds g) (with_disconnects t ds' g') = same_core g g'"
  by (simp_all add: with_disconnects_def same_core_def)

lemma listener_disconnect_spec:
  assumes srv: "srv_inv (with_disconnects t (l # ds) g)" and t: "g_transports g t = Some y"
  shows "\<exists>g'. listener_disconnect l g = Inr g' \<and> srv_inv (with_disconnects t ds g') \<and> erased l g g'
          \<and> g_transports g' = g_transports g"
proof -
  let ?h = "with_disconnects t (l # ds) g"
  have L: "listeners_inv ?h" using srv by (simp add: srv_inv_def)
  have ht: "g_transports ?h t = Some (y\<lparr>at_disconnects := l # ds\<rparr>)" using t by (simp add: with_disconnects_def)
  obtain x where x: "g_listeners g l = Some x" "al_transport x = Some t"
    using listeners_invD(4) [OF L ht, of l] by auto
  have d: "distinct (l # ds)" using listeners_invD(5) [OF L ht] by simp
  have ml: "l \<in> set (g_listener_list g)" using listeners_invD(2) [OF L] x(1) by auto
  have hx: "g_listeners ?h l = Some x" using x(1) by simp
  obtain i e f where i: "al_fde x = Some i" "fde_view (g_ev g) i = Some (al_fd x, e, f)"
    by (rule listener_view [OF srv hx]) simp
  let ?x = "x\<lparr>al_transport := None\<rparr>"
  let ?g1 = "g\<lparr>g_listeners := (g_listeners g)(l \<mapsto> ?x),
              g_listener_list := filter (\<lambda>m. m \<noteq> l) (g_listener_list g)\<rparr>"
  have ev: "fdevents_inv (g_ev ?g1)" using srv by (simp add: srv_inv_def inv_ex_def)
  obtain e' where e': "alistener_delete l ?g1 = Inr (?g1\<lparr>g_transports := (case al_transport ?x of None \<Rightarrow> g_transports ?g1
          | Some t \<Rightarrow> (g_transports ?g1)(t := map_option (drop_disconnect l) (g_transports ?g1 t))),
        g_listeners := (g_listeners ?g1)(l := None), g_ev := e'\<rparr>)"
    "fdevents_inv e'" "fde_view e' = (fde_view (g_ev ?g1))(i := None)" "fde_rest e' = fde_rest (g_ev ?g1)"
    "fd_os e' = adb_close (al_fd ?x) (fd_os (g_ev ?g1))"
    by (rule alistener_delete_spec [OF ev, of l ?x i e f]) (use i in auto)
  define g' where "g' = g\<lparr>g_listeners := (g_listeners g)(l := None),
              g_listener_list := filter (\<lambda>m. m \<noteq> l) (g_listener_list g), g_ev := e'\<rparr>"
  have "listener_disconnect l g = Inr g'"
    using ml x(1) e'(1) by (simp add: listener_disconnect_def lst_upd_def lst_def listener_erase_def g'_def)
  moreover have "free_fds (g_ev g) \<subseteq> free_fds e'" using e'(3,5) by (intro free_fds_unregister [OF i(2)]) simp_all
  then have "erased l g g'" "g_transports g' = g_transports g"
    using e'(4) by (simp_all add: erased_def g'_def same_core_def kept_def)
  moreover have "g_transports (with_disconnects t ds g') u = map_option (drop_disconnect l) (g_transports ?h u)" for u
  proof (cases "u = t")
    case True
    then show ?thesis using t d by (simp add: with_disconnects_def g'_def drop_disconnect_def filter_absent)
  next
    case False
    have "l \<notin> set (at_disconnects z)" if z: "g_transports g u = Some z" for z
    proof
      assume "l \<in> set (at_disconnects z)"
      then have "al_transport x = Some u"
        using listeners_invD(4) [OF L, of u z l] z False x(1) by (auto simp: with_disconnects_def)
      then show False using x(2) False by simp
    qed
    then show ?thesis using False
      by (cases "g_transports g u") (simp_all add: with_disconnects_def g'_def drop_disconnect_id)
  qed
  then have "srv_inv (with_disconnects t ds g')"
    by (intro srv_inv_erase [OF srv hx i(1)])
      (use e'(2-) in \<open>simp_all add: drop_disconnect_def [abs_def] g'_def same_core_def with_disconnects_def\<close>)
  ultimately show ?thesis by blast
qed

lemma disconnect_each_spec:
  assumes "srv_inv (with_disconnects t ds g)" "g_transports g t = Some y"
  shows "\<exists>g'. disconnect_each ds g = Inr g' \<and> srv_inv (with_disconnects t [] g') \<and> same_core g g'
          \<and> g_transports g' = g_transports g \<and> kept g g'"
  using assms
proof (induction ds arbitrary: g)
  case Nil
  then show ?case by (simp add: same_core_def)
next
  case (Cons l ds)
  obtain g1 where g1: "listener_disconnect l g = Inr g1" "srv_inv (with_disconnects t ds g1)" "erased l g g1"
    "g_transports g1 = g_transports g"
    using listener_disconnect_spec [OF Cons.prems] by blast
  obtain g' where "disconnect_each ds g1 = Inr g'" "srv_inv (with_disconnects t [] g')" "same_core g1 g'"
    "g_transports g' = g_transports g1" "kept g1 g'"
    using Cons.IH [OF g1(2)] g1(4) Cons.prems(2) by metis
  then show ?case using g1 kept_trans by (simp add: erased_def same_core_def) blast
qed

lemma RunDisconnects_spec:
  assumes srv: "srv_inv g" and t: "g_transports g t = Some y"
  shows "\<exists>g'. RunDisconnects t g = Inr g' \<and> srv_inv g' \<and> same_core g g'
          \<and> g_transports g' = (g_transports g)(t \<mapsto> y\<lparr>at_disconnects := []\<rparr>) \<and> kept g g'"
proof -
  have "with_disconnects t (at_disconnects y) g = g" using t by (simp add: with_disconnects_def fun_upd_idem)
  then obtain g1 where g1: "disconnect_each (at_disconnects y) g = Inr g1" "srv_inv (with_disconnects t [] g1)"
    "same_core g g1" "g_transports g1 = g_transports g" "kept g g1"
    using disconnect_each_spec [of t "at_disconnects y" g] srv t by auto
  then have "RunDisconnects t g = Inr (with_disconnects t [] g1)"
    using t by (simp add: RunDisconnects_def with_disconnects_def)
  then show ?thesis using g1 t by (simp add: with_disconnects_def same_core_def kept_def)
qed

end
