(* ===== verification/TransportLocal.thy ===== *)
theory TransportLocal
  imports Transport
begin

text \<open>
  TCP and emulator transports (\<open>transport_local.cpp\<close>), USB transports as far as they are registered,
  and the parts of \<open>transport.cpp\<close> that create, register, reconnect and delete transports. A thread
  that waits (for a connection, for the clock) is modelled by its turns between the waits.
\<close>

section \<open>Objects\<close>

definition NextTransportId :: "adb \<Rightarrow> u64 \<times> adb" where
  "NextTransportId g = (g_next_transport_id g, g\<lparr>g_next_transport_id := g_next_transport_id g + 1\<rparr>)"

text \<open>\<open>new atransport(reconnect, state)\<close>.\<close>

definition tport_new :: "reconnect_fn \<Rightarrow> ConnectionState \<Rightarrow> adb \<Rightarrow> nat \<times> adb" where
  "tport_new reconnect st g =
     (let (i, g1) = NextTransportId g; t = g_next_transport g1
      in (t, g1\<lparr>g_transports := (g_transports g1)(t \<mapsto> atransport_new reconnect st i),
                g_next_transport := Suc t\<rparr>))"

definition LOCAL_PORT_RETRY_COUNT :: u32 where "LOCAL_PORT_RETRY_COUNT = 60"

text \<open>
  The end of a connection object: \<open>Stop\<close>, then the destructor of the underlying connection, which
  closes a descriptor that is still open and puts the port of an emulator on the retry list.
\<close>

definition fd_reset :: "int \<Rightarrow> adb \<Rightarrow> adb" where
  "fd_reset fd g = (if fd = -1 then g else snd (os_do (\<lambda>w. ((), adb_close fd w)) g))"

definition underlying_delete :: "conn_kind \<Rightarrow> bool \<Rightarrow> adb \<Rightarrow> adb" where
  "underlying_delete k closed g =
     (case k of
        ConnFd fd \<Rightarrow> if closed then g else fd_reset fd g
      | ConnEmulator fd local_port \<Rightarrow>
          (let g1 = g\<lparr>g_retry_ports := g_retry_ports g @ [(local_port, LOCAL_PORT_RETRY_COUNT)]\<rparr>
           in if closed then g1 else fd_reset fd g1)
      | ConnUsb _ \<Rightarrow> g)"

definition conn_delete :: "nat \<Rightarrow> adb \<Rightarrow> adb res" where
  "conn_delete t g =
     rbind (tport t g) (\<lambda>x.
     case at_connection x of
       None \<Rightarrow> Inr g
     | Some c \<Rightarrow>
         rbind (conn_Stop t g) (\<lambda>g1.
         rbind (tport_upd t (\<lambda>x. x\<lparr>at_connection := None\<rparr>) g1) (\<lambda>g2.
         Inr (underlying_delete (conn_kind c) (conn_started c) g2))))"

definition atransport_delete :: "nat \<Rightarrow> adb \<Rightarrow> adb res" where
  "atransport_delete t g =
     rbind (tport_upd t (SetConnectionEstablished False) g) (\<lambda>g1.
     rbind (conn_delete t g1) (\<lambda>g2.
     Inr (g2\<lparr>g_transports := (g_transports g2)(t := None)\<rparr>)))"

definition SetConnection :: "nat \<Rightarrow> conn_kind \<Rightarrow> adb \<Rightarrow> adb res" where
  "SetConnection t k g =
     rbind (conn_delete t g) (tport_upd t (\<lambda>x. x\<lparr>at_connection := Some (Connection_new k)\<rparr>))"

section \<open>Emulators\<close>

definition ADB_LOCAL_TRANSPORT_MAX :: nat where "ADB_LOCAL_TRANSPORT_MAX = 16"
definition DEFAULT_ADB_LOCAL_TRANSPORT_PORT :: int where "DEFAULT_ADB_LOCAL_TRANSPORT_PORT = 5555"

definition find_emulator_transport_by_adb_port :: "int \<Rightarrow> adb \<Rightarrow> nat option" where
  "find_emulator_transport_by_adb_port adb_port g = map_of (g_local_transports g) adb_port"

definition getEmulatorSerialString :: "int \<Rightarrow> string" where
  "getEmulatorSerialString console_port = ''emulator-'' @ dec console_port"

definition find_emulator_transport_by_console_port :: "int \<Rightarrow> adb \<Rightarrow> nat option res" where
  "find_emulator_transport_by_console_port console_port g =
     find_transport (getEmulatorSerialString console_port) g"

definition init_socket_transport :: "nat \<Rightarrow> int \<Rightarrow> int \<Rightarrow> bool \<Rightarrow> adb \<Rightarrow> (int \<times> adb) res" where
  "init_socket_transport t fd adb_port local g =
     rbind (tport_upd t (\<lambda>x. x\<lparr>at_type := kTransportLocal\<rparr>) g) (\<lambda>g1.
     if local then
       rbind (SetConnection t (ConnEmulator fd adb_port) g1) (\<lambda>g2.
       if find_emulator_transport_by_adb_port adb_port g2 \<noteq> None then Inr (-1, g2)
       else if length (g_local_transports g2) \<ge> ADB_LOCAL_TRANSPORT_MAX then Inr (-1, g2)
       else Inr (0, g2\<lparr>g_local_transports := (adb_port, t) # g_local_transports g2\<rparr>))
     else rbind (SetConnection t (ConnFd fd) g1) (\<lambda>g2. Inr (0, g2)))"

section \<open>Registration\<close>

datatype register_error = REGISTER_INIT | EALREADY | ETIMEDOUT | EPERM

text \<open>
  \<open>register_socket_transport\<close> up to the point where it returns or starts to wait for the connection;
  in the latter case the result is the transport.
\<close>

datatype register_result = RegisterFailed register_error | Registered | WaitsFor nat

fun serial_taken :: "string \<Rightarrow> adb \<Rightarrow> nat list \<Rightarrow> bool res" where
  "serial_taken serial g [] = Inr False"
| "serial_taken serial g (t # ts) =
     rbind (tport t g) (\<lambda>x. if serial = at_serial x then Inr True else serial_taken serial g ts)"

definition register_socket_transport ::
  "int \<Rightarrow> string \<Rightarrow> int \<Rightarrow> bool \<Rightarrow> reconnect_fn \<Rightarrow> adb \<Rightarrow> (register_result \<times> adb) res" where
  "register_socket_transport s serial port local reconnect g =
     (let (t, g1) = tport_new reconnect kCsOffline g
      in rbind (init_socket_transport t s port local g1) (\<lambda>(r, g2).
         if r < 0 then rbind (atransport_delete t g2) (\<lambda>g3. Inr (RegisterFailed REGISTER_INIT, g3))
         else
           rbind (serial_taken serial g2 (g_pending_list g2)) (\<lambda>pending.
           if pending then rbind (atransport_delete t g2) (\<lambda>g3. Inr (RegisterFailed EALREADY, g3))
           else
             rbind (serial_taken serial g2 (g_transport_list g2)) (\<lambda>listed.
             if listed then rbind (atransport_delete t g2) (\<lambda>g3. Inr (RegisterFailed EALREADY, g3))
             else
               rbind (tport_upd t (\<lambda>x. x\<lparr>at_serial := serial\<rparr>) g2) (\<lambda>g3.
               (let g4 = register_transport t (g3\<lparr>g_pending_list := t # g_pending_list g3\<rparr>)
                in Inr (if local then Registered else WaitsFor t, g4)))))))"

text \<open>The rest of it, with the result of \<open>WaitForConnection\<close>.\<close>

definition WaitForConnection :: "atransport \<Rightarrow> bool" where
  "WaitForConnection x \<longleftrightarrow> at_established_ready x \<and> at_established x"

definition register_wait :: "nat \<Rightarrow> bool \<Rightarrow> adb \<Rightarrow> register_result res" where
  "register_wait t connected g =
     (if \<not> connected then Inr (RegisterFailed ETIMEDOUT)
      else rbind (tport t g) (\<lambda>x.
           Inr (if at_state x = kCsUnauthorized then RegisterFailed EPERM else Registered)))"

text \<open>\<open>register_usb_transport\<close> with \<open>init_usb_transport\<close>, and its inverse for inaccessible devices.\<close>

definition register_usb_transport :: "nat \<Rightarrow> string option \<Rightarrow> string option \<Rightarrow> bool \<Rightarrow> adb \<Rightarrow> adb res" where
  "register_usb_transport usb serial devpath writeable g =
     (let (t, g1) = tport_new reconnect_abort_f (if writeable then kCsOffline else kCsNoPerm) g
      in rbind (SetConnection t (ConnUsb usb) g1) (\<lambda>g2.
         rbind (tport_upd t (\<lambda>x. x\<lparr>at_type := kTransportUsb,
                  at_serial := (case serial of None \<Rightarrow> at_serial x | Some s \<Rightarrow> c_str s),
                  at_devpath := (case devpath of None \<Rightarrow> at_devpath x | Some d \<Rightarrow> c_str d)\<rparr>) g2) (\<lambda>g3.
         Inr (register_transport t (g3\<lparr>g_pending_list := t # g_pending_list g3\<rparr>)))))"

text \<open>
  \<open>dynamic_cast<UsbConnection*>(connection.get())\<close>: the dynamic type of a transport's connection is
  \<open>BlockingConnectionAdapter\<close>, which is no \<open>UsbConnection\<close> (it owns one).
\<close>

definition as_UsbConnection :: "Connection \<Rightarrow> nat option" where
  "as_UsbConnection c = None"

fun without_usb :: "nat \<Rightarrow> adb \<Rightarrow> nat list \<Rightarrow> nat list res" where
  "without_usb usb g [] = Inr []"
| "without_usb usb g (t # ts) =
     rbind (tport t g) (\<lambda>x.
     rbind (without_usb usb g ts) (\<lambda>rest.
     Inr (case Option.bind (at_connection x) as_UsbConnection of
            Some handle \<Rightarrow> if handle = usb \<and> at_state x = kCsNoPerm then rest else t # rest
          | None \<Rightarrow> t # rest)))"

definition unregister_usb_transport :: "nat \<Rightarrow> adb \<Rightarrow> adb res" where
  "unregister_usb_transport usb g =
     rbind (without_usb usb g (g_transport_list g)) (\<lambda>ts. Inr (g\<lparr>g_transport_list := ts\<rparr>))"

section \<open>Connecting\<close>

definition local_connect_arbitrary_ports :: "host_env \<Rightarrow> int \<Rightarrow> int \<Rightarrow> adb \<Rightarrow> ((bool \<times> string) \<times> adb) res" where
  "local_connect_arbitrary_ports env console_port adb_port g =
     rbind (if find_emulator_transport_by_adb_port adb_port g \<noteq> None then Inr True
            else rbind (find_emulator_transport_by_console_port console_port g) (\<lambda>r. Inr (r \<noteq> None))) (\<lambda>known.
     if known then Inr ((False, []), g)
     else
       (let (r1, g1) = (case env_adbhost env of
                          None \<Rightarrow> (Inl [], g)
                        | Some host \<Rightarrow> os_do (env_network env (network_connect_r host adb_port)) g);
            (r2, g2) = (case r1 of
                          Inr fd \<Rightarrow> (Inr fd, g1)
                        | Inl _ \<Rightarrow> os_do (env_network env (network_loopback_client_r adb_port)) g1)
        in case r2 of
             Inl error \<Rightarrow> Inr ((False, error), g2)
           | Inr fd \<Rightarrow>
               (let error = (case r1 of Inl e \<Rightarrow> e | Inr _ \<Rightarrow> [])
                in rbind (register_socket_transport fd (getEmulatorSerialString console_port) adb_port True
                            reconnect_abort_f g2) (\<lambda>(r, g3).
                   Inr ((r = Registered, error), g3)))))"

definition local_connect :: "host_env \<Rightarrow> int \<Rightarrow> adb \<Rightarrow> (bool \<times> adb) res" where
  "local_connect env port g =
     rbind (local_connect_arbitrary_ports env (to_int32 (port - 1)) port g) (\<lambda>((ok, _), g1). Inr (ok, g1))"

text \<open>\<open>tcp_connect\<close>: the descriptor (or -1), the port, the serial, and the text of \<open>*response\<close> if it is set.\<close>

definition tcp_connect :: "host_env \<Rightarrow> string \<Rightarrow> adb \<Rightarrow> ((int \<times> int \<times> string \<times> string) \<times> adb) res" where
  "tcp_connect env address g =
     rbind (ParseNetAddress address DEFAULT_ADB_LOCAL_TRANSPORT_PORT) (\<lambda>parsed.
     case parsed of
       Inl response \<Rightarrow> Inr ((-1, DEFAULT_ADB_LOCAL_TRANSPORT_PORT, [], response), g)
     | Inr (host, port, serial) \<Rightarrow>
         (let (r, g1) = os_do (env_network env (network_connect_r (c_str host) port)) g
          in case r of
               Inl error \<Rightarrow>
                 Inr ((-1, port, serial, ''unable to connect to '' @ c_str serial @ '': '' @ c_str error), g1)
             | Inr fd \<Rightarrow> Inr ((fd, port, serial, []), g1)))"

datatype connect_result = Response string | ConnectWaits nat string

definition connect_response :: "string \<Rightarrow> register_result \<Rightarrow> string" where
  "connect_response serial r =
     (case r of
        RegisterFailed EALREADY \<Rightarrow> ''already connected to '' @ c_str serial
      | RegisterFailed EPERM \<Rightarrow> ''failed to authenticate to '' @ c_str serial
      | RegisterFailed _ \<Rightarrow> ''failed to connect to '' @ c_str serial
      | _ \<Rightarrow> ''connected to '' @ c_str serial)"

definition connect_device :: "host_env \<Rightarrow> string \<Rightarrow> adb \<Rightarrow> (connect_result \<times> adb) res" where
  "connect_device env address g =
     (if address = [] then Inr (Response ''empty address'', g)
      else
        rbind (tcp_connect env address g) (\<lambda>((fd, port, serial, _), g1).
        rbind (register_socket_transport fd serial port False (reconnect_tcp_f address) g1) (\<lambda>(r, g2).
        Inr (case r of WaitsFor t \<Rightarrow> ConnectWaits t serial | _ \<Rightarrow> Response (connect_response serial r), g2))))"

definition connect_device_finish :: "nat \<Rightarrow> string \<Rightarrow> bool \<Rightarrow> adb \<Rightarrow> string res" where
  "connect_device_finish t serial connected g =
     rbind (register_wait t connected g) (\<lambda>r. Inr (connect_response serial r))"

section \<open>Looking for emulators\<close>

fun poll_ports :: "host_env \<Rightarrow> nat \<Rightarrow> int \<Rightarrow> adb \<Rightarrow> adb res" where
  "poll_ports env 0 port g = Inr g"
| "poll_ports env (Suc count) port g =
     rbind (local_connect env port g) (\<lambda>(_, g1). poll_ports env count (port + 2) g1)"

definition PollAllLocalPortsForEmulator :: "host_env \<Rightarrow> adb \<Rightarrow> adb res" where
  "PollAllLocalPortsForEmulator env g =
     poll_ports env ADB_LOCAL_TRANSPORT_MAX DEFAULT_ADB_LOCAL_TRANSPORT_PORT g"

text \<open>
  One round of \<open>client_socket_thread\<close>: the ports to retry are taken from the list, each is tried once,
  and those that failed and have retries left are put back.
\<close>

fun retry_each :: "host_env \<Rightarrow> (int \<times> u32) list \<Rightarrow> (int \<times> u32) list \<Rightarrow> adb \<Rightarrow> ((int \<times> u32) list \<times> adb) res" where
  "retry_each env [] next_ports g = Inr (next_ports, g)"
| "retry_each env ((port, retry_count) # ports) next_ports g =
     rbind (local_connect env port g) (\<lambda>(ok, g1).
     if ok then retry_each env ports next_ports g1
     else if retry_count - 1 > 0 then retry_each env ports (next_ports @ [(port, retry_count - 1)]) g1
     else retry_each env ports next_ports g1)"

definition client_socket_round :: "host_env \<Rightarrow> adb \<Rightarrow> adb res" where
  "client_socket_round env g =
     rbind (retry_each env (g_retry_ports g) [] (g\<lparr>g_retry_ports := []\<rparr>)) (\<lambda>(next_ports, g1).
     Inr (g1\<lparr>g_retry_ports := g_retry_ports g1 @ next_ports\<rparr>))"

section \<open>Reconnecting\<close>

datatype ReconnectResult = ReconnectRetry | ReconnectSuccess | ReconnectAbort

definition atransport_Reconnect :: "host_env \<Rightarrow> nat \<Rightarrow> adb \<Rightarrow> (ReconnectResult \<times> adb) res" where
  "atransport_Reconnect env t g =
     rbind (tport t g) (\<lambda>x.
     case at_reconnect x of
       reconnect_abort_f \<Rightarrow> Inr (ReconnectAbort, g)
     | reconnect_tcp_f address \<Rightarrow>
         rbind (tcp_connect env address g) (\<lambda>((fd, port, serial, _), g1).
         if fd = -1 then Inr (ReconnectRetry, g1)
         else rbind (init_socket_transport t fd port False g1) (\<lambda>(r, g2).
              Inr (if r \<ge> 0 then ReconnectSuccess else ReconnectRetry, g2))))"

text \<open>The transports that were kicked leave the queue.\<close>

fun drop_kicked :: "ReconnectAttempt list \<Rightarrow> adb \<Rightarrow> (ReconnectAttempt list \<times> adb) res" where
  "drop_kicked [] g = Inr ([], g)"
| "drop_kicked ((time, t, left) # rest) g =
     rbind (tport t g) (\<lambda>x.
     if at_kicked x then drop_kicked rest (remove_transport t g)
     else rbind (drop_kicked rest g) (\<lambda>(kept, g1). Inr ((time, t, left) # kept, g1)))"

text \<open>One turn of \<open>ReconnectHandler::Run\<close>, from one wait to the next.\<close>

definition ReconnectHandler_Run :: "host_env \<Rightarrow> adb \<Rightarrow> adb res" where
  "ReconnectHandler_Run env g =
     (if \<not> g_reconnect_running g then Inr g
      else
        rbind (drop_kicked (g_reconnect_queue g) g) (\<lambda>(queue, g1).
        case queue of
          [] \<Rightarrow> Inr (g1\<lparr>g_reconnect_queue := []\<rparr>)
        | (time, t, attempts_left) # rest \<Rightarrow>
            if time > g_now g1 then Inr (g1\<lparr>g_reconnect_queue := queue\<rparr>)
            else
              rbind (atransport_Reconnect env t (g1\<lparr>g_reconnect_queue := rest\<rparr>)) (\<lambda>(r, g2).
              Inr (case r of
                     ReconnectRetry \<Rightarrow>
                       if attempts_left = 0 then remove_transport t g2
                       else g2\<lparr>g_reconnect_queue :=
                              attempt_insert (g_now g2 + kDefaultTimeout, t, attempts_left - 1)
                                (g_reconnect_queue g2)\<rparr>
                   | ReconnectSuccess \<Rightarrow> register_transport t g2
                   | ReconnectAbort \<Rightarrow> remove_transport t g2))))"

fun remove_each_attempt :: "ReconnectAttempt list \<Rightarrow> adb \<Rightarrow> adb" where
  "remove_each_attempt [] g = g"
| "remove_each_attempt ((_, t, _) # rest) g = remove_each_attempt rest (remove_transport t g)"

definition ReconnectHandler_Stop :: "adb \<Rightarrow> adb" where
  "ReconnectHandler_Stop g =
     remove_each_attempt (g_reconnect_queue g) (g\<lparr>g_reconnect_running := False, g_reconnect_queue := []\<rparr>)"

fun kick_every :: "nat list \<Rightarrow> adb \<Rightarrow> adb res" where
  "kick_every [] g = Inr g"
| "kick_every (t # ts) g = rbind (atransport_Kick t g) (kick_every ts)"

definition kick_all_transports :: "adb \<Rightarrow> adb res" where
  "kick_all_transports g = kick_every (g_transport_list g) (ReconnectHandler_Stop g)"

end
