(* ===== verification/Services.thy ===== *)
theory Services
  imports Sockets SocketSpec TransportLocal Listeners
begin

text \<open>
  \<open>services.cpp\<close>: the services of the host. A service runs in a thread of its own, which has one end
  of a socket pair; the other end becomes a local socket of the main thread.
\<close>

section \<open>Service threads\<close>

text \<open>\<open>adb_socketpair\<close>: both descriptors, or a failure that leaves no descriptor open.\<close>

definition adb_socketpair :: "os \<Rightarrow> (int \<times> int) option \<times> os" where
  "adb_socketpair w =
     (let (a, w1) = new_fd w
      in if a < 0 then (None, w1)
         else (let (b, w2) = new_fd w1 in if b < 0 then (None, adb_close a w2) else (Some (a, b), w2)))"

definition create_service_thread :: "service \<Rightarrow> adb \<Rightarrow> int \<times> adb" where
  "create_service_thread func g =
     (let (s, g1) = os_do adb_socketpair g
      in case s of
           None \<Rightarrow> (-1, g1)
         | Some (s0, s1) \<Rightarrow> (s0, g1\<lparr>g_services := g_services g1 @ [(func, s1)]\<rparr>))"

definition service_to_fd :: "host_env \<Rightarrow> string \<Rightarrow> adb \<Rightarrow> (int \<times> adb) res" where
  "service_to_fd env name g =
     (if is_socket_spec name then
        rbind (os_res (\<lambda>w. socket_spec_connect env name w) g) (\<lambda>(r, g1).
        Inr (case r of Inl error \<Rightarrow> -1 | Inr fd \<Rightarrow> fd, g1))
      else Inr (-1, g))"

definition create_local_service_socket :: "host_env \<Rightarrow> string \<Rightarrow> adb \<Rightarrow> (nat option \<times> adb) res" where
  "create_local_service_socket env name g =
     rbind (service_to_fd env name g) (\<lambda>(fd, g1).
     if fd < 0 then Inr (None, g1)
     else rbind (create_local_socket fd g1) (\<lambda>(s, g2). Inr (Some s, g2)))"

section \<open>Waiting for a device\<close>

text \<open>
  One round of \<open>wait_for_state\<close>; \<open>poll\<close> is the result of \<open>adb_poll\<close>: an error, or whether the other end
  hung up. The result tells whether the thread goes on; it closes its descriptor when it ends.
\<close>

definition wait_for_state ::
  "host_env \<Rightarrow> (unit + bool) \<Rightarrow> int \<Rightarrow> state_info \<Rightarrow> adb \<Rightarrow> (bool \<times> adb) res" where
  "wait_for_state env poll fd sinfo g =
     (let serial = (if si_serial sinfo \<noteq> [] then Some (c_str (si_serial sinfo)) else None);
          stop = (\<lambda>g. Inr (False, snd (os_do (\<lambda>w. ((), adb_close fd w)) g)))
      in rbind (acquire_one_transport env (si_type sinfo) serial (si_transport_id sinfo) False g)
           (\<lambda>(t, error, is_ambiguous).
         rbind (case t of
                  None \<Rightarrow> Inr False
                | Some a \<Rightarrow> rbind (tport a g) (\<lambda>x. Inr (si_state sinfo = kCsAny \<or> si_state sinfo = at_state x)))
           (\<lambda>found.
         if found then stop (snd (os_do (SendOkay fd) g))
         else if \<not> is_ambiguous then
           (case poll of
              Inl _ \<Rightarrow> stop (snd (os_do (SendFail fd error) g))
            | Inr hup \<Rightarrow> if hup then stop g else Inr (True, g))
         else stop (snd (os_do (SendFail fd error) g)))))"

section \<open>Connecting to a device\<close>

definition connect_emulator :: "host_env \<Rightarrow> string \<Rightarrow> adb \<Rightarrow> (string \<times> adb) res" where
  "connect_emulator env port_spec g =
     rbind (Split port_spec '','') (\<lambda>pieces.
     case pieces of
       [console, port] \<Rightarrow>
         (let console_port = to_int32 (fst (strtoll 0 console)); adb_port = to_int32 (fst (strtoll 0 port))
          in if console_port \<le> 0 \<or> adb_port \<le> 0
             then Inr (''Invalid port numbers: '' @ c_str port_spec, g)
             else if find_emulator_transport_by_adb_port adb_port g \<noteq> None
             then Inr (''Emulator already registered on port '' @ dec adb_port, g)
             else
               rbind (local_connect_arbitrary_ports env console_port adb_port g) (\<lambda>((ok, error), g1).
               Inr ((if ok then ''Connected to emulator on ports '' @ dec console_port @ '','' @ dec adb_port
                     else ''Could not connect to emulator on ports '' @ dec console_port @ '','' @ dec adb_port
                          @ '': '' @ c_str error), g1)))
     | _ \<Rightarrow> Inr (''unable to parse '' @ quoted port_spec @ '' as <console port>,<adb port>'', g))"

text \<open>
  \<open>connect_service\<close>: up to the answer, or to the wait of \<open>connect_device\<close>; then the answer is sent and
  the descriptor closed.
\<close>

definition connect_service :: "host_env \<Rightarrow> string \<Rightarrow> adb \<Rightarrow> (connect_result \<times> adb) res" where
  "connect_service env host g =
     (if strncmp_eq host ''emu:'' 4
      then rbind (connect_emulator env (drop 4 (c_str host)) g) (\<lambda>(response, g1). Inr (Response response, g1))
      else connect_device env (c_str host) g)"

definition connect_service_finish :: "int \<Rightarrow> string \<Rightarrow> adb \<Rightarrow> adb" where
  "connect_service_finish fd response g =
     snd (os_do (\<lambda>w. ((), adb_close fd (snd (SendProtocolString fd response w)))) g)"

section \<open>The services by name\<close>

definition wait_type :: "string \<Rightarrow> (TransportType \<times> string) option" where
  "wait_type name =
     (if StartsWith name ''local'' then Some (kTransportLocal, drop 5 name)
      else if StartsWith name ''usb'' then Some (kTransportUsb, drop 3 name)
      else if StartsWith name ''any'' then Some (kTransportAny, drop 3 name)
      else None)"

definition wait_state :: "string \<Rightarrow> ConnectionState option" where
  "wait_state name =
     (if name = ''-device'' then Some kCsDevice
      else if name = ''-recovery'' then Some kCsRecovery
      else if name = ''-sideload'' then Some kCsSideload
      else if name = ''-bootloader'' then Some kCsBootloader
      else if name = ''-any'' then Some kCsAny
      else None)"

text \<open>The names are C strings: \<open>name\<close> has no NUL.\<close>

definition service_socket :: "service \<Rightarrow> adb \<Rightarrow> (nat option \<times> adb) res" where
  "service_socket func g =
     (let (fd, g1) = create_service_thread func g
      in rbind (create_local_socket fd g1) (\<lambda>(s, g2). Inr (Some s, g2)))"

definition host_service_to_socket ::
  "string \<Rightarrow> string option \<Rightarrow> u64 \<Rightarrow> adb \<Rightarrow> (nat option \<times> adb) res" where
  "host_service_to_socket name serial transport_id g =
     (if name = ''track-devices'' then (let (s, g1) = create_device_tracker False g in Inr (Some s, g1))
      else if name = ''track-devices-l'' then (let (s, g1) = create_device_tracker True g in Inr (Some s, g1))
      else if StartsWith name ''wait-for-'' then
        (case wait_type (drop 9 name) of
           None \<Rightarrow> Inr (None, g)
         | Some (ty, name') \<Rightarrow>
             (case wait_state name' of
                None \<Rightarrow> Inr (None, g)
              | Some st \<Rightarrow>
                  service_socket
                    (wait_for_state_f \<lparr>si_type = ty, si_serial = (case serial of None \<Rightarrow> [] | Some s \<Rightarrow> c_str s),
                                       si_transport_id = transport_id, si_state = st\<rparr>) g))
      else if strncmp_eq name ''connect:'' 8 then service_socket (connect_service_f (drop 8 name)) g
      else Inr (None, g))"

end
