(* ===== verification/HostRequest.thy ===== *)
theory HostRequest
  imports Services
begin

text \<open>
  The host requests of \<open>adb.cpp\<close>: \<open>handle_forward_request\<close> and \<open>handle_host_request\<close>. A request is a C
  string, so it has no NUL; the answers are written to the descriptor of the client.
\<close>

section \<open>Port forwarding\<close>

definition reply :: "(os \<Rightarrow> 'a \<times> os) \<Rightarrow> adb \<Rightarrow> adb" where
  "reply f g = snd (os_do f g)"

definition SendOkay_string :: "int \<Rightarrow> string \<Rightarrow> adb \<Rightarrow> adb" where
  "SendOkay_string fd s g = reply (SendProtocolString fd s) (reply (SendOkay fd) g)"

definition install_message :: "InstallStatus \<Rightarrow> string \<Rightarrow> string \<Rightarrow> string" where
  "install_message r error service =
     (case r of
        INSTALL_STATUS_OK \<Rightarrow> ''success (!)''
      | INSTALL_STATUS_INTERNAL_ERROR \<Rightarrow> ''internal error''
      | INSTALL_STATUS_CANNOT_BIND \<Rightarrow> ''cannot bind listener: '' @ c_str error
      | INSTALL_STATUS_CANNOT_REBIND \<Rightarrow> ''cannot rebind existing socket''
      | INSTALL_STATUS_LISTENER_NOT_FOUND \<Rightarrow> ''listener '' @ quoted service @ '' not found'')"

text \<open>The answer to a request that was carried out, and that to one that failed.\<close>

definition forward_answer :: "int \<Rightarrow> InstallStatus \<Rightarrow> string \<Rightarrow> int \<Rightarrow> string \<Rightarrow> adb \<Rightarrow> adb" where
  "forward_answer reply_fd r error resolved_tcp_port service g =
     (if r = INSTALL_STATUS_OK then
        (let g1 = reply (SendOkay reply_fd) (reply (SendOkay reply_fd) g)
         in if resolved_tcp_port \<noteq> 0 then reply (SendProtocolString reply_fd (dec resolved_tcp_port)) g1 else g1)
      else reply (SendFail reply_fd (install_message r error service)) g)"

definition kill_forward :: "string \<Rightarrow> nat \<Rightarrow> int \<Rightarrow> adb \<Rightarrow> adb res" where
  "kill_forward service transport reply_fd g =
     rbind (Split service '';'') (\<lambda>pieces.
     if length pieces \<noteq> 1 \<or> pieces ! 0 = []
     then Inr (reply (SendFail reply_fd (''bad killforward: '' @ service)) g)
     else
       rbind (remove_listener (pieces ! 0) transport g) (\<lambda>(r, g1).
       Inr (forward_answer reply_fd r [] 0 service g1)))"

definition add_forward :: "host_env \<Rightarrow> string \<Rightarrow> bool \<Rightarrow> nat \<Rightarrow> int \<Rightarrow> adb \<Rightarrow> adb res" where
  "add_forward env service no_rebind transport reply_fd g =
     rbind (Split service '';'') (\<lambda>pieces.
     if length pieces \<noteq> 2 \<or> pieces ! 0 = [] \<or> pieces ! 1 = [] \<or> hd (pieces ! 1) = CHR ''*''
     then Inr (reply (SendFail reply_fd (''bad forward: '' @ service)) g)
     else
       rbind (install_listener env (pieces ! 0) (pieces ! 1) (Some transport) no_rebind g)
         (\<lambda>((r, error, resolved_tcp_port), g1).
       Inr (forward_answer reply_fd r (case error of None \<Rightarrow> [] | Some e \<Rightarrow> e) resolved_tcp_port service g1)))"

text \<open>The result tells whether the request was one of these.\<close>

definition handle_forward_request ::
  "host_env \<Rightarrow> string \<Rightarrow> (adb \<Rightarrow> (nat option \<times> string) res) \<Rightarrow> int \<Rightarrow> adb \<Rightarrow> (bool \<times> adb) res" where
  "handle_forward_request env service transport_acquirer reply_fd g =
     (if service = ''list-forward'' then
        rbind (format_listeners g) (\<lambda>listeners. Inr (True, SendOkay_string reply_fd listeners g))
      else if service = ''killforward-all'' then
        rbind (remove_all_listeners g) (\<lambda>g1.
        Inr (True, reply (SendOkay reply_fd) (reply (SendOkay reply_fd) g1)))
      else if StartsWith service ''forward:'' \<or> StartsWith service ''killforward:'' then
        rbind (transport_acquirer g) (\<lambda>(transport, error).
        case transport of
          None \<Rightarrow> Inr (True, reply (SendFail reply_fd error) g)
        | Some t \<Rightarrow>
            rbind
              (if StartsWith service ''killforward:'' then kill_forward (drop 12 service) t reply_fd g
               else if StartsWith (drop 8 service) ''norebind:''
               then add_forward env (drop 17 service) True t reply_fd g
               else add_forward env (drop 8 service) False t reply_fd g) (\<lambda>g1.
            Inr (True, g1)))
      else Inr (False, g))"

section \<open>Requests about devices\<close>

text \<open>
  \<open>transport\<close> requests choose the transport of the smart socket \<open>s\<close>; the result tells whether the
  request is settled, which it is not when another request is to follow.
\<close>

definition transport_request ::
  "host_env \<Rightarrow> string \<Rightarrow> string option \<Rightarrow> u64 \<Rightarrow> int \<Rightarrow> nat \<Rightarrow> adb \<Rightarrow> (bool \<times> adb) res" where
  "transport_request env service serial transport_id reply_fd s g =
     (let acquire = (\<lambda>ty serial tid.
            rbind (acquire_one_transport env ty serial tid False g) (\<lambda>(t, error, _).
            case t of
              None \<Rightarrow> Inr (True, reply (SendFail reply_fd error) g)
            | Some a \<Rightarrow>
                rbind (sock_upd s (\<lambda>x. x\<lparr>as_transport := Some a\<rparr>) g) (\<lambda>g1.
                Inr (False, reply (SendOkay reply_fd) g1))))
      in if StartsWith service ''transport-id:'' then
           (let (v, _, rest) = strtoll 10 (drop 13 service)
            in if rest \<noteq> [] then Inr (True, reply (SendFail reply_fd ''invalid transport id'') g)
               else acquire kTransportAny serial (of_int v))
         else if StartsWith service ''transport-usb'' then acquire kTransportUsb serial transport_id
         else if StartsWith service ''transport-local'' then acquire kTransportLocal serial transport_id
         else if StartsWith service ''transport-any'' then acquire kTransportAny serial transport_id
         else if StartsWith service ''transport:'' then acquire kTransportAny (Some (drop 10 service)) transport_id
         else acquire kTransportAny serial transport_id)"

fun offline_names :: "adb \<Rightarrow> nat list \<Rightarrow> string res" where
  "offline_names g [] = Inr []"
| "offline_names g (t # ts) =
     rbind (tport t g) (\<lambda>x.
     rbind (offline_names g ts) (\<lambda>rest.
     Inr (if \<not> ConnectionStateIsOnline (at_state x)
          then ''reconnecting '' @ serial_name x @ [CHR 0x0A] @ rest else rest)))"

definition reconnect_offline :: "int \<Rightarrow> adb \<Rightarrow> adb res" where
  "reconnect_offline reply_fd g =
     rbind (offline_names g (g_transport_list g)) (\<lambda>response.
     rbind (close_usb_devices (\<lambda>x. \<not> ConnectionStateIsOnline (at_state x)) g) (\<lambda>g1.
     Inr (SendOkay_string reply_fd (butlast response) g1)))"

definition feature_insert :: "string \<Rightarrow> FeatureSet \<Rightarrow> FeatureSet" where
  "feature_insert f fs = (if f \<in> set fs then fs else fs @ [f])"

definition host_features :: "host_env \<Rightarrow> FeatureSet" where
  "host_features env =
     feature_insert kFeaturePushSync
       (if env_libusb env then feature_insert kFeatureLibusb supported_features else supported_features)"

definition disconnect_request :: "string \<Rightarrow> int \<Rightarrow> adb \<Rightarrow> adb res" where
  "disconnect_request address reply_fd g =
     (if address = [] then
        rbind (kick_all_tcp_devices g) (\<lambda>g1. Inr (SendOkay_string reply_fd ''disconnected everything'' g1))
      else
        rbind (ParseNetAddress address DEFAULT_ADB_LOCAL_TRANSPORT_PORT) (\<lambda>parsed.
        case parsed of
          Inl error \<Rightarrow> Inr (reply (SendFail reply_fd (''couldn't parse '' @ quoted address @ '': '' @ c_str error)) g)
        | Inr (host, port, serial) \<Rightarrow>
            rbind (find_transport serial g) (\<lambda>r.
            case r of
              None \<Rightarrow> Inr (reply (SendFail reply_fd (''no such device '' @ quoted serial)) g)
            | Some t \<Rightarrow>
                rbind (kick_transport t g) (\<lambda>g1.
                Inr (SendOkay_string reply_fd (''disconnected '' @ c_str address) g1)))))"

text \<open>Requests that ask something of the selected transport.\<close>

definition query_request ::
  "(nat option \<times> string \<times> bool) res \<Rightarrow> (atransport \<Rightarrow> string) \<Rightarrow> int \<Rightarrow> adb \<Rightarrow> (bool \<times> adb) res" where
  "query_request acquired f reply_fd g =
     rbind acquired (\<lambda>(t, error, _).
     case t of
       None \<Rightarrow> Inr (True, reply (SendFail reply_fd error) g)
     | Some a \<Rightarrow> rbind (tport a g) (\<lambda>x. Inr (True, SendOkay_string reply_fd (f x) g)))"

definition reconnect_request :: "host_env \<Rightarrow> TransportType \<Rightarrow> string option \<Rightarrow> u64 \<Rightarrow> int \<Rightarrow> adb \<Rightarrow> adb res" where
  "reconnect_request env ty serial transport_id reply_fd g =
     rbind (acquire_one_transport env ty serial transport_id True g) (\<lambda>(t, error, _).
     case t of
       None \<Rightarrow> Inr (SendOkay_string reply_fd error g)
     | Some a \<Rightarrow>
         rbind (kick_transport a g) (\<lambda>g1.
         rbind (tport a g1) (\<lambda>x.
         Inr (SendOkay_string reply_fd
                (''reconnecting '' @ serial_name x @ '' ['' @ connection_state_name env (at_state x) @ '']'' @ [CHR 0x0A])
                g1))))"

definition or_unknown :: "string \<Rightarrow> string" where
  "or_unknown s = (if s \<noteq> [] then s else ''unknown'')"

definition handle_host_request ::
  "host_env \<Rightarrow> string \<Rightarrow> TransportType \<Rightarrow> string option \<Rightarrow> u64 \<Rightarrow> int \<Rightarrow> nat \<Rightarrow> adb \<Rightarrow> (bool \<times> adb) res" where
  "handle_host_request env service ty serial transport_id reply_fd s g =
     (let acquired = acquire_one_transport env ty serial transport_id False g
      in if service = ''kill'' then Inl (Exit 0)
         else if StartsWith service ''transport'' then
           transport_request env service serial transport_id reply_fd s g
         else if StartsWith service ''devices'' then
           (let long_listing = (drop 7 service = ''-l'')
            in if long_listing \<or> length service = 7 then
                 rbind (list_transports env long_listing g) (\<lambda>device_list.
                 Inr (True, SendOkay_string reply_fd device_list g))
               else Inr (True, g))
         else if service = ''reconnect-offline'' then
           rbind (reconnect_offline reply_fd g) (\<lambda>g1. Inr (True, g1))
         else if service = ''features'' then
           query_request acquired (\<lambda>x. FeatureSetToString (at_features x)) reply_fd g
         else if service = ''host-features'' then
           Inr (True, SendOkay_string reply_fd (FeatureSetToString (host_features env)) g)
         else if StartsWith service ''disconnect:'' then
           rbind (disconnect_request (drop 11 service) reply_fd g) (\<lambda>g1. Inr (True, g1))
         else if service = ''version'' then
           Inr (True, SendOkay_string reply_fd (hex04 ADB_SERVER_VERSION) g)
         else if service = ''get-serialno'' then
           query_request acquired (\<lambda>x. or_unknown (at_serial x)) reply_fd g
         else if service = ''get-devpath'' then
           query_request acquired (\<lambda>x. or_unknown (at_devpath x)) reply_fd g
         else if service = ''get-state'' then
           query_request acquired (\<lambda>x. connection_state_name env (at_state x)) reply_fd g
         else if StartsWith service ''emulator:'' then
           rbind (local_connect env (to_int32 (fst (strtoll 10 (drop 9 service)))) g) (\<lambda>(_, g1). Inr (True, g1))
         else if service = ''reconnect'' then
           rbind (reconnect_request env ty serial transport_id reply_fd g) (\<lambda>g1. Inr (True, g1))
         else
           handle_forward_request env service
             (\<lambda>g. rbind (acquire_one_transport env ty serial transport_id False g) (\<lambda>(t, error, _). Inr (t, error)))
             reply_fd g)"

end
