(* ===== verification/SmartSocket.thy ===== *)
theory SmartSocket
  imports HostRequest
begin

text \<open>
  The smart socket of \<open>sockets.cpp\<close>: it collects a request of a client (four hexadecimal digits with
  the length, then the request), and either has it handled by the host, or binds the client to a
  host service or to a service of the selected device.
\<close>

section \<open>Parsing\<close>

definition unhex_digit :: "char \<Rightarrow> u32 option" where
  "unhex_digit c =
     (if CHR ''0'' \<le> c \<and> c \<le> CHR ''9'' then Some (of_nat (of_char c) - of_nat (of_char (CHR ''0'')))
      else if CHR ''a'' \<le> c \<and> c \<le> CHR ''f'' then Some (of_nat (of_char c) - of_nat (of_char (CHR ''a'')) + 10)
      else if CHR ''A'' \<le> c \<and> c \<le> CHR ''F'' then Some (of_nat (of_char c) - of_nat (of_char (CHR ''A'')) + 10)
      else None)"

fun unhex_loop :: "string \<Rightarrow> u32 \<Rightarrow> u32" where
  "unhex_loop [] n = n"
| "unhex_loop (ch # s) n =
     (case unhex_digit ch of
        None \<Rightarrow> 0xffffffff
      | Some c \<Rightarrow> unhex_loop s (or (push_bit 4 n) c))"

definition unhex :: "string \<Rightarrow> u32" where
  "unhex s = unhex_loop s 0"

text \<open>\<open>strchr(service + n, c)\<close>, as an offset into \<open>service\<close>.\<close>

fun strchr :: "string \<Rightarrow> char \<Rightarrow> nat option" where
  "strchr [] c = None"
| "strchr (x # xs) c = (if x = c then Some 0 else map_option Suc (strchr xs c))"

definition strchr_from :: "nat \<Rightarrow> string \<Rightarrow> char \<Rightarrow> nat option" where
  "strchr_from n s c = map_option (\<lambda>i. n + i) (strchr (drop n s) c)"

definition serial_prefixes :: "string list" where
  "serial_prefixes = [''usb:'', ''product:'', ''model:'', ''device:'']"

text \<open>The offset of the colon just before the command.\<close>

definition skip_host_serial :: "string \<Rightarrow> nat option" where
  "skip_host_serial service =
     (case find (\<lambda>prefix. strncmp_eq service prefix (length prefix)) serial_prefixes of
        Some prefix \<Rightarrow> strchr_from (length prefix) service (CHR '':'')
      | None \<Rightarrow>
          (let p1 = (if strncmp_eq service ''tcp:'' 4 \<or> strncmp_eq service ''udp:'' 4 then 4 else 0);
               p2 = (if take 1 (drop p1 service) = ''['' then
                       (case strchr_from p1 service (CHR '']'') of None \<Rightarrow> p1 | Some e \<Rightarrow> e)
                     else p1)
           in case strchr_from p2 service (CHR '':'') of
                None \<Rightarrow> None
              | Some colon \<Rightarrow>
                  (let digits = takeWhile isdigit (drop (colon + 1) service);
                       serial_end = colon + 1 + length digits
                   in if digits \<noteq> [] \<and> take 1 (drop serial_end service) = '':''
                      then Some serial_end else Some colon)))"

text \<open>
  The prefix of a host request: the type, the serial and the id it names, and the service that follows.
  \<open>Inl\<close> marks the malformed id.
\<close>

definition host_prefix :: "string \<Rightarrow> (unit + (TransportType \<times> string option \<times> u64 \<times> string)) option" where
  "host_prefix request =
     (if strncmp_eq request ''host-serial:'' 12 then
        (let service = drop 12 request
         in case skip_host_serial service of
              Some serial_end \<Rightarrow>
                Some (Inr (kTransportAny, Some (take serial_end service), 0, drop (Suc serial_end) service))
            | None \<Rightarrow> Some (Inr (kTransportAny, None, 0, service)))
      else if strncmp_eq request ''host-transport-id:'' 18 then
        (let (v, _, rest) = strtoll 10 (drop 18 request)
         in if take 1 rest = '':'' then Some (Inr (kTransportAny, None, of_int v, drop 1 rest)) else Some (Inl ()))
      else if strncmp_eq request ''host-usb:'' 9 then Some (Inr (kTransportUsb, None, 0, drop 9 request))
      else if strncmp_eq request ''host-local:'' 11 then Some (Inr (kTransportLocal, None, 0, drop 11 request))
      else if strncmp_eq request ''host:'' 5 then Some (Inr (kTransportAny, None, 0, drop 5 request))
      else None)"

section \<open>Requests\<close>

text \<open>\<open>fail\<close>: the socket closes itself and with it its peer.\<close>

definition smart_fail :: "nat \<Rightarrow> adb \<Rightarrow> (int \<times> adb) res" where
  "smart_fail a g = rbind (close_socket a g) (\<lambda>g1. Inr (-1, g1))"

definition smart_peer :: "nat \<Rightarrow> adb \<Rightarrow> (nat \<times> asocket) res" where
  "smart_peer a g = rbind (sock a g) (\<lambda>s. rbind (nonnull (as_peer s)) (\<lambda>b. rbind (sock b g) (\<lambda>p. Inr (b, p))))"

text \<open>
  A host service has been found: the peer becomes a regular local socket bound to it, and this socket
  closes.
\<close>

definition smart_bind :: "(nat \<Rightarrow> adb \<Rightarrow> adb res) \<Rightarrow> nat \<Rightarrow> nat \<Rightarrow> adb \<Rightarrow> (int \<times> adb) res" where
  "smart_bind rdy a s2 g =
     rbind (smart_peer a g) (\<lambda>(b, p).
     rbind (sock_upd b (\<lambda>p. (reset_slots p)\<lparr>as_peer := Some s2\<rparr>) (reply (SendOkay (as_fd p)) g)) (\<lambda>g1.
     rbind (sock_upd s2 (\<lambda>x. x\<lparr>as_peer := Some b\<rparr>) g1) (\<lambda>g2.
     rbind (sock_upd a (\<lambda>s. s\<lparr>as_peer := None\<rparr>) g2) (\<lambda>g3.
     rbind (close_socket a g3) (\<lambda>g4.
     rbind (rdy s2 g4) (\<lambda>g5. Inr (0, g5)))))))"

definition smart_host ::
  "host_env \<Rightarrow> (nat \<Rightarrow> adb \<Rightarrow> adb res) \<Rightarrow> nat \<Rightarrow> TransportType \<Rightarrow> string option \<Rightarrow> u64 \<Rightarrow> string \<Rightarrow> adb \<Rightarrow>
   (int \<times> adb) res" where
  "smart_host env rdy a ty serial transport_id service g =
     rbind (smart_peer a g) (\<lambda>(b, p).
     rbind (handle_host_request env service ty serial transport_id (as_fd p) a g) (\<lambda>(handled, g1).
     if handled then smart_fail a g1
     else if strncmp_eq service ''transport'' 9 then
       rbind (sock_upd a (\<lambda>s. s\<lparr>as_smart_data := []\<rparr>) g1) (\<lambda>g2. Inr (0, g2))
     else
       rbind (host_service_to_socket service serial transport_id g1) (\<lambda>(r, g2).
       case r of
         None \<Rightarrow> smart_fail a (reply (SendFail (as_fd p) ''unknown host service'') g2)
       | Some s2 \<Rightarrow> smart_bind rdy a s2 g2)))"

text \<open>
  A service of the device: the peer is told to report the outcome, gets the transport, and asks for the
  connection.
\<close>

definition notify_slots :: "asocket \<Rightarrow> asocket" where
  "notify_slots s = s\<lparr>as_ready := local_socket_ready_notify_f, as_shutdown := None,
                     as_close := local_socket_close_notify_f, as_peer := None\<rparr>"

definition smart_device :: "nat \<Rightarrow> string \<Rightarrow> adb \<Rightarrow> (int \<times> adb) res" where
  "smart_device a service g =
     rbind (sock a g) (\<lambda>s.
     rbind (smart_peer a g) (\<lambda>(b, p).
     case as_transport s of
       None \<Rightarrow> smart_fail a (reply (SendFail (as_fd p) ''device offline (no transport)'') g)
     | Some t \<Rightarrow>
         rbind (tport t g) (\<lambda>x.
         if \<not> ConnectionStateIsOnline (at_state x)
         then smart_fail a (reply (SendFail (as_fd p) ''device offline (transport offline)'') g)
         else
           rbind (sock_upd b (\<lambda>p. (notify_slots p)\<lparr>as_transport := Some t\<rparr>) g) (\<lambda>g1.
           rbind (connect_to_remote b service g1) (\<lambda>g2.
           rbind (sock_upd a (\<lambda>s. s\<lparr>as_peer := None\<rparr>) g2) (\<lambda>g3.
           rbind (close_socket a g3) (\<lambda>g4. Inr (1, g4))))))))"

definition smart_socket_enqueue ::
  "host_env \<Rightarrow> (nat \<Rightarrow> adb \<Rightarrow> adb res) \<Rightarrow> nat \<Rightarrow> Block \<Rightarrow> adb \<Rightarrow> (int \<times> adb) res" where
  "smart_socket_enqueue env rdy a data g =
     rbind (sock a g) (\<lambda>s.
     (let buf = as_smart_data s @ Block_bytes data
      in rbind (sock_upd a (\<lambda>s. s\<lparr>as_smart_data := buf\<rparr>) g) (\<lambda>g1.
         if length buf < 4 then Inr (0, g1)
         else
           (let len = unat (unhex (take 4 buf))
            in if len = 0 \<or> len > MAX_PAYLOAD then smart_fail a g1
               else if len + 4 > length buf then Inr (0, g1)
               else
                 (let buf1 = buf[len + 4 := NUL]; request = c_str (take len (drop 4 buf))
                  in rbind (sock_upd a (\<lambda>s. s\<lparr>as_smart_data := buf1\<rparr>) g1) (\<lambda>g2.
                     case host_prefix request of
                       Some (Inl _) \<Rightarrow> Inr (-1, g2)
                     | Some (Inr (ty, serial, transport_id, service)) \<Rightarrow>
                         smart_host env rdy a ty serial transport_id service g2
                     | None \<Rightarrow> smart_device a request g2))))))"

text \<open>
  The call through the slot. A smart socket calls \<open>ready\<close> of a service socket only, which never leads
  back to a smart socket, so a call depth of one is enough.
\<close>

fun smart_call :: "nat \<Rightarrow> host_env \<Rightarrow> nat \<Rightarrow> Block \<Rightarrow> adb \<Rightarrow> (int \<times> adb) res" where
  "smart_call 0 env a data g = Inl OutOfFuel"
| "smart_call (Suc n) env a data g =
     smart_socket_enqueue env (sock_ready env (smart_call n env)) a data g"

abbreviation smart :: "host_env \<Rightarrow> nat \<Rightarrow> Block \<Rightarrow> adb \<Rightarrow> (int \<times> adb) res" where
  "smart \<equiv> smart_call 1"

section \<open>Properties of the parser\<close>

lemma unhex_digit_val: "unhex_digit c = map_option of_nat (digit_val 16 c)"
proof -
  have d: "of_nat (of_char c) - of_nat k = (of_nat (of_char c - k) :: u32)" if "k \<le> of_char c" for k
    using that by (simp add: of_nat_diff)
  have "unhex_digit c =
    (if 48 \<le> (of_char c :: nat) \<and> (of_char c :: nat) \<le> 57 then Some (of_nat (of_char c - 48))
     else if 97 \<le> (of_char c :: nat) \<and> (of_char c :: nat) \<le> 102 then Some (of_nat (of_char c - 87))
     else if 65 \<le> (of_char c :: nat) \<and> (of_char c :: nat) \<le> 70 then Some (of_nat (of_char c - 55)) else None)"
    by (auto simp: unhex_digit_def less_eq_char_def of_nat_diff)
  also have "\<dots> = map_option of_nat (digit_val 16 c)"
    by (auto simp: digit_val_def isdigit_def islower_def isupper_def Let_def)
  finally show ?thesis .
qed

lemma shift_or: "v < 16 \<Longrightarrow> or (push_bit 4 (of_nat n :: u32)) (of_nat v) = of_nat (n * 16 + v)"
proof -
  assume v: "v < 16"
  have "\<not> bit (push_bit 4 (of_nat n :: u32)) i \<or> \<not> bit (of_nat v :: u32) i" for i
  proof (cases "i < 4")
    case False
    have "take_bit 4 v = v" using v by (simp add: take_bit_nat_eq_self)
    then have "\<not> bit v i" using False by (metis bit_take_bit_iff)
    then show ?thesis by (simp add: bit_of_nat_iff)
  qed (simp add: bit_push_bit_iff)
  then have "or (push_bit 4 (of_nat n :: u32)) (of_nat v) = push_bit 4 (of_nat n) + of_nat v"
    by (rule disjunctive_add [symmetric])
  then show "or (push_bit 4 (of_nat n :: u32)) (of_nat v) = of_nat (n * 16 + v)"
    by (simp add: push_bit_eq_mult)
qed

lemma unhex_loop_value:
  "unhex_loop s (of_nat n) =
     (if list_all (\<lambda>c. digit_val 16 c \<noteq> None) s then of_nat (fst (scan_digits 16 n s)) else 0xffffffff)"
proof (induction s arbitrary: n)
  case (Cons c s)
  show ?case
  proof (cases "digit_val 16 c")
    case (Some v)
    then have "v < 16" by (auto simp: digit_val_def Let_def split: if_splits)
    then show ?thesis using Some Cons.IH [of "n * 16 + v"] by (simp add: unhex_digit_val shift_or mult.commute)
  qed (simp add: unhex_digit_val)
qed simp

text \<open>
  Property C24. The hand-written \<open>unhex\<close> agrees with the library: it is the value of \<open>strtoul\<close>'s digit
  scanner modulo \<open>2^32\<close> on a string of hexadecimal digits, and \<open>0xffffffff\<close> on any other.
\<close>

theorem unhex_value:
  "unhex s = (if list_all (\<lambda>c. digit_val 16 c \<noteq> None) s then of_nat (fst (scan_digits 16 0 s)) else 0xffffffff)"
  using unhex_loop_value [of s 0] by (simp add: unhex_def)

lemma strchr_append: "c \<notin> set xs \<Longrightarrow> strchr (xs @ c # ys) c = Some (length xs)"
  by (induction xs) auto

lemma strchr_from_append:
  "c \<notin> set xs \<Longrightarrow> strchr_from (length p) (p @ xs @ c # ys) c = Some (length p + length xs)"
  by (simp add: strchr_from_def strchr_append)

lemma c_str_append_no_NUL: "NUL \<notin> set h \<Longrightarrow> c_str (h @ r) = h @ c_str r"
  unfolding c_str_def by (rule takeWhile_append2) auto

lemma c_str_colon: "c_str (CHR '':'' # r) = CHR '':'' # c_str r"
  by (simp add: c_str_def NUL_def)

lemma prefix_colon:
  assumes "CHR '':'' \<notin> set h" "CHR '':'' \<notin> set q" "NUL \<notin> set h" "NUL \<notin> set q"
  shows "strncmp_eq (h @ CHR '':'' # r) (q @ '':'') (Suc (length q)) \<longleftrightarrow> h = q"
proof
  assume "strncmp_eq (h @ CHR '':'' # r) (q @ '':'') (Suc (length q))"
  then have "take (Suc (length q)) (h @ CHR '':'' # c_str r) = q @ '':''"
    using assms(3,4) c_str_colon [of "[]"] by (simp add: strncmp_eq_def c_str_append_no_NUL c_str_colon c_str_def [of "[]"])
  then obtain z where "h @ CHR '':'' # c_str r = (q @ '':'') @ z" by (metis append_take_drop_id)
  then have "h @ CHR '':'' # c_str r = q @ CHR '':'' # z" by simp
  then have "takeWhile (\<lambda>c. c \<noteq> CHR '':'') (h @ CHR '':'' # c_str r) = takeWhile (\<lambda>c. c \<noteq> CHR '':'') (q @ CHR '':'' # z)"
    by simp
  moreover have "takeWhile (\<lambda>c. c \<noteq> CHR '':'') (v @ CHR '':'' # w) = v" if "CHR '':'' \<notin> set v" for v w
    using that by (induction v) auto
  ultimately show "h = q" using assms(1,2) by simp
next
  assume "h = q"
  then show "strncmp_eq (h @ CHR '':'' # r) (q @ '':'') (Suc (length q))"
    using assms(3,4) by (simp add: strncmp_eq_def c_str_append_no_NUL c_str_colon c_str_def [of "[]"])
qed

text \<open>Host names that mean something else in a serial.\<close>

definition reserved_hosts :: "string list" where
  "reserved_hosts = [''usb'', ''product'', ''model'', ''device'', ''tcp'', ''udp'']"

lemma no_prefix_of_host:
  assumes h: "CHR '':'' \<notin> set h" "NUL \<notin> set h" "h \<notin> set reserved_hosts" and r: "s = h @ CHR '':'' # r"
  shows "find (\<lambda>prefix. strncmp_eq s prefix (length prefix)) serial_prefixes = None"
    "\<not> strncmp_eq s ''tcp:'' 4" "\<not> strncmp_eq s ''udp:'' 4"
proof -
  have n: "\<not> strncmp_eq s (q @ '':'') (Suc (length q))" if "q \<in> set reserved_hosts" for q
  proof -
    have "CHR '':'' \<notin> set q" "NUL \<notin> set q" using that by (auto simp: reserved_hosts_def NUL_def)
    then show ?thesis using prefix_colon [of h q r] h r that by metis
  qed
  show "find (\<lambda>prefix. strncmp_eq s prefix (length prefix)) serial_prefixes = None"
    using n [of "''usb''"] n [of "''product''"] n [of "''model''"] n [of "''device''"]
    by (simp add: serial_prefixes_def reserved_hosts_def numeral_eq_Suc)
  show "\<not> strncmp_eq s ''tcp:'' 4" "\<not> strncmp_eq s ''udp:'' 4"
    using n [of "''tcp''"] n [of "''udp''"] by (simp_all add: reserved_hosts_def numeral_eq_Suc)
qed

lemma digit_val_decimal: "digit_val 10 c \<noteq> None \<Longrightarrow> isdigit c"
proof (rule ccontr)
  assume "digit_val 10 c \<noteq> None" "\<not> isdigit c"
  then show False
    by (cases "islower c"; cases "isupper c") (auto simp: digit_val_def islower_def isupper_def Let_def split: if_splits)
qed

lemma isdigit_digits: "list_all isdigit (digits 10 n)"
proof -
  have "\<forall>c \<in> set (digits 10 n). digit_val 10 c \<noteq> None" by (rule digits_are_digits) simp_all
  then show ?thesis unfolding list_all_iff using digit_val_decimal by blast
qed

lemma isdigit_dec: "0 \<le> p \<Longrightarrow> list_all isdigit (dec p) \<and> dec p \<noteq> []"
  by (simp add: dec_def isdigit_digits)

lemma port_end:
  assumes p: "0 \<le> p" and c: "strchr_from k s (CHR '':'') = Some (length u)" and s: "s = u @ CHR '':'' # dec p @ CHR '':'' # cmd"
  shows "takeWhile isdigit (drop (length u + 1) s) = dec p"
    "take 1 (drop (length u + 1 + length (dec p)) s) = '':''"
proof -
  have "\<not> isdigit (CHR '':'')" by (simp add: isdigit_def)
  then show "takeWhile isdigit (drop (length u + 1) s) = dec p"
    using isdigit_dec [OF p] takeWhile_append2 [of "dec p" isdigit "CHR '':'' # cmd"] by (simp add: s list_all_iff)
qed (simp add: s)

text \<open>
  Property C25. The serial that \<open>adb connect\<close> gives a device, \<open>host:port\<close> or \<open>[host]:port\<close>, is recovered
  from a request \<open>host-serial:<serial>:<command>\<close> as a whole, whatever the command: the colon of the
  port is not mistaken for the end of the serial. Exceptions are hosts named like a serial prefix.
\<close>

theorem host_serial_addressed:
  assumes "0 \<le> p" "NUL \<notin> set h"
    "serial = h @ '':'' @ dec p \<and> CHR '':'' \<notin> set h \<and> h \<noteq> [] \<and> hd h \<noteq> CHR ''['' \<and> h \<notin> set reserved_hosts
     \<or> serial = ''['' @ h @ '']:'' @ dec p \<and> CHR '']'' \<notin> set h"
  shows "host_prefix (''host-serial:'' @ serial @ '':'' @ cmd) = Some (Inr (kTransportAny, Some serial, 0, cmd))"
proof -
  have "skip_host_serial (serial @ CHR '':'' # cmd) = Some (length serial)"
    using assms(3)
  proof (elim disjE conjE)
    assume a: "serial = h @ '':'' @ dec p" "CHR '':'' \<notin> set h" "h \<noteq> []" "hd h \<noteq> CHR ''[''" "h \<notin> set reserved_hosts"
    define s where "s = h @ CHR '':'' # dec p @ CHR '':'' # cmd"
    have c: "strchr_from 0 s (CHR '':'') = Some (length h)"
      using strchr_from_append [of "CHR '':''" h "[]"] a(2) by (simp add: s_def)
    have "take 1 s \<noteq> ''[''" using a(3,4) by (cases h) (simp_all add: s_def)
    then have "skip_host_serial s = Some (length h + 1 + length (dec p))"
      unfolding skip_host_serial_def no_prefix_of_host [OF a(2) assms(2) a(5) s_def] option.case
      using no_prefix_of_host(2,3) [OF a(2) assms(2) a(5) s_def] c port_end [OF assms(1) c s_def] isdigit_dec [OF assms(1)]
      by (simp add: Let_def)
    then show ?thesis using a(1) by (simp add: s_def)
  next
    assume a: "serial = ''['' @ h @ '']:'' @ dec p" "CHR '']'' \<notin> set h"
    define u where "u = ''['' @ h @ '']''"
    define s where "s = u @ CHR '':'' # dec p @ CHR '':'' # cmd"
    have sb: "hd (c_str s) = CHR ''[''" "c_str s \<noteq> []" by (simp_all add: s_def u_def c_str_def NUL_def)
    have np: "\<not> strncmp_eq s q (length q)" if "q \<noteq> []" "hd q \<noteq> CHR ''[''" "NUL \<notin> set q" for q
    proof
      assume "strncmp_eq s q (length q)"
      then have "take (length q) (c_str s) = q" using that(3) by (simp add: strncmp_eq_def)
      then show False using that(1,2) sb by (metis hd_take length_greater_0_conv)
    qed
    have f: "find (\<lambda>prefix. strncmp_eq s prefix (length prefix)) serial_prefixes = None"
      "\<not> strncmp_eq s ''tcp:'' 4" "\<not> strncmp_eq s ''udp:'' 4"
      using np [of "''usb:''"] np [of "''product:''"] np [of "''model:''"] np [of "''device:''"] np [of "''tcp:''"]
        np [of "''udp:''"] by (simp_all add: serial_prefixes_def NUL_def numeral_eq_Suc)
    have e: "strchr_from 0 s (CHR '']'') = Some (length h + 1)"
      using strchr_from_append [of "CHR '']''" "CHR ''['' # h" "[]"] a(2) by (simp add: s_def u_def)
    have c: "strchr_from (length h + 1) s (CHR '':'') = Some (length u)"
      using strchr_from_append [of "CHR '':''" "'']''" "CHR ''['' # h"] by (simp add: s_def u_def)
    have t: "take 1 s = ''[''" by (simp add: s_def u_def)
    have "skip_host_serial s = Some (length u + 1 + length (dec p))"
      unfolding skip_host_serial_def f option.case
      using f(2,3) t e c port_end [OF assms(1) c s_def] isdigit_dec [OF assms(1)] by (simp add: Let_def)
    then show ?thesis using a(1) by (simp add: s_def u_def)
  qed
  then show ?thesis by (simp add: host_prefix_def strncmp_eq_def c_str_def NUL_def)
qed

theorem host_serial_addressed_witness:
  "host_prefix (''host-serial:'' @ (''10.0.0.2'' @ '':'' @ dec 5555) @ '':'' @ ''get-state'')
     = Some (Inr (kTransportAny, Some (''10.0.0.2'' @ '':'' @ dec 5555), 0, ''get-state''))
   \<and> host_prefix (''host-serial:'' @ (''['' @ ''fe80::1'' @ '']:'' @ dec 5555) @ '':'' @ ''get-state'')
     = Some (Inr (kTransportAny, Some (''['' @ ''fe80::1'' @ '']:'' @ dec 5555), 0, ''get-state''))"
  using host_serial_addressed [of 5555 "''10.0.0.2''" "''10.0.0.2'' @ '':'' @ dec 5555" "''get-state''"]
    host_serial_addressed [of 5555 "''fe80::1''" "''['' @ ''fe80::1'' @ '']:'' @ dec 5555" "''get-state''"]
  by (simp add: reserved_hosts_def NUL_def)

end
