(* ===== verification/Auth.thy ===== *)
theory Auth
  imports Transport
begin

text \<open>
  \<open>client/auth.cpp\<close>: the private keys of the user and the answers to an authentication request. The
  cryptographic library and the file system are parts of the environment.
\<close>

section \<open>Loading keys\<close>

text \<open>
  \<open>EVP_EncodedLength\<close>: the size of the buffer for a Base64 text, with the arithmetic of \<open>size_t\<close>.
\<close>

definition EVP_EncodedLength :: "u64 \<Rightarrow> u64 option" where
  "EVP_EncodedLength len =
     (if len + 2 < len then None
      else (let len1 = (len + 2) div 3
            in if drop_bit 2 (push_bit 2 len1) \<noteq> len1 then None
               else (let len2 = push_bit 2 len1
                     in if len2 + 1 < len2 then None else Some (len2 + 1))))"

text \<open>
  \<open>get_user_info\<close>, with \<open>HOSTNAME\<close>, \<open>gethostname\<close>, \<open>LOGNAME\<close> and \<open>getlogin\<close> as arguments. An unknown
  user name overwrites the host name.
\<close>

definition get_user_info :: "string option \<Rightarrow> string option \<Rightarrow> string option \<Rightarrow> string option \<Rightarrow> string" where
  "get_user_info env_hostname host env_logname login =
     (let h1 = (case env_hostname of None \<Rightarrow> [] | Some h \<Rightarrow> c_str h);
          h2 = (if h1 = [] then (case host of None \<Rightarrow> [] | Some h \<Rightarrow> c_str h) else h1);
          h3 = (if h2 = [] then ''unknown'' else h2);
          u1 = (case env_logname of None \<Rightarrow> [] | Some u \<Rightarrow> c_str u);
          u2 = (if u1 = [] then (case login of None \<Rightarrow> [] | Some u \<Rightarrow> c_str u) else u1);
          h4 = (if u2 = [] then ''unknown'' else h3)
      in '' '' @ u2 @ ''@'' @ h4)"

text \<open>\<open>std::map\<close>: an association list in ascending order of its keys.\<close>

fun map_put :: "string \<Rightarrow> nat \<Rightarrow> (string \<times> nat) list \<Rightarrow> (string \<times> nat) list" where
  "map_put k v [] = [(k, v)]"
| "map_put k v ((k', v') # m) =
     (if k < k' then (k, v) # (k', v') # m
      else if k = k' then (k, v) # m
      else (k', v') # map_put k v m)"

definition read_key_file :: "host_env \<Rightarrow> string \<Rightarrow> adb \<Rightarrow> bool \<times> adb" where
  "read_key_file env file g =
     (case env_key_file env (c_str file) of
        None \<Rightarrow> (False, g)
      | Some key \<Rightarrow>
          (let fingerprint = env_hash_key env key
           in if fingerprint \<in> fst ` set (g_keys g) then (True, g)
              else (True, g\<lparr>g_keys := map_put fingerprint key (g_keys g)\<rparr>)))"

fun read_key_dir :: "host_env \<Rightarrow> string \<Rightarrow> string list \<Rightarrow> bool \<Rightarrow> adb \<Rightarrow> bool \<times> adb" where
  "read_key_dir env path [] result g = (result, g)"
| "read_key_dir env path (name # names) result g =
     (if name = ''.'' \<or> name = ''..'' then read_key_dir env path names result g
      else if \<not> EndsWith name ''.adb_key'' then read_key_dir env path names result g
      else (let (ok, g1) = read_key_file env (path @ ''/'' @ name) g
            in read_key_dir env path names (result \<or> ok) g1))"

definition read_keys :: "host_env \<Rightarrow> string \<Rightarrow> bool \<Rightarrow> adb \<Rightarrow> bool \<times> adb" where
  "read_keys env path allow_dir g =
     (case env_stat env (c_str path) of
        None \<Rightarrow> (False, g)
      | Some S_IFREG \<Rightarrow> read_key_file env path g
      | Some S_IFDIR \<Rightarrow>
          if \<not> allow_dir then (False, g)
          else (case env_readdir env (c_str path) of
                  None \<Rightarrow> (False, g)
                | Some names \<Rightarrow> read_key_dir env path names False g)
      | Some S_IFOTHER \<Rightarrow> (False, g))"

definition get_user_key_path :: "host_env \<Rightarrow> string" where
  "get_user_key_path env = env_android_dir env @ ''/'' @ ''adbkey''"

text \<open>
  \<open>get_user_key\<close>. Generating a key changes the file system: \<open>generate_key\<close> yields the environment
  that the program finds afterwards, or \<open>None\<close> when it fails.
\<close>

definition get_user_key ::
  "(string \<Rightarrow> host_env \<Rightarrow> host_env option) \<Rightarrow> host_env \<Rightarrow> adb \<Rightarrow> bool \<times> adb" where
  "get_user_key generate_key env g =
     (let path = get_user_key_path env
      in if path = [] then (False, g)
         else if env_stat env (c_str path) = None then
           (case generate_key path env of
              None \<Rightarrow> (False, g)
            | Some env1 \<Rightarrow> read_key_file env1 path g)
         else read_key_file env path g)"

text \<open>\<open>get_vendor_keys\<close>: a \<open>std::set\<close>, so the paths come in ascending order and once each.\<close>

definition get_vendor_keys :: "host_env \<Rightarrow> string list res" where
  "get_vendor_keys env =
     (case env_vendor_keys env of
        None \<Rightarrow> Inr []
      | Some adb_keys_path \<Rightarrow>
          rbind (Split (c_str adb_keys_path) '':'') (\<lambda>paths. Inr (sort (remdups paths))))"

fun read_each :: "host_env \<Rightarrow> string list \<Rightarrow> adb \<Rightarrow> adb" where
  "read_each env [] g = g"
| "read_each env (path # paths) g = read_each env paths (snd (read_keys env (c_str path) True g))"

text \<open>\<open>adb_auth_init\<close>, apart from the watch on the vendor key paths (\<open>inotify\<close>).\<close>

definition adb_auth_init ::
  "(string \<Rightarrow> host_env \<Rightarrow> host_env option) \<Rightarrow> host_env \<Rightarrow> adb \<Rightarrow> adb res" where
  "adb_auth_init generate_key env g =
     (let (ok, g1) = get_user_key generate_key env g
      in if \<not> ok then Inr g1
         else rbind (get_vendor_keys env) (\<lambda>key_paths. Inr (read_each env key_paths g1)))"

section \<open>Answering\<close>

definition adb_auth_get_private_keys :: "adb \<Rightarrow> nat option list" where
  "adb_auth_get_private_keys g = map (\<lambda>(_, key). Some key) (g_keys g) @ [None]"

definition NextKey :: "nat \<Rightarrow> adb \<Rightarrow> (nat option \<times> adb) res" where
  "NextKey t g =
     rbind (tport t g) (\<lambda>x.
     (let keys = (if at_keys x = [] then adb_auth_get_private_keys g else at_keys x)
      in case keys of
           [] \<Rightarrow> Inl OutOfBounds
         | key # rest \<Rightarrow>
             rbind (tport_upd t (\<lambda>x. x\<lparr>at_keys := rest\<rparr>) g) (\<lambda>g1. Inr (key, g1))))"

text \<open>
  \<open>adb_auth_sign\<close>; for a token of the wrong size it converts a null pointer into a string, which
  throws.
\<close>

definition adb_auth_sign :: "host_env \<Rightarrow> nat \<Rightarrow> bytes \<Rightarrow> bytes res" where
  "adb_auth_sign env key token =
     (if length token \<noteq> TOKEN_SIZE then Inl NullDeref
      else Inr (case env_rsa_sign env key token of None \<Rightarrow> [] | Some sig \<Rightarrow> sig))"

definition adb_auth_get_userkey :: "host_env \<Rightarrow> string" where
  "adb_auth_get_userkey env =
     (let path = get_user_key_path env
      in if path = [] then []
         else case env_file env (path @ ''.pub'') of None \<Rightarrow> [] | Some content \<Rightarrow> content)"

definition ADB_AUTH_TOKEN :: u32 where "ADB_AUTH_TOKEN = 1"
definition ADB_AUTH_SIGNATURE :: u32 where "ADB_AUTH_SIGNATURE = 2"
definition ADB_AUTH_RSAPUBLICKEY :: u32 where "ADB_AUTH_RSAPUBLICKEY = 3"

definition send_auth :: "u32 \<Rightarrow> bytes \<Rightarrow> nat \<Rightarrow> adb \<Rightarrow> adb res" where
  "send_auth kind bs t g =
     rbind (Block_assign bs Block_new) (\<lambda>data.
     send_packet (get_apacket\<lparr>msg := (msg get_apacket)\<lparr>command := A_AUTH, arg0 := kind,
                                data_length := of_nat (blk_size data)\<rparr>,
                              payload := data\<rparr>) t g)"

definition send_auth_publickey :: "host_env \<Rightarrow> nat \<Rightarrow> adb \<Rightarrow> adb res" where
  "send_auth_publickey env t g =
     (let key = adb_auth_get_userkey env
      in if key = [] then Inr g
         else if length key \<ge> MAX_PAYLOAD_V1 then Inr g
         else send_auth ADB_AUTH_RSAPUBLICKEY (key @ [NUL]) t g)"

definition send_auth_response :: "host_env \<Rightarrow> bytes \<Rightarrow> nat \<Rightarrow> adb \<Rightarrow> adb res" where
  "send_auth_response env token t g =
     rbind (NextKey t g) (\<lambda>(key, g1).
     case key of
       None \<Rightarrow>
         rbind (tport_upd t (\<lambda>x. SetConnectionEstablished True (x\<lparr>at_state := kCsUnauthorized\<rparr>)) g1)
           (send_auth_publickey env t)
     | Some k \<Rightarrow>
         rbind (adb_auth_sign env k token) (\<lambda>sig.
         if sig = [] then Inr g1 else send_auth ADB_AUTH_SIGNATURE sig t g1))"

section \<open>Properties\<close>

lemma push_drop_fits: "drop_bit 2 (push_bit 2 (x :: u64)) = x \<longleftrightarrow> unat x < 2 ^ 62"
proof -
  have "drop_bit 2 (push_bit 2 x) = take_bit 62 x"
    by (rule bit_eqI) (auto simp: bit_simps)
  moreover have "take_bit 62 x = x \<longleftrightarrow> unat x < 2 ^ 62"
    by (metis take_bit_nat_eq_self_iff unsigned_take_bit_eq word_unat_eq_iff)
  ultimately show ?thesis by simp
qed

lemma push_bit_two: "unat (x :: u64) < 2 ^ 62 \<Longrightarrow> unat (push_bit 2 x) = 4 * unat x"
  by (simp add: push_bit_eq_mult unat_mult_lem [THEN iffD1] unat_word_ariths)

text \<open>
  Property C21. \<open>EVP_EncodedLength\<close> computes the exact length of the Base64 text with its terminator,
  and fails exactly when that length does not fit \<open>size_t\<close>: no intermediate result wraps around unseen.
\<close>

theorem EVP_EncodedLength_exact:
  "case EVP_EncodedLength len of
     Some n \<Rightarrow> unat n = 4 * ((unat len + 2) div 3) + 1
   | None \<Rightarrow> 2 ^ 64 \<le> 4 * ((unat len + 2) div 3) + 1"
proof -
  have lt: "unat len < 2 ^ 64" using unsigned_less [of len] by simp
  have w: "len + 2 < len \<longleftrightarrow> 2 ^ 64 \<le> unat len + 2"
    using lt by (auto simp: word_less_nat_alt unat_word_ariths mod_if)
  show ?thesis
  proof (cases "len + 2 < len")
    case True
    then show ?thesis using w by (simp add: EVP_EncodedLength_def)
  next
    case False
    define m where "m = (len + 2) div 3"
    have s: "unat (len + 2) = unat len + 2" using False w lt by (simp add: unat_word_ariths)
    have m: "unat m = (unat len + 2) div 3" unfolding m_def unat_div s by simp
    show ?thesis
    proof (cases "unat m < 2 ^ 62")
      case True
      have p: "unat (push_bit 2 m) = 4 * unat m" by (rule push_bit_two [OF True])
      have "unat (push_bit 2 m + 1) = 4 * unat m + 1" using True p by (simp add: unat_word_ariths)
      moreover from this have "\<not> push_bit 2 m + 1 < push_bit 2 m" using p by (simp add: word_less_nat_alt)
      ultimately show ?thesis
        using False True m by (simp add: EVP_EncodedLength_def m_def [symmetric] push_drop_fits)
    next
      case wide: False
      then show ?thesis using False m by (simp add: EVP_EncodedLength_def m_def [symmetric] push_drop_fits)
    qed
  qed
qed

text \<open>The keys that a transport is asked to use, one after the other.\<close>

fun next_keys :: "nat \<Rightarrow> nat \<Rightarrow> adb \<Rightarrow> (nat option list \<times> adb) res" where
  "next_keys 0 t g = Inr ([], g)"
| "next_keys (Suc n) t g =
     rbind (NextKey t g) (\<lambda>(key, g1). rbind (next_keys n t g1) (\<lambda>(keys, g2). Inr (key # keys, g2)))"

lemma next_keys_rest:
  assumes "g_transports g t = Some x" "at_keys x = ks @ rest"
  shows "next_keys (length ks) t g
    = Inr (ks, g\<lparr>g_transports := (g_transports g)(t \<mapsto> x\<lparr>at_keys := rest\<rparr>)\<rparr>)"
  using assms
proof (induction ks arbitrary: g x)
  case Nil
  then have "x\<lparr>at_keys := rest\<rparr> = x" by (cases x) simp
  then show ?case using Nil by (simp add: fun_upd_idem)
next
  case (Cons k ks)
  define g1 where "g1 = g\<lparr>g_transports := (g_transports g)(t \<mapsto> x\<lparr>at_keys := ks @ rest\<rparr>)\<rparr>"
  have "NextKey t g = Inr (k, g1)" using Cons.prems by (simp add: NextKey_def g1_def)
  moreover have "next_keys (length ks) t g1 = Inr (ks, g\<lparr>g_transports := (g_transports g)(t \<mapsto> x\<lparr>at_keys := rest\<rparr>)\<rparr>)"
    by (subst Cons.IH [of g1 "x\<lparr>at_keys := ks @ rest\<rparr>"]) (simp_all add: g1_def)
  ultimately show ?case by (simp del: fun_upd_apply)
qed

text \<open>
  Property C22. A device that rejects every signature is shown each private key of the user exactly once
  and in order, then the public key is due (the null key), and the rotation starts again: every key is
  eventually tried.
\<close>

theorem NextKey_rotation:
  assumes "g_transports g t = Some x" "at_keys x = []"
  shows "next_keys (length (g_keys g) + 1) t g = Inr (map (\<lambda>(_, k). Some k) (g_keys g) @ [None], g)"
proof -
  obtain k ks where k: "map (\<lambda>(_, k). Some k) (g_keys g) @ [None] = k # ks"
    by (cases "map (\<lambda>(_, k). Some k) (g_keys g) @ [None]") simp_all
  have n: "length (g_keys g) = length ks"
    using arg_cong [OF k, of length] by simp
  define g1 where "g1 = g\<lparr>g_transports := (g_transports g)(t \<mapsto> x\<lparr>at_keys := ks\<rparr>)\<rparr>"
  have "NextKey t g = Inr (k, g1)"
    using assms k by (simp add: NextKey_def adb_auth_get_private_keys_def g1_def)
  moreover have "next_keys (length ks) t g1 = Inr (ks, g\<lparr>g_transports := (g_transports g)(t \<mapsto> x\<lparr>at_keys := []\<rparr>)\<rparr>)"
    by (subst next_keys_rest [of g1 t "x\<lparr>at_keys := ks\<rparr>" ks "[]"]) (simp_all add: g1_def)
  moreover have "x\<lparr>at_keys := []\<rparr> = x" using assms(2) by (cases x) simp
  ultimately show ?thesis using assms(1) n k by (simp add: fun_upd_idem)
qed

definition two_keys :: adb where
  "two_keys = (adb_init os_init)\<lparr>g_transports := [7 \<mapsto> atransport_new reconnect_abort_f kCsOffline 1],
     g_keys := [(''a'', 10), (''b'', 20)]\<rparr>"

theorem NextKey_rotation_witness:
  "next_keys 3 7 two_keys = Inr ([Some 10, Some 20, None], two_keys)"
  using NextKey_rotation [of two_keys 7 "atransport_new reconnect_abort_f kCsOffline 1"]
  by (simp add: two_keys_def atransport_new_def numeral_3_eq_3)

text \<open>The keys are stored under their fingerprints, in ascending order and once each.\<close>

definition keys_ok :: "host_env \<Rightarrow> adb \<Rightarrow> bool" where
  "keys_ok env g \<longleftrightarrow>
     sorted_wrt (<) (map fst (g_keys g)) \<and> (\<forall>(f, k) \<in> set (g_keys g). f = env_hash_key env k)"

lemma set_map_put: "k \<notin> fst ` set m \<Longrightarrow> set (map_put k v m) = insert (k, v) (set m)"
  by (induction k v m rule: map_put.induct) auto

lemma map_put_keys: "k \<notin> fst ` set m \<Longrightarrow> set (map fst (map_put k v m)) = insert k (set (map fst m))"
  using set_map_put [of k m v] by auto

lemma sorted_map_put: "k \<notin> fst ` set m \<Longrightarrow> sorted_wrt (<) (map fst m) \<Longrightarrow> sorted_wrt (<) (map fst (map_put k v m))"
proof (induction k v m rule: map_put.induct)
  case (2 k v k' v' m)
  have "set (map fst (map_put k v m)) = insert k (set (map fst m))" using "2.prems" by (intro map_put_keys) simp
  then show ?case using 2 by auto
qed simp

lemma read_key_file_ok: "keys_ok env g \<Longrightarrow> keys_ok env (snd (read_key_file env file g))"
  by (auto simp: keys_ok_def read_key_file_def Let_def sorted_map_put set_map_put split: option.split)

lemma read_key_dir_ok: "keys_ok env g \<Longrightarrow> keys_ok env (snd (read_key_dir env path names r g))"
  by (induction env path names r g rule: read_key_dir.induct)
    (auto simp: Let_def split: prod.splits dest: read_key_file_ok, metis read_key_file_ok snd_conv)

lemma read_keys_ok: "keys_ok env g \<Longrightarrow> keys_ok env (snd (read_keys env path b g))"
  by (auto simp: read_keys_def read_key_file_ok read_key_dir_ok split: option.split file_type.split)

lemma read_each_ok: "keys_ok env g \<Longrightarrow> keys_ok env (read_each env paths g)"
  by (induction env paths g rule: read_each.induct) (simp_all add: read_keys_ok)


definition key_env :: host_env where
  "key_env = plain_env\<lparr>env_android_dir := ''/h'', env_stat := (\<lambda>_. Some S_IFREG), env_key_file := (\<lambda>_. Some 5),
     env_hash_key := (\<lambda>k. replicate k (CHR ''k''))\<rparr>"



end
