(* ===== verification/Adb.thy ===== *)
theory Adb
  imports SmartSocket Auth
begin

text \<open>
  \<open>adb.cpp\<close>: the packets of the devices; and the parts of \<open>transport.cpp\<close> that run in the main thread,
  the registration of transports and the notification of device trackers.
\<close>

section \<open>Notifications\<close>

fun iterate_transports :: "(atransport \<Rightarrow> bool) \<Rightarrow> adb \<Rightarrow> nat list \<Rightarrow> bool res" where
  "iterate_transports fn g [] = Inr True"
| "iterate_transports fn g (t # ts) =
     rbind (tport t g) (\<lambda>x. if \<not> fn x then Inr False else iterate_transports fn g ts)"

definition update_transport_status :: "adb \<Rightarrow> adb res" where
  "update_transport_status g =
     rbind (iterate_transports (\<lambda>x. \<not> (at_type x = kTransportUsb \<and> \<not> at_online x)) g
              (g_transport_list g @ g_pending_list g)) (\<lambda>result.
     Inr (g\<lparr>g_transports_ready := result\<rparr>))"

definition adb_notify_device_scan_complete :: "adb \<Rightarrow> adb res" where
  "adb_notify_device_scan_complete g =
     (if g_device_scan_complete g then Inr g
      else update_transport_status (g\<lparr>g_device_scan_complete := True\<rparr>))"

text \<open>
  The trackers are a linked list: the successor of a tracker is read before the tracker is told, and
  followed even if that freed the successor.
\<close>

fun tell_trackers ::
  "(nat \<Rightarrow> Block \<Rightarrow> adb \<Rightarrow> (int \<times> adb) res) \<Rightarrow> string \<Rightarrow> nat list \<Rightarrow> adb \<Rightarrow> adb res" where
  "tell_trackers enq transports [] g = Inr g"
| "tell_trackers enq transports (a # rest) g =
     rbind (device_tracker_send enq a transports g) (\<lambda>(_, g1). tell_trackers enq transports rest g1)"

definition update_transports :: "host_env \<Rightarrow> adb \<Rightarrow> adb res" where
  "update_transports env g =
     rbind (update_transport_status g) (\<lambda>g1.
     rbind (list_transports env False g1) (\<lambda>transports.
     tell_trackers (sock_enqueue (smart env)) transports (g_trackers g1) g1))"

section \<open>The state of a transport\<close>

definition handle_online :: "nat \<Rightarrow> adb \<Rightarrow> adb res" where
  "handle_online t g = tport_upd t (\<lambda>x. SetConnectionEstablished True (x\<lparr>at_online := True\<rparr>)) g"

definition handle_offline :: "nat \<Rightarrow> adb \<Rightarrow> adb res" where
  "handle_offline t g =
     rbind (tport t g) (\<lambda>x.
     if at_state x = kCsOffline then Inr g
     else
       rbind (tport_upd t (\<lambda>x. x\<lparr>at_state := kCsOffline, at_online := False\<rparr>) g) (\<lambda>g1.
       rbind (close_all_sockets close_socket t g1) (RunDisconnects t)))"

definition send_ready :: "u32 \<Rightarrow> u32 \<Rightarrow> nat \<Rightarrow> adb \<Rightarrow> adb res" where
  "send_ready local remote t g =
     send_packet (get_apacket\<lparr>msg := (msg get_apacket)\<lparr>command := A_OKAY, arg0 := local, arg1 := remote\<rparr>\<rparr>) t g"

definition send_close :: "u32 \<Rightarrow> u32 \<Rightarrow> nat \<Rightarrow> adb \<Rightarrow> adb res" where
  "send_close local remote t g =
     send_packet (get_apacket\<lparr>msg := (msg get_apacket)\<lparr>command := A_CLSE, arg0 := local, arg1 := remote\<rparr>\<rparr>) t g"

definition adb_device_banner :: string where "adb_device_banner = ''host''"

definition get_connection_string :: string where
  "get_connection_string =
     adb_device_banner @ ''::'' @ Join [''features='' @ FeatureSetToString supported_features] '';''"

definition send_connect :: "nat \<Rightarrow> adb \<Rightarrow> adb res" where
  "send_connect t g =
     rbind (tport t g) (\<lambda>x.
     if length get_connection_string > MAX_PAYLOAD_V1 then Inl (Abort ''Connection banner is too long'')
     else
       rbind (Block_assign get_connection_string Block_new) (\<lambda>data.
       send_packet (get_apacket\<lparr>msg := (msg get_apacket)\<lparr>command := A_CNXN, arg0 := of_int A_VERSION,
                                  arg1 := of_nat (at_max_payload x), data_length := of_nat (blk_size data)\<rparr>,
                                payload := data\<rparr>) t g))"

section \<open>The banner\<close>

definition banner_prop :: "string \<Rightarrow> atransport \<Rightarrow> atransport res" where
  "banner_prop prop x =
     (if prop = [] then Inr x
      else
        rbind (Split prop ''='') (\<lambda>key_value.
        case key_value of
          [key, value] \<Rightarrow>
            if key = ''ro.product.name'' then Inr (x\<lparr>at_product := value\<rparr>)
            else if key = ''ro.product.model'' then Inr (x\<lparr>at_model := value\<rparr>)
            else if key = ''ro.product.device'' then Inr (x\<lparr>at_device := value\<rparr>)
            else if key = ''features'' then SetFeatures value x
            else Inr x
        | _ \<Rightarrow> Inr x))"

fun banner_props :: "string list \<Rightarrow> atransport \<Rightarrow> atransport res" where
  "banner_props [] x = Inr x"
| "banner_props (prop # props) x = rbind (banner_prop prop x) (banner_props props)"

definition banner_state :: "string \<Rightarrow> ConnectionState" where
  "banner_state ty =
     (if ty = ''bootloader'' then kCsBootloader
      else if ty = ''device'' then kCsDevice
      else if ty = ''recovery'' then kCsRecovery
      else if ty = ''sideload'' then kCsSideload
      else kCsHost)"

definition parse_banner :: "string \<Rightarrow> atransport \<Rightarrow> atransport res" where
  "parse_banner banner x =
     rbind (Split banner '':'') (\<lambda>pieces.
     rbind (SetFeatures [] x) (\<lambda>x1.
     rbind (if length pieces > 2 then rbind (Split (pieces ! 2) '';'') (\<lambda>props. banner_props props x1)
            else Inr x1) (\<lambda>x2.
     case pieces of
       [] \<Rightarrow> Inl OutOfBounds
     | ty # _ \<Rightarrow> Inr (x2\<lparr>at_state := banner_state ty\<rparr>))))"

definition handle_new_connection :: "host_env \<Rightarrow> nat \<Rightarrow> apacket \<Rightarrow> adb \<Rightarrow> adb res" where
  "handle_new_connection env t p g =
     rbind (handle_offline t g) (\<lambda>g1.
     rbind (tport_upd t (update_version (sint (arg0 (msg p))) (unat (arg1 (msg p)))) g1) (\<lambda>g2.
     rbind (tport t g2) (\<lambda>x.
     rbind (parse_banner (Block_bytes (payload p)) x) (\<lambda>x1.
     rbind (tport_upd t (\<lambda>_. x1) g2) (\<lambda>g3.
     rbind (handle_online t g3) (update_transports env))))))"

section \<open>Packets\<close>

definition handle_auth :: "host_env \<Rightarrow> apacket \<Rightarrow> nat \<Rightarrow> adb \<Rightarrow> adb res" where
  "handle_auth env p t g =
     (if arg0 (msg p) = ADB_AUTH_TOKEN then
        rbind (tport_upd t (\<lambda>x. x\<lparr>at_state := kCsAuthorizing\<rparr>) g)
          (send_auth_response env (Block_bytes (payload p)) t)
      else
        rbind (tport_upd t (\<lambda>x. x\<lparr>at_state := kCsOffline\<rparr>) g) (handle_offline t))"

text \<open>The two ends of a stream between a local socket and the transport.\<close>

definition connect_peer :: "nat \<Rightarrow> u32 \<Rightarrow> nat \<Rightarrow> adb \<Rightarrow> (nat \<times> adb) res" where
  "connect_peer s i t g =
     rbind (create_remote_socket i t g) (\<lambda>(b, g1).
     rbind (sock_upd s (\<lambda>x. x\<lparr>as_peer := Some b\<rparr>) g1) (\<lambda>g2.
     rbind (sock_upd b (\<lambda>x. x\<lparr>as_peer := Some s\<rparr>) g2) (\<lambda>g3. Inr (b, g3))))"

definition handle_open :: "host_env \<Rightarrow> apacket \<Rightarrow> nat \<Rightarrow> adb \<Rightarrow> adb res" where
  "handle_open env p t g =
     rbind (create_local_service_socket env (c_str (Block_bytes (payload p))) g) (\<lambda>(r, g1).
     case r of
       None \<Rightarrow> send_close 0 (arg0 (msg p)) t g1
     | Some s \<Rightarrow>
         rbind (connect_peer s (arg0 (msg p)) t g1) (\<lambda>(b, g2).
         rbind (sock s g2) (\<lambda>x.
         rbind (sock b g2) (\<lambda>q.
         rbind (send_ready (as_id x) (as_id q) t g2)
           (sock_ready env (smart env) s)))))"

definition handle_okay :: "host_env \<Rightarrow> apacket \<Rightarrow> nat \<Rightarrow> adb \<Rightarrow> adb res" where
  "handle_okay env p t g =
     rbind (find_local_socket (arg1 (msg p)) 0 g) (\<lambda>r.
     case r of
       None \<Rightarrow> send_close (arg1 (msg p)) (arg0 (msg p)) t g
     | Some s \<Rightarrow>
         rbind (sock s g) (\<lambda>x.
         case as_peer x of
           None \<Rightarrow>
             rbind (connect_peer s (arg0 (msg p)) t g) (\<lambda>(_, g1). sock_ready env (smart env) s g1)
         | Some b \<Rightarrow>
             rbind (sock b g) (\<lambda>q.
             if as_id q = arg0 (msg p) then sock_ready env (smart env) s g else Inr g)))"

definition handle_clse :: "apacket \<Rightarrow> nat \<Rightarrow> adb \<Rightarrow> adb res" where
  "handle_clse p t g =
     rbind (find_local_socket (arg1 (msg p)) (arg0 (msg p)) g) (\<lambda>r.
     case r of
       None \<Rightarrow> Inr g
     | Some s \<Rightarrow>
         rbind (sock s g) (\<lambda>x.
         rbind (case as_peer x of
                  None \<Rightarrow> Inr False
                | Some b \<Rightarrow> if arg0 (msg p) = 0 then rbind (sock b g) (\<lambda>q. Inr (as_transport q \<noteq> Some t))
                           else Inr False) (\<lambda>invalid.
         if invalid then Inr g else close_socket s g)))"

definition handle_wrte :: "host_env \<Rightarrow> apacket \<Rightarrow> nat \<Rightarrow> adb \<Rightarrow> adb res" where
  "handle_wrte env p t g =
     rbind (find_local_socket (arg1 (msg p)) (arg0 (msg p)) g) (\<lambda>r.
     case r of
       None \<Rightarrow> Inr g
     | Some s \<Rightarrow>
         rbind (sock_enqueue (smart env) s (payload p) g) (\<lambda>(rc, g1).
         if rc = 0 then rbind (sock s g1) (\<lambda>x. send_ready (as_id x) (arg0 (msg p)) t g1)
         else Inr g1))"

definition handle_packet :: "host_env \<Rightarrow> apacket \<Rightarrow> nat \<Rightarrow> adb \<Rightarrow> adb res" where
  "handle_packet env p t g =
     rbind (check_that (blk_size (payload p) = unat (data_length (msg p)))
              ''CHECK_EQ(p->payload.size(), p->msg.data_length)'') (\<lambda>_.
     rbind (tport t g) (\<lambda>x.
     (let c = command (msg p); a0 = arg0 (msg p); a1 = arg1 (msg p)
      in if c = A_CNXN then handle_new_connection env t p g
         else if c = A_AUTH then handle_auth env p t g
         else if c = A_OPEN then
           (if at_online x \<and> a0 \<noteq> 0 \<and> a1 = 0 then handle_open env p t g else Inr g)
         else if c = A_OKAY then
           (if at_online x \<and> a0 \<noteq> 0 \<and> a1 \<noteq> 0 then handle_okay env p t g else Inr g)
         else if c = A_CLSE then
           (if at_online x \<and> a1 \<noteq> 0 then handle_clse p t g else Inr g)
         else if c = A_WRTE then
           (if at_online x \<and> a0 \<noteq> 0 \<and> a1 \<noteq> 0 then handle_wrte env p t g else Inr g)
         else Inr g)))"

section \<open>Registration of transports\<close>

definition set_callbacks :: "nat \<Rightarrow> adb \<Rightarrow> adb res" where
  "set_callbacks t g =
     rbind (tport t g) (\<lambda>x.
     rbind (nonnull (at_connection x)) (\<lambda>c.
     rbind (check_that (\<not> conn_callbacks c) ''CHECK(!read_callback_)'') (\<lambda>_.
     tport_upd t (\<lambda>x. x\<lparr>at_ref_count := at_ref_count x + 1,
       at_connection := Some (c\<lparr>conn_name := serial_name x, conn_callbacks := True\<rparr>)\<rparr>) g)))"

definition transport_registration_func :: "host_env \<Rightarrow> u16 \<Rightarrow> adb \<Rightarrow> adb res" where
  "transport_registration_func env ev g =
     (if \<not> has ev FDE_READ then Inr g
      else case g_registration g of
        [] \<Rightarrow> Inl (Abort ''cannot read transport registration socket'')
      | (t, action) # rest \<Rightarrow>
          (let g0 = g\<lparr>g_registration := rest\<rparr>
           in if \<not> action then
                rbind (atransport_delete t (g0\<lparr>g_transport_list := filter (\<lambda>u. u \<noteq> t) (g_transport_list g0)\<rparr>))
                  (update_transports env)
              else
                rbind (tport t g0) (\<lambda>x.
                rbind (if at_state x \<noteq> kCsNoPerm
                       then rbind (set_callbacks t g0) (\<lambda>g1. rbind (conn_Start t g1) (send_connect t))
                       else Inr g0) (\<lambda>g2.
                update_transports env
                  (if t \<in> set (g_pending_list g2)
                   then g2\<lparr>g_pending_list := filter (\<lambda>u. u \<noteq> t) (g_pending_list g2),
                           g_transport_list := t # g_transport_list g2\<rparr>
                   else g2)))))"

section \<open>The main loop\<close>

definition run_runnable :: "host_env \<Rightarrow> runnable \<Rightarrow> adb \<Rightarrow> adb res" where
  "run_runnable env r g =
     (case r of
        RunPacket p t \<Rightarrow> handle_packet env p t g
      | RunTerminated t \<Rightarrow> rbind (handle_offline t g) (transport_unref t))"

text \<open>The function that the event loop calls for an event, with the descriptor and the events.\<close>

definition dispatch :: "host_env \<Rightarrow> fd_func \<Rightarrow> int \<Rightarrow> u16 \<Rightarrow> adb \<Rightarrow> adb res" where
  "dispatch env f fd ev g =
     (case f of
        local_socket_event_f a \<Rightarrow>
          local_socket_event_func close_socket (sock_enqueue (smart env)) (sock_ready env (smart env)) ev a g
      | ss_listener_event_f l \<Rightarrow> ss_listener_event_func env (smart env) ev g
      | listener_event_f l \<Rightarrow> listener_event_func ev l g
      | transport_registration_f \<Rightarrow> transport_registration_func env ev g
      | fdevent_run_f \<Rightarrow> ev_do (fdevent_run_func fd ev) g)"

end
