(* ===== verification/SocketStep.thy ===== *)
theory SocketStep
  imports SocketCreate ListenerInv Adb
begin

text \<open>
  The steps of the socket layer as the rest of the server sees them. A result is \<open>safe\<close> when it is no
  undefined behaviour: the process goes on in a state with the given property, or it ends by an
  explicit abort or exit. The rules of \<open>safe\<close> follow the sequencing of the operations.
\<close>

section \<open>Safety\<close>

definition benign :: "crash \<Rightarrow> bool" where
  "benign c \<longleftrightarrow> (\<exists>m. c = Abort m) \<or> (\<exists>n. c = Exit n)"

definition safe :: "'a res \<Rightarrow> ('a \<Rightarrow> bool) \<Rightarrow> bool" where
  "safe r P \<longleftrightarrow> (case r of Inl c \<Rightarrow> benign c | Inr x \<Rightarrow> P x)"

lemma safe_Inr [simp]: "safe (Inr x) P = P x"
  by (simp add: safe_def)

lemma safe_Abort [simp]: "safe (Inl (Abort m)) P" "safe (Inl (Exit n)) P"
  by (simp_all add: safe_def benign_def)

lemma safe_bind: "safe m Q \<Longrightarrow> (\<And>x. Q x \<Longrightarrow> safe (f x) P) \<Longrightarrow> safe (rbind m f) P"
  by (cases m) (simp_all add: safe_def)

lemma safe_mono: "safe m Q \<Longrightarrow> (\<And>x. Q x \<Longrightarrow> P x) \<Longrightarrow> safe m P"
  by (cases m) (simp_all add: safe_def)

lemma safe_eq: "m = Inr x \<Longrightarrow> P x \<Longrightarrow> safe m P"
  by simp

lemma safe_check: "(b \<Longrightarrow> safe (f ()) P) \<Longrightarrow> safe (rbind (check_that b m) f) P"
  by (cases b) simp_all

section \<open>Steps\<close>

text \<open>
  A step of the socket layer: sockets, their lists and their events may change, the transports get
  packets to send, and everything else stays as it is.
\<close>

definition moved :: "adb \<Rightarrow> adb \<Rightarrow> bool" where
  "moved g g' \<longleftrightarrow> adb_inv g' \<and> frame UNIV g g' \<and> (\<exists>ps. sent g g' ps)"

lemma moved_refl: "adb_inv g \<Longrightarrow> moved g g"
  unfolding moved_def by (metis frame_refl sent_refl)

lemma moved_trans: "moved g g1 \<Longrightarrow> moved g1 g2 \<Longrightarrow> moved g g2"
  unfolding moved_def by (metis frame_trans sent_exists_trans sup.idem)

lemma moved_inv: "moved g g' \<Longrightarrow> adb_inv g'"
  by (simp add: moved_def)

lemma moved_srv: "srv_inv g \<Longrightarrow> moved g g' \<Longrightarrow> srv_inv g'"
  unfolding moved_def using srv_inv_frame same_transports_sent by blast

lemma moved_live: "moved g g' \<Longrightarrow> g_transports g' t = None \<longleftrightarrow> g_transports g t = None"
  unfolding moved_def using sent_live by blast

lemma moved_frame: "adb_inv g' \<Longrightarrow> frame A g g' \<Longrightarrow> sent g g' ps \<Longrightarrow> moved g g'"
  unfolding moved_def using frame_mono by blast

lemma moved_still: "adb_inv g' \<Longrightarrow> frame A g g' \<Longrightarrow> g_transports g' = g_transports g \<Longrightarrow> moved g g'"
  by (rule moved_frame [OF _ _ sent_refl])

lemma moved_closed: "closed_both a s g g' \<Longrightarrow> moved g g'"
  by (auto simp: closed_both_def intro: moved_frame)

lemma moved_flow: "adb_inv g' \<Longrightarrow> flow_frame a g g' \<Longrightarrow> moved g g'"
  by (auto simp: flow_frame_def intro: moved_still)

lemma moved_flush: "flush_result a s q0 g r g' \<Longrightarrow> moved g g'"
  by (auto simp: flush_result_def intro: moved_flow)

lemma moved_os:
  assumes "adb_inv g" "os_open w = os_open (fd_os (g_ev g))"
  shows "moved g (g\<lparr>g_ev := (g_ev g)\<lparr>fd_os := w\<rparr>\<rparr>)"
  using assms by (intro moved_still [of _ UNIV]) (simp_all add: inv_ex_os frame_os)

lemma snd_os_do: "snd (os_do f g) = g\<lparr>g_ev := (g_ev g)\<lparr>fd_os := snd (f (fd_os (g_ev g)))\<rparr>\<rparr>"
  by (simp add: os_do_def split: prod.splits)

lemma os_do_sockets [simp]: "g_sockets (snd (os_do f g)) = g_sockets g"
  "g_transports (snd (os_do f g)) = g_transports g"
  by (simp_all add: snd_os_do)

text \<open>An answer is written to a client.\<close>

lemma moved_reply:
  assumes "adb_inv g" "\<And>w. os_open (snd (f w)) = os_open w"
  shows "moved g (snd (os_do f g))"
  unfolding snd_os_do using assms by (intro moved_os) simp_all

text \<open>A packet is queued.\<close>

lemma send_moved:
  assumes inv: "adb_inv g" and t: "g_transports g t \<noteq> None" and p: "unat (data_length (msg p)) \<le> blk_size (payload p)"
  shows "\<exists>g'. send_packet p t g = Inr g' \<and> moved g g' \<and> g_sockets g' = g_sockets g"
proof -
  obtain x where x: "g_transports g t = Some x" using t by auto
  have "at_connection x \<noteq> None" using inv_exD(7) [OF inv] x by (simp add: tports_ok_def)
  then obtain c where c: "at_connection x = Some c" by auto
  let ?p1 = "p\<lparr>msg := (msg p)\<lparr>magic := command (msg p) XOR 0xffffffff\<rparr>\<rparr>"
  obtain j where "calculate_apacket_checksum ?p1 = Inr j"
    using p by (auto simp: calculate_apacket_checksum_def)
  then obtain k where k: "(if at_protocol_version x \<ge> A_VERSION_SKIP_CHECKSUM then Inr 0
      else calculate_apacket_checksum ?p1) = Inr k"
    by (metis (full_types))
  let ?p2 = "?p1\<lparr>msg := (msg ?p1)\<lparr>data_check := k\<rparr>\<rparr>"
  let ?g = "g\<lparr>g_transports := (g_transports g)(t \<mapsto> push [?p2] x)\<rparr>"
  have r: "send_packet p t g = Inr ?g"
    using x c k by (simp add: send_packet_def atransport_Write_def push_def Let_def)
  have sn: "sent g ?g (one_packet t ?p2)" using x by (simp add: sent_def one_packet_def)
  have "adb_inv ?g" by (rule inv_ex_sent [OF inv sn refl])
  moreover have "frame UNIV g ?g" by (simp add: frame_def adb_rest_def foreign_fdes_def)
  ultimately show ?thesis using r sn by (auto intro: moved_frame)
qed

lemma control_fits [simp]: "unat (data_length (msg get_apacket)) \<le> blk_size (payload get_apacket)"
  by (simp add: get_apacket_def)

lemma data_fits: "unat (of_nat n :: u32) \<le> n"
  by (simp add: unat_of_nat)

lemma other_peer:
  assumes inv: "adb_inv g" and s: "g_sockets g a = Some s" and nl: "\<not> is_local s"
  obtains b p where "as_peer s = Some b" "g_sockets g b = Some p" "as_peer p = Some a" "is_local p" "\<not> as_closing p"
    "b \<noteq> a"
proof -
  have "sock_ok {} g a s" using inv_exD(2) [OF inv] s by (simp add: socks_ok_def)
  then have "as_peer s \<noteq> None" using nl by (auto simp: sock_ok_def local_core_def)
  then obtain b where b: "as_peer s = Some b" by auto
  obtain p where p: "g_sockets g b = Some p" "as_peer p = Some a" "is_local s \<or> is_local p" "b \<noteq> a"
    by (rule peers_involution [OF inv s b])
  have "\<not> as_closing p" using settled_local [OF inv p(1)] p nl by (auto simp: local_settled_def)
  then show thesis using that b p nl by blast
qed

section \<open>Ready\<close>

lemma local_ready_moved:
  assumes inv: "adb_inv g" and s: "g_sockets g a = Some s" and loc: "is_local s"
  shows "\<exists>g'. local_socket_ready a g = Inr g' \<and> moved g g' \<and> g_sockets g' = g_sockets g"
proof -
  have core: "local_core g a s" by (rule sock_local [OF inv s loc])
  obtain i ev where i: "as_fde s = Some i" "fde_view (g_ev g) i = Some (as_fd s, ev, local_socket_event_f a)"
    "\<not> IOVector_empty (as_queue s) \<and> \<not> as_has_write_error s \<longrightarrow> has ev FDE_WRITE"
    by (rule local_coreD [OF core])
  obtain e where e: "fde_add a FDE_READ g = Inr (g\<lparr>g_ev := e\<rparr>)"
    "ev_changed i ((ev OR FDE_READ) AND FDE_EVENTMASK) (g_ev g) e"
    by (rule fde_add_changed [OF s i(1) inv_exD(1) [OF inv] i(2)])
  let ?g = "local_set a s (as_queue s) (as_has_write_error s) e g"
  have g: "?g = g\<lparr>g_ev := e\<rparr>" using s by (simp add: local_set_def fun_upd_idem)
  have "has ev FDE_WRITE \<and> \<not> as_closing s \<longrightarrow> as_peer s \<noteq> None"
    using settled_local [OF inv s loc] i(1,2) by (auto simp: local_settled_def wants_write_def)
  then have "adb_inv ?g" "frame {a} g ?g"
    using inv_local_set [OF inv s loc i(1) _ e(2)] core i(3) event_bits(2) [of ev]
    by (simp_all add: local_core_def)
  then have "moved g (g\<lparr>g_ev := e\<rparr>)" unfolding g by (rule moved_still) simp
  then show ?thesis using e(1) by (simp add: local_socket_ready_def)
qed

lemma remote_ready_moved:
  assumes inv: "adb_inv g" and s: "g_sockets g a = Some s" and rem: "is_remote s"
  shows "\<exists>g'. remote_socket_ready a g = Inr g' \<and> moved g g' \<and> g_sockets g' = g_sockets g"
proof -
  obtain t where t: "as_transport s = Some t" using rem by (auto simp: is_remote_def)
  obtain b p where b: "as_peer s = Some b" and p: "g_sockets g b = Some p"
    by (rule other_peer [OF inv s kinds_disjoint(1) [OF rem]])
  have tl: "g_transports g t \<noteq> None" by (rule transport_of_socket [OF inv s t]) simp
  from send_moved [OF inv tl, of "get_apacket\<lparr>msg := (msg get_apacket)\<lparr>command := A_OKAY, arg0 := as_id p, arg1 := as_id s\<rparr>\<rparr>"]
  show ?thesis using s b p t by (simp add: remote_socket_ready_def)
qed

section \<open>Enqueue\<close>

text \<open>Data for a local socket is appended to what it has to write; no byte is lost.\<close>

definition enqueued :: "nat \<Rightarrow> asocket \<Rightarrow> bytes \<Rightarrow> adb \<Rightarrow> int \<Rightarrow> adb \<Rightarrow> bool" where
  "enqueued a s bs g r g' \<longleftrightarrow>
     adb_inv g' \<and> flow_frame a g g'
     \<and> (\<exists>q we e. g' = local_set a s q we e g \<and> (r = 0 \<and> (IOVector_empty q \<or> we) \<or> r = 1)
          \<and> os_written (fd_os e) (as_fd s) @ IOVector_bytes q
              = os_written (fd_os (g_ev g)) (as_fd s) @ IOVector_bytes (as_queue s) @ bs)"

lemma local_enqueue_spec:
  assumes inv: "adb_inv g" and s: "g_sockets g a = Some s" and loc: "is_local s" and peer: "as_peer s \<noteq> None"
    and d: "Block_inv d" "blk_size d \<noteq> 0"
  shows "\<exists>r g'. local_socket_enqueue close_socket a d g = Inr (r, g') \<and> enqueued a s (Block_bytes d) g r g'"
proof -
  have nc: "\<not> as_closing s" using settled_local [OF inv s loc] peer by (auto simp: local_settled_def)
  have q0: "IOVector_open (as_queue s)" using sock_local [OF inv s loc] by (simp add: local_core_def)
  then obtain q where q: "IOVector_append d (as_queue s) = Inr q" "IOVector_open q"
    "IOVector_bytes q = IOVector_bytes (as_queue s) @ Block_bytes d"
    using IOVector_append_spec [of "as_queue s" d] d by (auto simp: IOVector_open_def)
  obtain r g' where f: "local_socket_flush_incoming close_socket a
      (local_set a s q (as_has_write_error s) (g_ev g) g) = Inr (r, g')" "flush_result a s q g r g'"
    using flush_incoming_spec [OF inv s loc q(2)] peer by auto
  have "r \<noteq> Destroyed" using f(2) nc by (auto simp: flush_result_def)
  then have "enqueued a s (Block_bytes d) g (case r of Destroyed \<Rightarrow> -1 | TryAgain \<Rightarrow> 1 | Completed \<Rightarrow> 0) g'"
    using f(2) q(3) unfolding enqueued_def flush_result_def by (cases r) auto
  moreover have "local_socket_enqueue close_socket a d g
      = Inr (case r of Destroyed \<Rightarrow> -1 | TryAgain \<Rightarrow> 1 | Completed \<Rightarrow> 0, g')"
    using s q(1) f(1) sock_upd_queue(1) [OF s] by (simp add: local_socket_enqueue_def local_set_def)
  ultimately show ?thesis by (intro exI conjI)
qed

lemma enqueued_moved: "enqueued a s bs g r g' \<Longrightarrow> moved g g'"
  by (auto simp: enqueued_def intro: moved_flow)

lemma enqueued_sockets:
  assumes "enqueued a s bs g r g'"
  obtains q we where "g_sockets g' = (g_sockets g)(a \<mapsto> s\<lparr>as_has_write_error := we, as_queue := q\<rparr>)" "r = 0 \<or> r = 1"
  using assms by (auto simp: enqueued_def local_set_def)

lemma local_enqueue_empty:
  assumes "g_sockets g a = Some s" "blk_size d = 0"
  shows "\<exists>m. local_socket_enqueue cls a d g = Inl (Abort m)"
  using assms by (simp add: local_socket_enqueue_def IOVector_append_def check_that_def)

text \<open>The message of a device tracker.\<close>

definition tracker_message :: "string \<Rightarrow> bytes" where
  "tracker_message str = take 4 (hex04 (length str mod 2 ^ 32)) @ str"

lemma hex04_ge: "4 \<le> length (hex04 n)"
  by (simp add: pad0_def del: digits.simps)

lemma hex04_nonempty [simp]: "hex04 n \<noteq> []"
  using hex04_ge [of n] by auto

lemma tracker_send_eq:
  assumes "g_sockets g a = Some s" "as_peer s = Some b"
  shows "device_tracker_send enq a str g = enq b (Block_of (tracker_message str)) g"
proof -
  let ?h = "take 4 (hex04 (length str mod 2 ^ 32))"
  have h: "length ?h = 4" using hex04_ge [of "length str mod 2 ^ 32"] by (simp add: min_absorb2)
  have "Block_store 0 ?h (Block_of (replicate (4 + length str) NUL)) = Inr (Block_of (?h @ replicate (length str) NUL))"
    using h by (subst Block_store_of) (simp_all add: drop_replicate)
  moreover have "Block_store 4 str (Block_of (?h @ replicate (length str) NUL)) = Inr (Block_of (?h @ str))"
    using h by (subst Block_store_of) simp_all
  ultimately show ?thesis
    using assms by (simp add: device_tracker_send_def Block_resize_new tracker_message_def)
qed

lemma tracker_message_nonempty: "tracker_message str \<noteq> []"
  by (simp add: tracker_message_def)

lemma sock_enqueue_local:
  assumes "g_sockets g b = Some p" "is_local p"
  shows "sock_enqueue sm b d g = local_socket_enqueue close_socket b d g"
  using assms by (simp add: sock_enqueue_def is_local_def)

lemma tracker_send_spec:
  assumes inv: "adb_inv g" and s: "g_sockets g a = Some s" and tr: "is_tracker s"
  obtains b p r g' where "as_peer s = Some b" "g_sockets g b = Some p" "is_local p" "b \<noteq> a"
    "device_tracker_send (sock_enqueue sm) a str g = Inr (r, g')"
    "enqueued b p (tracker_message str) g r g'"
proof -
  obtain b p where b: "as_peer s = Some b" "g_sockets g b = Some p" "as_peer p = Some a" "is_local p" "b \<noteq> a"
    by (rule other_peer [OF inv s]) (use kinds_disjoint tr in blast)
  have "\<exists>r g'. local_socket_enqueue close_socket b (Block_of (tracker_message str)) g = Inr (r, g')
      \<and> enqueued b p (Block_bytes (Block_of (tracker_message str))) g r g'"
    by (rule local_enqueue_spec [OF inv b(2,4)]) (use b(3) tracker_message_nonempty in simp_all)
  then obtain r g' where "local_socket_enqueue close_socket b (Block_of (tracker_message str)) g = Inr (r, g')"
    "enqueued b p (tracker_message str) g r g'" by auto
  then show thesis
    using that [OF b(1,2,4,5)] tracker_send_eq [OF s b(1)] sock_enqueue_local [OF b(2,4)] by simp
qed

section \<open>Sockets that are not local\<close>

lemma other_coreD:
  assumes inv: "adb_inv g" and s: "g_sockets g a = Some s" and nl: "\<not> is_local s"
  shows "other_core g a s" "as_fde s = None" "a \<notin> set (g_local_list g)" "\<not> as_closing s"
    "is_remote s \<or> is_smart s \<or> is_tracker s"
  using sock_other [OF inv s nl] by (auto simp: other_core_def)

text \<open>A change to a socket that is not local, and that keeps its kind and its peer.\<close>

lemma inv_other_update:
  assumes inv: "adb_inv g" and s: "g_sockets g a = Some s" and nl: "\<not> is_local s"
    and k: "is_remote s' \<or> is_smart s' \<or> is_tracker s'" "is_tracker s' = is_tracker s"
    and f: "as_peer s' = as_peer s" "as_fde s' = None" "\<not> as_closing s'"
    and t: "\<And>t. as_transport s' = Some t \<Longrightarrow> g_transports g t \<noteq> None"
  shows "adb_inv (g\<lparr>g_sockets := (g_sockets g)(a \<mapsto> s')\<rparr>)" (is "adb_inv ?g")
    and "moved g (g\<lparr>g_sockets := (g_sockets g)(a \<mapsto> s')\<rparr>)"
proof -
  note D = inv_exD [OF inv] and O = other_coreD [OF inv s nl]
  have nl': "\<not> is_local s'" using k(1) kinds_disjoint by blast
  have "is_tracker s \<longrightarrow> a \<in> set (g_trackers g)"
    using O(1) by (auto simp: other_core_def is_remote_def is_smart_def is_tracker_def)
  moreover have "as_peer s \<noteq> None" by (rule other_peer [OF inv s nl]) simp
  ultimately have ok: "sock_ok {} ?g a s'"
    using O(1) k f by (simp add: sock_ok_def other_core_def) blast
  have "socks_ok {} ?g"
    unfolding socks_ok_def
  proof (intro allI impI)
    fix c u assume h: "g_sockets ?g c = Some u"
    show "c < g_next_socket ?g \<and> sock_ok {} ?g c u"
    proof (cases "c = a")
      case True
      then show ?thesis using h ok D(2) s by (simp add: socks_ok_def)
    next
      case False
      then have "c < g_next_socket g \<and> sock_ok {} g c u" using h D(2) by (simp add: socks_ok_def)
      then show ?thesis
        by (simp add: sock_ok_def local_core_def local_settled_def wants_write_def other_core_def)
    qed
  qed
  moreover have "peers_ok {} ?g"
    unfolding peers_ok_def
  proof (intro allI impI)
    fix c u b assume h: "g_sockets ?g c = Some u" "as_peer u = Some b"
    obtain u0 where u0: "g_sockets g c = Some u0" "as_peer u0 = Some b" "is_local u0 = is_local u"
      using h s f(1) nl nl' by (cases "c = a") auto
    obtain q where q: "b \<noteq> c" "g_sockets g b = Some q" "as_peer q = Some c" "is_local u0 \<or> is_local q"
      by (rule peers_involution [OF inv u0(1,2)])
    then show "b \<noteq> c \<and> b \<notin> {} \<and> (\<exists>q. g_sockets ?g b = Some q \<and> as_peer q = Some c \<and> (is_local u \<or> is_local q))"
      using u0 s f(1) nl nl' by (cases "b = a") auto
  qed
  moreover have "\<exists>u. g_sockets ?g c = Some u \<and> is_tracker u" if "c \<in> set (g_trackers g)" for c
    using D(4) that s k(2) unfolding lists_ok_def by (cases "c = a") auto
  then have "lists_ok ?g" using D(4) unfolding lists_ok_def by auto
  moreover have "ids_ok ?g" using D(5) O(3) unfolding ids_ok_def by auto
  moreover have "fdes_ok ?g" using D(6) s O(2) unfolding fdes_ok_def by fastforce
  moreover have "tports_ok ?g" using D(7) t unfolding tports_ok_def by auto
  ultimately show i: "adb_inv ?g" using D(1) by (simp add: inv_ex_def)
  have "frame {a} g ?g" by (simp add: frame_def adb_rest_def foreign_fdes_def)
  then show "moved g ?g" by (rule moved_still [OF i]) simp
qed

lemma tports_live: "set ts \<subseteq> dom (g_transports g) \<Longrightarrow> \<exists>xs. tports ts g = Inr xs"
  by (induction ts) auto

lemma list_transports_live:
  assumes "lists_live g"
  shows "\<exists>str. list_transports env long_output g = Inr str"
  using tports_live [of "g_transport_list g" g] assms by (auto simp: list_transports_def lists_live_def)

lemma tracker_ready_moved:
  assumes inv: "adb_inv g" and live: "lists_live g" and s: "g_sockets g a = Some s" and tr: "is_tracker s"
  shows "\<exists>g'. device_tracker_ready env (sock_enqueue sm) a g = Inr g' \<and> moved g g'"
proof (cases "\<exists>l. as_tracker s = Some (True, l)")
  case False
  then have "device_tracker_ready env (sock_enqueue sm) a g = Inr g"
    using s by (auto simp: device_tracker_ready_def split: option.split bool.split)
  then show ?thesis using moved_refl [OF inv] by blast
next
  case True
  then obtain l where l: "as_tracker s = Some (True, l)" by blast
  let ?s = "s\<lparr>as_tracker := Some (False, l)\<rparr>"
  let ?g = "g\<lparr>g_sockets := (g_sockets g)(a \<mapsto> ?s)\<rparr>"
  have nl: "\<not> is_local s" using tr kinds_disjoint by blast
  have tr': "is_tracker ?s" using tr by (simp add: is_tracker_def)
  have inv': "adb_inv ?g" "moved g ?g"
    by (rule inv_other_update [OF inv s nl];
        use tr tr' other_coreD [OF inv s nl] transport_of_socket [OF inv s] in auto)+
  have "lists_live ?g" using live by (simp add: lists_live_def)
  then obtain str where str: "list_transports env l ?g = Inr str" using list_transports_live by blast
  have s': "g_sockets ?g a = Some ?s" by simp
  obtain r g' where g': "device_tracker_send (sock_enqueue sm) a str ?g = Inr (r, g')" "moved ?g g'"
    by (rule tracker_send_spec [OF inv'(1) s' tr', of sm str]) (use enqueued_moved in blast)
  have "device_tracker_ready env (sock_enqueue sm) a g = Inr g'"
    using s l str g'(1) by (simp add: device_tracker_ready_def)
  then show ?thesis using moved_trans [OF inv'(2) g'(2)] by blast
qed

text \<open>A change to a local socket that keeps its place, its data and its peer.\<close>

lemma inv_local_same:
  assumes inv: "adb_inv g" and s: "g_sockets g a = Some s" and loc: "is_local s" "is_local s'"
    and same: "as_id s' = as_id s" "as_fde s' = as_fde s" "as_fd s' = as_fd s" "as_queue s' = as_queue s"
      "as_closing s' = as_closing s" "as_has_write_error s' = as_has_write_error s" "as_peer s' = as_peer s"
    and r: "as_ready s' = local_socket_ready_notify_f \<Longrightarrow> as_peer s = None"
    and t: "\<And>t. as_transport s' = Some t \<Longrightarrow> g_transports g t \<noteq> None"
  shows "adb_inv (g\<lparr>g_sockets := (g_sockets g)(a \<mapsto> s')\<rparr>)" (is "adb_inv ?g")
    and "moved g (g\<lparr>g_sockets := (g_sockets g)(a \<mapsto> s')\<rparr>)"
proof -
  note D = inv_exD [OF inv]
  have core: "local_core g a s" by (rule sock_local [OF inv s loc(1)])
  obtain i ev where i: "as_fde s = Some i" "fde_view (g_ev g) i = Some (as_fd s, ev, local_socket_event_f a)"
    by (rule local_coreD [OF core])
  have ok: "sock_ok {} ?g a s'"
    using core settled_local [OF inv s loc(1)] loc(2) same r
    by (simp add: sock_ok_def local_core_def local_settled_def wants_write_def)
  show inv': "adb_inv ?g"
  proof (rule inv_ex_local_update [OF inv s core i(1), of "{}" _ "Some s'"])
    show "tports_ok ?g" using D(7) t by (auto simp: tports_ok_def)
    show "as_fde s'' = Some i \<and> as_id s'' = as_id s \<and> is_local s'' \<and> sock_ok {} ?g a s''"
      if "Some s' = Some s''" for s'' using that i(1) ok loc(2) same by auto
  qed (use D(1,4) same s i in \<open>auto simp: lists_ok_def\<close>)
  have "frame {a} g ?g" by (simp add: frame_def adb_rest_def foreign_fdes_def)
  then show "moved g ?g" by (rule moved_still [OF inv']) simp
qed

lemma ready_notify_moved:
  assumes inv: "adb_inv g" and s: "g_sockets g a = Some s" and loc: "is_local s"
  shows "\<exists>g'. local_socket_ready_notify a g = Inr g' \<and> moved g g'"
proof -
  let ?g1 = "g\<lparr>g_sockets := (g_sockets g)(a \<mapsto> reset_slots s)\<rparr>"
  let ?g2 = "snd (os_do (SendOkay (as_fd s)) ?g1)"
  have m1: "moved g ?g1"
    by (rule inv_local_same(2) [OF inv s loc is_local_reset [OF loc]])
      (use transport_of_socket [OF inv s] in auto)
  note inv1 = moved_inv [OF m1]
  have m2: "moved ?g1 ?g2" by (rule moved_reply [OF inv1 SendOkay_open])
  have "g_sockets ?g2 a = Some (reset_slots s)" by simp
  from local_ready_moved [OF moved_inv [OF m2] this is_local_reset [OF loc]]
  obtain g' where "local_socket_ready a ?g2 = Inr g'" "moved ?g2 g'" by blast
  moreover from this(1) have "local_socket_ready_notify a g = Inr g'"
    using s by (simp add: local_socket_ready_notify_def)
  ultimately show ?thesis using moved_trans [OF moved_trans [OF m1 m2]] by blast
qed

text \<open>\<open>ready\<close> through the slot of any socket.\<close>

lemma sock_ready_moved:
  assumes inv: "adb_inv g" and live: "lists_live g" and s: "g_sockets g a = Some s"
  shows "\<exists>g'. sock_ready env sm a g = Inr g' \<and> moved g g'"
proof (cases "is_local s")
  case True
  then have "as_ready s = local_socket_ready_f \<or> as_ready s = local_socket_ready_notify_f"
    by (auto simp: is_local_def)
  then show ?thesis
    using s local_ready_moved [OF inv s True] ready_notify_moved [OF inv s True]
    by (auto simp: sock_ready_def)
next
  case False
  then consider "is_remote s" | "is_smart s" | "is_tracker s" using other_coreD(5) [OF inv s] by blast
  then show ?thesis
  proof cases
    case 1
    then show ?thesis using s remote_ready_moved [OF inv s] by (auto simp: sock_ready_def is_remote_def)
  next
    case 2
    then show ?thesis using s moved_refl [OF inv] by (auto simp: sock_ready_def is_smart_def)
  next
    case 3
    then show ?thesis using s tracker_ready_moved [OF inv live s] by (auto simp: sock_ready_def is_tracker_def)
  qed
qed

section \<open>Payload\<close>

lemma max_payload_ok:
  assumes inv: "adb_inv g" and s: "g_sockets g a = Some s"
  shows "\<exists>m. asocket_get_max_payload a g = Inr m \<and> m \<le> MAX_PAYLOAD"
proof -
  have m1: "\<exists>m1. (case as_transport s of None \<Rightarrow> Inr MAX_PAYLOAD
      | Some t \<Rightarrow> rbind (tport t g) (\<lambda>x. Inr (min MAX_PAYLOAD (at_max_payload x)))) = Inr m1 \<and> m1 \<le> MAX_PAYLOAD"
  proof (cases "as_transport s")
    case (Some t)
    obtain x where "g_transports g t = Some x" by (rule transport_of_socket [OF inv s Some])
    then show ?thesis using Some by simp
  qed simp
  then obtain m1 where m1: "(case as_transport s of None \<Rightarrow> Inr MAX_PAYLOAD
      | Some t \<Rightarrow> rbind (tport t g) (\<lambda>x. Inr (min MAX_PAYLOAD (at_max_payload x)))) = Inr m1" "m1 \<le> MAX_PAYLOAD"
    by blast
  show ?thesis
  proof (cases "as_peer s")
    case None
    then show ?thesis using s m1 by (simp add: asocket_get_max_payload_def)
  next
    case (Some b)
    obtain p where p: "g_sockets g b = Some p" by (rule peers_involution [OF inv s Some])
    show ?thesis
    proof (cases "as_transport p")
      case None
      then show ?thesis using s m1 Some p by (simp add: asocket_get_max_payload_def)
    next
      case (Some t)
      obtain x where "g_transports g t = Some x" by (rule transport_of_socket [OF inv p Some])
      then show ?thesis using s m1 \<open>as_peer s = Some b\<close> p Some by (simp add: asocket_get_max_payload_def)
    qed
  qed
qed

lemma remote_enqueue_moved:
  assumes inv: "adb_inv g" and s: "g_sockets g a = Some s" and rem: "is_remote s"
    and d: "blk_size d \<le> MAX_PAYLOAD"
  shows "\<exists>g'. remote_socket_enqueue a d g = Inr (1, g') \<and> moved g g' \<and> g_sockets g' = g_sockets g"
proof -
  obtain t where t: "as_transport s = Some t" using rem by (auto simp: is_remote_def)
  obtain b p where b: "as_peer s = Some b" and p: "g_sockets g b = Some p"
    by (rule other_peer [OF inv s kinds_disjoint(1) [OF rem]])
  have tl: "g_transports g t \<noteq> None" by (rule transport_of_socket [OF inv s t]) simp
  let ?p = "get_apacket\<lparr>msg := (msg get_apacket)\<lparr>command := A_WRTE, arg0 := as_id p, arg1 := as_id s,
      data_length := of_nat (blk_size d)\<rparr>, payload := d\<rparr>"
  have "unat (data_length (msg ?p)) \<le> blk_size (payload ?p)" by (simp add: data_fits)
  from send_moved [OF inv tl this] show ?thesis
    using s b p t d by (auto simp: remote_socket_enqueue_def)
qed

lemma tracker_enqueue_moved:
  assumes inv: "adb_inv g" and s: "g_sockets g a = Some s" and tr: "is_tracker s"
  shows "\<exists>g'. device_tracker_enqueue close_socket a d g = Inr (-1, g') \<and> moved g g'"
proof -
  have nl: "\<not> is_local s" using tr kinds_disjoint by blast
  obtain b where b: "as_peer s = Some b" by (rule other_peer [OF inv s nl])
  obtain g' where g': "sock_close (Suc (Suc 1)) a g = Inr g'" "closed_both a s g g'"
    using other_close_pair [OF inv s nl b, of 1] by auto
  have "sock_close (Suc (Suc 1)) a g = device_tracker_close close_socket a g"
    using s tr by (simp add: sock_close.simps(2) [of "Suc 1"] is_tracker_def close_socket_def numeral_2_eq_2)
  then show ?thesis using g' moved_closed by (auto simp: device_tracker_enqueue_def)
qed

lemma connect_to_remote_safe:
  assumes inv: "adb_inv g" and s: "g_sockets g a = Some s" and t: "as_transport s = Some t"
  shows "safe (connect_to_remote a dest g) (\<lambda>g'. moved g g' \<and> g_sockets g' = g_sockets g)"
proof -
  obtain m where m: "asocket_get_max_payload a g = Inr m" using max_payload_ok [OF inv s] by blast
  have tl: "g_transports g t \<noteq> None" by (rule transport_of_socket [OF inv s t]) simp
  let ?d = "Block_of (c_str dest @ [NUL])"
  let ?p = "get_apacket\<lparr>msg := (msg get_apacket)\<lparr>command := A_OPEN, arg0 := as_id s,
      data_length := of_nat (blk_size ?d)\<rparr>, payload := ?d\<rparr>"
  have "unat (data_length (msg ?p)) \<le> blk_size (payload ?p)" using data_fits [of "blk_size ?d"] by simp
  from send_moved [OF inv tl this] show ?thesis
    using s t m by (auto simp: connect_to_remote_def Block_assign_of)
qed

section \<open>New sockets\<close>

lemma table_fds_new: "m i = None \<Longrightarrow> table_fds (m(i \<mapsto> (fd, e, f))) = insert fd (table_fds m)"
  by (auto simp: table_fds_def split: if_splits) (metis option.distinct(1))+

lemma create_local_moved:
  assumes inv: "adb_inv g" and fd: "fd \<in> free_fds (g_ev g)" "fd \<ge> 0"
  shows "safe (create_local_socket fd g) (\<lambda>(a, g'). a = g_next_socket g \<and> adb_inv g' \<and> adb_rest g' = adb_rest g
      \<and> foreign_fdes g' = foreign_fdes g \<and> free_fds (g_ev g') = free_fds (g_ev g) - {fd}
      \<and> g_transports g' = g_transports g
      \<and> (\<exists>i. g_sockets g' = (g_sockets g)(a \<mapsto> local_new fd (g_next_id g) i)))"
proof -
  have nreg: "\<forall>i e f. fde_view (g_ev g) i \<noteq> Some (fd, e, f)"
    using fd(1) by (auto simp: free_fds_def table_fds_def)
  have op: "fd \<in> set (os_open (fd_os (g_ev g)))" using fd(1) by (simp add: free_fds_def)
  show ?thesis
  proof (cases "g_next_id g + 1 = 0")
    case True
    then show ?thesis using create_local_socket_eq [OF inv fd(2) nreg] by simp
  next
    case False
    then obtain i g' where g': "create_local_socket fd g = Inr (g_next_socket g, g')" "created_local fd g i g'"
      using create_local_socket_eq [OF inv fd(2) nreg] by auto
    note C = g'(2) [unfolded created_local_def]
    have "adb_inv g'" by (rule inv_created_local [OF inv g'(2) False op])
    moreover have "table_fds (fde_view (g_ev g')) = insert fd (table_fds (fde_view (g_ev g)))"
      using C table_fds_new [of "fde_view (g_ev g)" i] by simp
    then have "free_fds (g_ev g') = free_fds (g_ev g) - {fd}" using C by (auto simp: free_fds_def)
    moreover have "foreign_fdes g' = foreign_fdes g" using C by (auto simp: foreign_fdes_def split: if_splits)
    ultimately show ?thesis using g'(1) C by auto
  qed
qed

text \<open>The far end of a stream to a device.\<close>

definition remote_new :: "u32 \<Rightarrow> nat \<Rightarrow> nat \<Rightarrow> asocket" where
  "remote_new i t a =
     (asocket_new remote_socket_enqueue_f remote_socket_ready_f (Some remote_socket_shutdown_f) remote_socket_close_f)
       \<lparr>as_id := i, as_transport := Some t, as_peer := Some a\<rparr>"

lemma remote_new_props [simp]:
  "as_peer (remote_new i t a) = Some a" "as_transport (remote_new i t a) = Some t" "as_id (remote_new i t a) = i"
  "\<not> as_closing (remote_new i t a)" "as_fde (remote_new i t a) = None" "\<not> is_tracker (remote_new i t a)"
  "i \<noteq> 0 \<Longrightarrow> is_remote (remote_new i t a)"
  by (simp_all add: remote_new_def asocket_new_def is_remote_def is_tracker_def)

lemma linked_moved:
  assumes inv: "adb_inv g" and s: "g_sockets g a = Some s" and loc: "is_local s" and peer: "as_peer s = None"
    and nc: "\<not> as_closing s" and l: "linked a s p g g'" and rest: "adb_rest g' = adb_rest g"
    and p: "is_remote p \<or> is_smart p \<or> is_tracker p" "as_peer p = Some a" "\<not> as_closing p" "as_fde p = None"
      "\<And>t. as_transport p = Some t \<Longrightarrow> g_transports g t \<noteq> None"
  shows "moved g g'"
proof (rule moved_still [of _ UNIV])
  show "adb_inv g'" by (rule inv_linked [OF inv s loc peer nc l p])
  show "frame UNIV g g'" using l rest by (simp add: frame_def linked_def foreign_fdes_def)
  show "g_transports g' = g_transports g" using l by (simp add: linked_def)
qed

lemma connect_peer_eq:
  assumes inv: "adb_inv g" and s: "g_sockets g a = Some s" and i: "i \<noteq> 0"
  shows "connect_peer a i t g = Inr (g_next_socket g,
           g\<lparr>g_sockets := (g_sockets g)(a \<mapsto> s\<lparr>as_peer := Some (g_next_socket g)\<rparr>,
                            g_next_socket g \<mapsto> remote_new i t a),
             g_next_socket := Suc (g_next_socket g)\<rparr>)"
proof -
  have an: "a \<noteq> g_next_socket g" using s fresh_socket(1) [OF inv] by auto
  let ?r = "(asocket_new remote_socket_enqueue_f remote_socket_ready_f (Some remote_socket_shutdown_f)
      remote_socket_close_f)\<lparr>as_id := i, as_transport := Some t\<rparr>"
  have "create_remote_socket i t g = Inr (sock_new ?r g)" using i by (simp add: create_remote_socket_def)
  moreover have "?r\<lparr>as_peer := Some a\<rparr> = remote_new i t a" by (simp add: remote_new_def)
  ultimately show ?thesis
    using an s by (simp add: connect_peer_def sock_new_def)
qed

text \<open>A local socket without a peer gets one and is told to go on.\<close>

lemma connect_ready_moved:
  assumes inv: "adb_inv g" and s: "g_sockets g a = Some s" and loc: "is_local s" and peer: "as_peer s = None"
    and nc: "\<not> as_closing s" and t: "g_transports g t \<noteq> None" and i: "i \<noteq> 0"
  shows "\<exists>b g1 g2. connect_peer a i t g = Inr (b, g1) \<and> sock_ready env sm a g1 = Inr g2 \<and> moved g g2
          \<and> (as_ready s = local_socket_ready_f \<longrightarrow> moved g g1)"
proof -
  let ?n = "g_next_socket g"
  define r where "r = remote_new i t a"
  define s1 where "s1 = s\<lparr>as_peer := Some ?n\<rparr>"
  define s2 where "s2 = (reset_slots s)\<lparr>as_peer := Some ?n\<rparr>"
  define g1 where "g1 = g\<lparr>g_sockets := (g_sockets g)(a \<mapsto> s1, ?n \<mapsto> r), g_next_socket := Suc ?n\<rparr>"
  define h where "h = g\<lparr>g_sockets := (g_sockets g)(a \<mapsto> s2, ?n \<mapsto> r), g_next_socket := Suc ?n\<rparr>"
  have an: "a \<noteq> ?n" using s fresh_socket(1) [OF inv] by auto
  have l: "linked a s r g h" "adb_rest h = adb_rest g" by (simp_all add: linked_def adb_rest_def h_def s2_def r_def)
  have mh: "moved g h" by (rule linked_moved [OF inv s loc peer nc l]) (use i t in \<open>simp_all add: r_def\<close>)
  have ls: "is_local s2" using is_local_reset [OF loc] by (simp add: s2_def)
  have ha: "g_sockets h a = Some s2" and g1a: "g_sockets g1 a = Some s1" using an by (simp_all add: h_def g1_def)
  have c: "connect_peer a i t g = Inr (?n, g1)" using connect_peer_eq [OF inv s i] by (simp add: g1_def s1_def r_def)
  have s2: "reset_slots s1 = s2" "as_ready s1 = as_ready s" "as_fd s2 = as_fd s"
    by (simp_all add: s1_def s2_def reset_slots_def)
  show ?thesis
  proof (cases "as_ready s = local_socket_ready_f")
    case True
    have "s2 = s1" using reset_slots_id [OF loc True] by (simp add: s1_def s2_def)
    then have "h = g1" by (simp add: h_def g1_def)
    moreover obtain g2 where "local_socket_ready a h = Inr g2" "moved h g2"
      using local_ready_moved [OF moved_inv [OF mh] ha ls] by blast
    moreover have "sock_ready env sm a g1 = local_socket_ready a g1"
      unfolding sock_ready_def using g1a True s2(2) by simp
    ultimately show ?thesis using c mh moved_trans [OF mh] by auto
  next
    case False
    then have f: "as_ready s1 = local_socket_ready_notify_f" using loc s2(2) by (auto simp: is_local_def)
    let ?k = "snd (os_do (SendOkay (as_fd s)) h)"
    have mk: "moved h ?k" by (rule moved_reply [OF moved_inv [OF mh] SendOkay_open])
    have "g_sockets ?k a = Some s2" using ha by simp
    from local_ready_moved [OF moved_inv [OF mk] this ls]
    obtain g2 where g2: "local_socket_ready a ?k = Inr g2" "moved ?k g2" by blast
    have "g1\<lparr>g_sockets := (g_sockets g1)(a \<mapsto> s2)\<rparr> = h" using an by (auto simp: fun_eq_iff g1_def h_def)
    then have "sock_upd a reset_slots g1 = Inr h" using sock_upd_Some [OF g1a, of reset_slots] s2(1) by simp
    then have "local_socket_ready_notify a g1 = Inr g2"
      using g2(1) sock_Some [OF ha] s2(3) unfolding local_socket_ready_notify_def by simp
    then have "sock_ready env sm a g1 = Inr g2"
      using f g1a unfolding sock_ready_def by simp
    then show ?thesis using c moved_trans [OF moved_trans [OF mh mk] g2(2)] False by auto
  qed
qed

end
