(* ===== verification/ServerInv.thy ===== *)
theory ServerInv
  imports SocketStep
begin

text \<open>
  The invariant of the server as a whole: that of sockets, listeners and lists of transports; that
  every descriptor of a connection or of a service thread is open, belongs to one owner only and is
  not registered with the event loop; and that all queues refer to live transports.
\<close>

section \<open>Owners of descriptors\<close>

fun conn_fd :: "conn_kind \<Rightarrow> int option" where
  "conn_fd (ConnFd fd) = (if fd = -1 then None else Some fd)"
| "conn_fd (ConnEmulator fd port) = (if fd = -1 then None else Some fd)"
| "conn_fd (ConnUsb h) = None"

definition live_fd :: "Connection option \<Rightarrow> int option" where
  "live_fd c = (case c of None \<Rightarrow> None | Some c \<Rightarrow>
     if conn_started c \<and> conn_stopped c then None else conn_fd (conn_kind c))"

definition holds :: "adb \<Rightarrow> nat \<Rightarrow> int option" where
  "holds g t = (case g_transports g t of None \<Rightarrow> None | Some x \<Rightarrow> live_fd (at_connection x))"

definition owners_ok :: "adb \<Rightarrow> bool" where
  "owners_ok g \<longleftrightarrow>
     (\<forall>t fd. holds g t = Some fd \<longrightarrow> fd \<in> free_fds (g_ev g) \<and> fd \<notin> snd ` set (g_services g))
     \<and> (\<forall>t u fd. holds g t = Some fd \<longrightarrow> holds g u = Some fd \<longrightarrow> t = u)
     \<and> snd ` set (g_services g) \<subseteq> free_fds (g_ev g) - {-1} \<and> distinct (map snd (g_services g))"

text \<open>Open descriptors without an owner.\<close>

definition loose :: "adb \<Rightarrow> int set" where
  "loose g = {fd. 0 \<le> fd \<and> fd \<in> free_fds (g_ev g) \<and> (\<forall>t. holds g t \<noteq> Some fd) \<and> fd \<notin> snd ` set (g_services g)}"

lemma looseD:
  assumes "fd \<in> loose g"
  shows "0 \<le> fd" "fd \<in> free_fds (g_ev g)" "holds g t \<noteq> Some fd" "fd \<notin> snd ` set (g_services g)"
  using assms by (simp_all add: loose_def)

section \<open>References to transports\<close>

fun runnable_ok :: "adb \<Rightarrow> runnable \<Rightarrow> bool" where
  "runnable_ok g (RunPacket p t) \<longleftrightarrow> Block_inv (payload p) \<and> g_transports g t \<noteq> None"
| "runnable_ok g (RunTerminated t) \<longleftrightarrow> g_transports g t \<noteq> None"

definition refs_ok :: "adb \<Rightarrow> bool" where
  "refs_ok g \<longleftrightarrow>
     (\<forall>r \<in> set (run_queue (g_ev g)). runnable_ok g r)
     \<and> fst ` set (g_registration g) \<union> (fst \<circ> snd) ` set (g_reconnect_queue g) \<subseteq> dom (g_transports g)
     \<and> (\<forall>t. t \<ge> g_next_transport g \<longrightarrow> g_transports g t = None)"

definition server_inv :: "adb \<Rightarrow> bool" where
  "server_inv g \<longleftrightarrow> srv_inv g \<and> owners_ok g \<and> refs_ok g"

lemma server_invD:
  assumes "server_inv g"
  shows "srv_inv g" "adb_inv g" "listeners_inv g" "lists_live g" "owners_ok g" "refs_ok g"
  using assms by (simp_all add: server_inv_def srv_inv_def)

text \<open>A step of the server keeps the invariant, and deletes no transport.\<close>

definition acted :: "adb \<Rightarrow> adb \<Rightarrow> bool" where
  "acted g g' \<longleftrightarrow> server_inv g' \<and> dom (g_transports g) \<subseteq> dom (g_transports g')"

lemma acted_refl: "server_inv g \<Longrightarrow> acted g g"
  by (simp add: acted_def)

lemma acted_trans: "acted g g1 \<Longrightarrow> acted g1 g2 \<Longrightarrow> acted g g2"
  by (auto simp: acted_def)

lemma acted_inv: "acted g g' \<Longrightarrow> server_inv g'"
  by (simp add: acted_def)

lemma acted_live: "acted g g' \<Longrightarrow> g_transports g t \<noteq> None \<Longrightarrow> g_transports g' t \<noteq> None"
  unfolding acted_def by blast

section \<open>Steps of the socket layer\<close>

lemma live_fd_push [simp]: "live_fd (at_connection (push ps x)) = live_fd (at_connection x)"
  by (cases "at_connection x") (simp_all add: push_def live_fd_def)

lemma holds_sent: "sent g g' ps \<Longrightarrow> holds g' t = holds g t"
  by (cases "g_transports g t") (simp_all add: holds_def sent_def)

lemma runnable_ok_dom: "dom (g_transports g) \<subseteq> dom (g_transports g') \<Longrightarrow> runnable_ok g r \<Longrightarrow> runnable_ok g' r"
  by (cases r) auto

lemma owners_ok_free:
  assumes "owners_ok g" "\<And>t. holds g' t = holds g t" "g_services g' = g_services g"
    "free_fds (g_ev g) \<subseteq> free_fds (g_ev g')"
  shows "owners_ok g'"
  using assms(1,4) unfolding owners_ok_def assms(2,3) by (meson subset_iff Diff_mono subset_refl subset_trans)

lemma moved_acted:
  assumes inv: "server_inv g" and m: "moved g g'"
  shows "acted g g'"
proof -
  obtain ps where ps: "sent g g' ps" and fr: "frame UNIV g g'" using m by (auto simp: moved_def)
  have rest: "adb_rest g' = adb_rest g" using fr by (simp add: frame_def)
  have d: "g_transports g' t = None \<longleftrightarrow> g_transports g t = None" for t by (rule sent_live [OF ps])
  then have dom: "dom (g_transports g') = dom (g_transports g)" by (auto simp: dom_def)
  have sv: "g_services g' = g_services g" using rest by (simp add: adb_rest_def)
  have ff: "free_fds (g_ev g) \<subseteq> free_fds (g_ev g')" using fr by (simp add: frame_def)
  have "srv_inv g'" by (rule moved_srv [OF server_invD(1) [OF inv] m])
  moreover have "owners_ok g'" by (rule owners_ok_free [OF server_invD(5) [OF inv] holds_sent [OF ps] sv ff])
  moreover have "refs_ok g'"
  proof -
    have r: "run_queue (g_ev g') = run_queue (g_ev g)" "g_registration g' = g_registration g"
      "g_reconnect_queue g' = g_reconnect_queue g" "g_next_transport g' = g_next_transport g"
      using rest by (simp_all add: adb_rest_def fde_rest_def)
    show ?thesis
      using server_invD(6) [OF inv] runnable_ok_dom [of g g'] d dom unfolding refs_ok_def r by simp
  qed
  ultimately show ?thesis using dom by (simp add: acted_def server_inv_def)
qed

lemma moved_server: "server_inv g \<Longrightarrow> moved g g' \<Longrightarrow> server_inv g'"
  using moved_acted acted_inv by blast

section \<open>Changes to transports and queues\<close>

text \<open>
  The sockets, the listeners and the event table stay, and the registered descriptors stay open; the
  transports may change, appear without disconnect callbacks, or disappear when nothing refers to them.
\<close>

definition same_layers :: "adb \<Rightarrow> adb \<Rightarrow> bool" where
  "same_layers g g' \<longleftrightarrow>
     g_sockets g' = g_sockets g \<and> g_next_socket g' = g_next_socket g \<and> g_local_list g' = g_local_list g
     \<and> g_closing_list g' = g_closing_list g \<and> g_next_id g' = g_next_id g \<and> g_trackers g' = g_trackers g
     \<and> g_listeners g' = g_listeners g \<and> g_listener_list g' = g_listener_list g
     \<and> g_next_listener g' = g_next_listener g
     \<and> fdevents_inv (g_ev g') \<and> fde_view (g_ev g') = fde_view (g_ev g)
     \<and> table_fds (fde_view (g_ev g)) \<subseteq> set (os_open (fd_os (g_ev g')))"

definition callbacks :: "atransport option \<Rightarrow> nat list" where
  "callbacks x = (case x of None \<Rightarrow> [] | Some y \<Rightarrow> at_disconnects y)"

lemma listeners_inv_change:
  assumes L: "listeners_inv g" and same: "same_layers g g'"
    and tr: "\<And>t. callbacks (g_transports g' t) = callbacks (g_transports g t)"
  shows "listeners_inv g'"
  unfolding listeners_inv_def
proof (intro conjI allI impI)
  note LD = listeners_invD [OF L]
  have R: "g_listeners g' = g_listeners g" "g_listener_list g' = g_listener_list g"
    "g_next_listener g' = g_next_listener g" "fde_view (g_ev g') = fde_view (g_ev g)"
    using same by (simp_all add: same_layers_def)
  have cb: "at_disconnects y = callbacks (g_transports g t)" if "g_transports g' t = Some y" for t y
    using tr [of t] that by (simp add: callbacks_def)
  have cb': "\<exists>y. g_transports g t = Some y \<and> l \<in> set (at_disconnects y)" if "l \<in> set (callbacks (g_transports g t))" for l t
    using that by (cases "g_transports g t") (simp_all add: callbacks_def)
  have back': "\<exists>y'. g_transports g' t = Some y' \<and> l \<in> set (at_disconnects y')"
    if "g_transports g t = Some y" "l \<in> set (at_disconnects y)" for t y l
    using that tr [of t] by (cases "g_transports g' t") (simp_all add: callbacks_def)
  show "distinct (g_listener_list g')" "set (g_listener_list g') = dom (g_listeners g')" using LD(1,2) R by simp_all
  show "listener_ok g' l x" if "g_listeners g' l = Some x" for l x
    using LD(3) [of l x] that back' R unfolding listener_ok_def by metis
  show "\<exists>x. g_listeners g' l = Some x \<and> al_fde x = Some i"
    if "fde_view (g_ev g') i = Some (fd, ev, f)" "f = listener_event_f l \<or> f = ss_listener_event_f l" for i fd ev f l
    using that L R unfolding listeners_inv_def by metis
  show "\<exists>x. g_listeners g' l = Some x \<and> al_transport x = Some t"
    if "g_transports g' t = Some y" "l \<in> set (at_disconnects y)" for t y l
    using cb [OF that(1)] cb' [of l t] that(2) LD(4) R(1) by metis
  show "distinct (at_disconnects y)" if "g_transports g' t = Some y" for t y
    using cb [OF that] LD(5) [of t] by (cases "g_transports g t") (simp_all add: callbacks_def)
qed

lemma srv_inv_change:
  assumes srv: "srv_inv g" and same: "same_layers g g'"
    and tr: "\<And>t. callbacks (g_transports g' t) = callbacks (g_transports g t)"
    and conn: "\<And>t x. g_transports g' t = Some x \<Longrightarrow> at_connection x \<noteq> None"
    and gone: "\<And>a s t. g_sockets g a = Some s \<Longrightarrow> as_transport s = Some t \<Longrightarrow> g_transports g' t \<noteq> None"
    and live: "lists_live g'"
  shows "srv_inv g'"
proof -
  have I: "adb_inv g" using srv by (simp add: srv_inv_def)
  note S = same [unfolded same_layers_def]
  have "adb_inv g'"
  proof (rule inv_ex_foreign [OF I])
    show "tports_ok g'" using conn gone S by (simp add: tports_ok_def)
    show "fd \<in> set (os_open (fd_os (g_ev g')))" if "fde_view (g_ev g') i = Some (fd, e, f)" for i fd e f
      using that S by (auto simp: table_fds_def)
  qed (use S in simp_all)
  moreover have "listeners_inv g'"
    using srv by (intro listeners_inv_change [OF _ same tr]) (simp add: srv_inv_def)
  ultimately show ?thesis using live by (simp add: srv_inv_def)
qed

text \<open>No transport appears or disappears.\<close>

definition same_server :: "adb \<Rightarrow> adb \<Rightarrow> bool" where
  "same_server g g' \<longleftrightarrow>
     same_layers g g' \<and> g_transport_list g' = g_transport_list g \<and> g_pending_list g' = g_pending_list g
     \<and> (\<forall>t. map_option at_disconnects (g_transports g' t) = map_option at_disconnects (g_transports g t))
     \<and> (\<forall>t x. g_transports g' t = Some x \<longrightarrow> at_connection x \<noteq> None)"

lemma same_server_transports: "same_server g g' \<Longrightarrow> same_transports g g'"
  by (simp add: same_server_def same_transports_def)

lemma same_server_dom: "same_server g g' \<Longrightarrow> dom (g_transports g') = dom (g_transports g)"
  by (rule same_transports_dom [OF same_server_transports])

lemma same_server_srv:
  assumes srv: "srv_inv g" and same: "same_server g g'"
  shows "srv_inv g'"
proof (rule srv_inv_change [OF srv])
  have dom: "g_transports g' t = None \<longleftrightarrow> g_transports g t = None" for t
    using same_server_dom [OF same] by (metis domIff)
  show "callbacks (g_transports g' t) = callbacks (g_transports g t)" for t
    using same by (auto simp: callbacks_def same_server_def split: option.split)
      (metis option.distinct(1) option.simps(8) option.simps(9) option.inject)+
  show "g_transports g' t \<noteq> None" if "g_sockets g a = Some s" "as_transport s = Some t" for a s t
    using that srv dom by (auto simp: srv_inv_def inv_ex_def tports_ok_def)
  show "lists_live g'"
    using srv same same_server_dom [OF same] by (simp add: srv_inv_def lists_live_def same_server_def)
qed (use same in \<open>simp_all add: same_server_def\<close>)

text \<open>Steps that leave the sockets alone.\<close>

definition quiet :: "adb \<Rightarrow> adb \<Rightarrow> bool" where
  "quiet g g' \<longleftrightarrow> acted g g' \<and> g_sockets g' = g_sockets g"

lemma quiet_refl: "server_inv g \<Longrightarrow> quiet g g"
  by (simp add: quiet_def acted_refl)

lemma quiet_trans: "quiet g g1 \<Longrightarrow> quiet g1 g2 \<Longrightarrow> quiet g g2"
  by (auto simp: quiet_def intro: acted_trans)

lemma quiet_inv: "quiet g g' \<Longrightarrow> server_inv g'"
  by (simp add: quiet_def acted_def)

lemma quiet_acted: "quiet g g' \<Longrightarrow> acted g g'"
  by (simp add: quiet_def)

lemma quiet_live: "quiet g g' \<Longrightarrow> g_transports g t \<noteq> None \<Longrightarrow> g_transports g' t \<noteq> None"
  by (rule acted_live [OF quiet_acted])

lemma quiet_moved: "server_inv g \<Longrightarrow> moved g g' \<Longrightarrow> g_sockets g' = g_sockets g \<Longrightarrow> quiet g g'"
  by (simp add: quiet_def moved_acted)

lemma quiet_reply:
  assumes "server_inv g" "\<And>w. os_open (snd (f w)) = os_open w"
  shows "quiet g (reply f g)"
  unfolding reply_def using assms by (intro quiet_moved) (simp_all add: moved_reply server_invD(2))

lemma server_inv_same:
  assumes inv: "server_inv g" and same: "same_server g g'" and own: "owners_ok g'" and refs: "refs_ok g'"
  shows "quiet g g'"
  using same_server_srv [OF server_invD(1) [OF inv] same] same_server_dom [OF same] own refs same
  by (simp add: quiet_def acted_def server_inv_def same_server_def same_layers_def)

lemma registered_open:
  assumes "adb_inv g"
  shows "table_fds (fde_view (g_ev g)) \<subseteq> set (os_open (fd_os (g_ev g)))"
  using inv_exD(6) [OF assms] by (auto simp: fdes_ok_def table_fds_def)

lemma registered_nonneg:
  assumes "adb_inv g"
  shows "-1 \<notin> table_fds (fde_view (g_ev g))"
proof
  assume "-1 \<in> table_fds (fde_view (g_ev g))"
  then obtain i f where "fde_heap (g_ev g) i = Some f" "fde_fd f = -1" by (auto simp: table_fds_def fde_view_def)
  moreover from this have "fde_ok (g_ev g) i f" using inv_exD(1) [OF assms] by (simp add: fdevents_inv_def)
  ultimately show False by (simp add: fde_ok_def)
qed

lemma refs_ok_upd:
  assumes "refs_ok g" "dom (g_transports g') = dom (g_transports g)" "g_next_transport g' = g_next_transport g"
    "g_registration g' = g_registration g" "g_reconnect_queue g' = g_reconnect_queue g"
    "\<And>r. r \<in> set (run_queue (g_ev g')) \<Longrightarrow> r \<in> set (run_queue (g_ev g)) \<or> runnable_ok g' r"
  shows "refs_ok g'"
proof -
  have "runnable_ok g' r" if "r \<in> set (run_queue (g_ev g'))" for r
    using assms(6) [OF that] assms(1) runnable_ok_dom [of g g' r] assms(2) by (auto simp: refs_ok_def)
  moreover have "g_transports g' t = None" if "g_next_transport g' \<le> t" for t
    using assms(1-3) that unfolding refs_ok_def by (metis domIff)
  ultimately show ?thesis using assms(1-5) by (simp add: refs_ok_def)
qed

lemma owners_okD:
  assumes "owners_ok g"
  shows "holds g t = Some fd \<Longrightarrow> fd \<in> free_fds (g_ev g)"
    "holds g t = Some fd \<Longrightarrow> fd \<notin> snd ` set (g_services g)"
    "holds g t = Some fd \<Longrightarrow> holds g u = Some fd \<Longrightarrow> t = u"
    "fd \<in> snd ` set (g_services g) \<Longrightarrow> fd \<in> free_fds (g_ev g)"
    "fd \<in> snd ` set (g_services g) \<Longrightarrow> fd \<noteq> -1"
    "distinct (map snd (g_services g))"
  using assms unfolding owners_ok_def by blast+

lemma owners_okI:
  assumes "\<And>t fd. holds g t = Some fd \<Longrightarrow> fd \<in> free_fds (g_ev g)"
    "\<And>t fd. holds g t = Some fd \<Longrightarrow> fd \<notin> snd ` set (g_services g)"
    "\<And>t u fd. holds g t = Some fd \<Longrightarrow> holds g u = Some fd \<Longrightarrow> t = u"
    "\<And>fd. fd \<in> snd ` set (g_services g) \<Longrightarrow> fd \<in> free_fds (g_ev g)"
    "\<And>fd. fd \<in> snd ` set (g_services g) \<Longrightarrow> fd \<noteq> -1"
    "distinct (map snd (g_services g))"
  shows "owners_ok g"
  unfolding owners_ok_def using assms by blast

lemma holds_valid: "holds g t \<noteq> Some (-1)"
proof -
  have "conn_fd k \<noteq> Some (-1)" for k by (cases k) simp_all
  then show ?thesis by (auto simp: holds_def live_fd_def split: option.splits)
qed

text \<open>Descriptors \<open>C\<close> are closed and given up by their owners.\<close>

lemma owners_ok_release:
  assumes O: "owners_ok g" and h: "\<And>u fd. holds g' u = Some fd \<Longrightarrow> holds g u = Some fd \<and> fd \<notin> C"
    and sv: "g_services g' = g_services g" and C: "\<And>fd. fd \<in> C \<Longrightarrow> fd \<notin> snd ` set (g_services g)"
    and free: "\<And>fd. fd \<in> free_fds (g_ev g) \<Longrightarrow> fd \<noteq> -1 \<Longrightarrow> fd \<notin> C \<Longrightarrow> fd \<in> free_fds (g_ev g')"
  shows "owners_ok g'"
proof (rule owners_okI)
  show "fd \<in> free_fds (g_ev g')" "fd \<notin> snd ` set (g_services g')" if "holds g' u = Some fd" for u fd
    using h [OF that] owners_okD(1,2) [OF O, of u fd] free [of fd] holds_valid [of g u] sv by metis+
  show "u = v" if "holds g' u = Some fd" "holds g' v = Some fd" for u v fd
    using h [OF that(1)] h [OF that(2)] owners_okD(3) [OF O] by blast
  show "fd \<in> free_fds (g_ev g')" "fd \<noteq> -1" if "fd \<in> snd ` set (g_services g')" for fd
    using that owners_okD(4,5) [OF O] free C unfolding sv by blast+
  show "distinct (map snd (g_services g'))" using owners_okD(6) [OF O] sv by simp
qed

text \<open>A transport changes, but not its callbacks; it holds the same descriptor, or none.\<close>

lemma tport_update_quiet:
  assumes inv: "server_inv g" and x: "g_transports g t = Some x"
    and x': "at_disconnects x' = at_disconnects x" "at_connection x' \<noteq> None"
      "live_fd (at_connection x') = None \<or> live_fd (at_connection x') = live_fd (at_connection x)"
  shows "quiet g (g\<lparr>g_transports := (g_transports g)(t \<mapsto> x')\<rparr>)" (is "quiet g ?g")
proof (rule server_inv_same [OF inv])
  note I = server_invD [OF inv]
  have "dom (g_transports ?g) = dom (g_transports g)" using x by auto
  then show "refs_ok ?g" by (intro refs_ok_upd [OF I(6)]) simp_all
  have "holds ?g u = holds g u \<or> holds ?g u = None" for u using x x'(3) by (auto simp: holds_def)
  then show "owners_ok ?g" by (intro owners_ok_release [OF I(5), of _ "{}"]) (simp_all, metis option.distinct(1))
  have "at_connection y \<noteq> None" if "g_transports g u = Some y" for u y
    using inv_exD(7) [OF I(2)] that by (simp add: tports_ok_def)
  then show "same_server g ?g"
    using x x'(1,2) inv_exD(1) [OF I(2)] registered_open [OF I(2)] by (simp add: same_server_def same_layers_def)
qed

text \<open>A function is queued for the main thread.\<close>

lemma adb_write_open: "os_open (snd (adb_write fd bs w)) = os_open w"
  by (simp add: adb_write_def split: list.split write_result.split)

lemma run_on_main_safe:
  "safe (ev_do (fdevent_run_on_main_thread r) g) (\<lambda>g'. \<exists>w. os_open w = os_open (fd_os (g_ev g))
     \<and> g' = g\<lparr>g_ev := (g_ev g)\<lparr>run_queue := run_queue (g_ev g) @ [r], fd_os := w\<rparr>\<rparr>)"
proof (cases "run_queue_notify_fd (g_ev g) = -1")
  case True
  then show ?thesis
    by (auto simp: ev_do_def fdevent_run_on_main_thread_def intro!: exI [of _ "fd_os (g_ev g)"])
next
  case False
  obtain rc w where w: "adb_write (run_queue_notify_fd (g_ev g)) [NUL] (fd_os (g_ev g)) = (rc, w)" by fastforce
  then have "os_open w = os_open (fd_os (g_ev g))"
    using adb_write_open [of "run_queue_notify_fd (g_ev g)" "[NUL]" "fd_os (g_ev g)"] by simp
  then show ?thesis using False w
    by (cases rc) (auto simp: ev_do_def fdevent_run_on_main_thread_def)
qed

lemma run_on_main_quiet:
  assumes inv: "server_inv g" and r: "runnable_ok g r"
  shows "safe (ev_do (fdevent_run_on_main_thread r) g) (quiet g)"
proof (rule safe_mono [OF run_on_main_safe])
  fix g' assume "\<exists>w. os_open w = os_open (fd_os (g_ev g))
     \<and> g' = g\<lparr>g_ev := (g_ev g)\<lparr>run_queue := run_queue (g_ev g) @ [r], fd_os := w\<rparr>\<rparr>"
  then obtain w where w: "os_open w = os_open (fd_os (g_ev g))"
    "g' = g\<lparr>g_ev := (g_ev g)\<lparr>run_queue := run_queue (g_ev g) @ [r], fd_os := w\<rparr>\<rparr>" by blast
  note I = server_invD [OF inv]
  have fv: "fde_view (g_ev g') = fde_view (g_ev g)" "fdevents_inv (g_ev g')"
    using inv_exD(1) [OF I(2)] w(2) by (simp_all add: fde_view_def fdevents_inv_def fde_ok_def fun_eq_iff)
  show "quiet g g'"
  proof (rule server_inv_same [OF inv])
    show "same_server g g'"
      using fv w registered_open [OF I(2)] inv_exD(7) [OF I(2)]
      by (simp add: same_server_def same_layers_def tports_ok_def)
    show "owners_ok g'"
      using fv(1) w by (intro owners_ok_free [OF I(5)]) (simp_all add: holds_def free_fds_def)
    have "runnable_ok g' r" using r w(2) by (cases r) simp_all
    then show "refs_ok g'" using w(2) by (intro refs_ok_upd [OF I(6)]) auto
  qed
qed

section \<open>Stopping connections\<close>

lemma connection_of:
  assumes "server_inv g" "g_transports g t = Some x"
  obtains c where "at_connection x = Some c"
  using inv_exD(7) [OF server_invD(2) [OF assms(1)]] assms(2) unfolding tports_ok_def by blast

lemma conn_report_quiet:
  assumes inv: "server_inv g" and x: "g_transports g t = Some x"
  shows "safe (conn_report t g) (quiet g)"
proof -
  obtain c where c: "at_connection x = Some c" by (rule connection_of [OF inv x])
  let ?x = "x\<lparr>at_connection := Some (c\<lparr>conn_error_flag := True\<rparr>)\<rparr>"
  let ?g = "g\<lparr>g_transports := (g_transports g)(t \<mapsto> ?x)\<rparr>"
  have q: "quiet g ?g" by (rule tport_update_quiet [OF inv x]) (simp_all add: c live_fd_def)
  have "safe (ev_do (fdevent_run_on_main_thread (RunTerminated t)) ?g) (quiet ?g)"
    by (rule run_on_main_quiet [OF quiet_inv [OF q]]) simp
  then show ?thesis
    using x c quiet_refl [OF inv] by (auto simp: conn_report_def intro: safe_mono quiet_trans [OF q])
qed

text \<open>A transport gives up the descriptors \<open>C\<close>, which are closed.\<close>

lemma release_quiet:
  assumes inv: "server_inv g" and x: "g_transports g t = Some x"
    and x': "at_disconnects x' = at_disconnects x" "at_connection x' \<noteq> None" "live_fd (at_connection x') = None"
    and C: "\<And>fd. fd \<in> C \<Longrightarrow> holds g t = Some fd"
    and keep: "\<And>fd. fd \<in> set (os_open (fd_os (g_ev g))) \<Longrightarrow> fd \<noteq> -1 \<Longrightarrow> fd \<notin> C \<Longrightarrow> fd \<in> set (os_open w)"
    and g': "g' = g\<lparr>g_transports := (g_transports g)(t \<mapsto> x'), g_local_transports := L, g_retry_ports := P,
                   g_ev := (g_ev g)\<lparr>fd_os := w\<rparr>\<rparr>"
  shows "quiet g g'" "loose g \<subseteq> loose g'"
proof -
  note I = server_invD [OF inv]
  have ev: "fde_view (g_ev g') = fde_view (g_ev g)" "fdevents_inv (g_ev g')" "run_queue (g_ev g') = run_queue (g_ev g)"
    "fd_os (g_ev g') = w" and sv: "g_services g' = g_services g"
    using inv_exD(1) [OF I(2)] by (simp_all add: g')
  have hold': "holds g' u = (if u = t then None else holds g u)" for u
    using x x' by (simp add: holds_def g')
  have free: "fd \<in> free_fds (g_ev g')" if "fd \<in> free_fds (g_ev g)" "fd \<noteq> -1" "fd \<notin> C" for fd
    using that keep ev(1,4) by (simp add: free_fds_def)
  show "quiet g g'"
  proof (rule server_inv_same [OF inv])
    have "fd \<notin> C" if "fd \<in> table_fds (fde_view (g_ev g))" for fd
      using owners_okD(1) [OF I(5) C] that by (auto simp: free_fds_def)
    then have "table_fds (fde_view (g_ev g)) \<subseteq> set (os_open w)"
      using registered_open [OF I(2)] registered_nonneg [OF I(2)] keep by blast
    then show "same_server g g'"
      using ev x x' inv_exD(7) [OF I(2)] by (simp add: same_server_def same_layers_def g' tports_ok_def)
    show "owners_ok g'"
    proof (rule owners_ok_release [OF I(5) _ sv _ free, of C])
      show "holds g u = Some fd \<and> fd \<notin> C" if "holds g' u = Some fd" for u fd
        using that hold' owners_okD(3) [OF I(5)] C by (metis option.distinct(1))
      show "fd \<notin> snd ` set (g_services g)" if "fd \<in> C" for fd by (rule owners_okD(2) [OF I(5) C [OF that]])
    qed
    have "dom (g_transports g') = dom (g_transports g)" using x by (auto simp: g')
    then show "refs_ok g'" by (rule refs_ok_upd [OF I(6)]) (simp_all add: g')
  qed
  show "loose g \<subseteq> loose g'"
    using hold' C free sv by (fastforce simp: loose_def)
qed

lemma underlying_shape:
  "\<exists>w L. conn_close_underlying k g = g\<lparr>g_local_transports := L, g_ev := (g_ev g)\<lparr>fd_os := w\<rparr>\<rparr>
     \<and> (\<forall>fd. fd \<noteq> -1 \<longrightarrow> (fd \<in> set (os_open w) \<longleftrightarrow> fd \<in> set (os_open (fd_os (g_ev g))) \<and> Some fd \<noteq> conn_fd k))"
proof -
  let ?g = "conn_close_underlying k g"
  have "?g = g\<lparr>g_local_transports := g_local_transports ?g, g_ev := (g_ev g)\<lparr>fd_os := fd_os (g_ev ?g)\<rparr>\<rparr>"
    by (cases k) (simp_all add: conn_close_underlying_def EmulatorConnection_Close_def FdConnection_Close_def snd_os_do)
  moreover have "fd \<in> set (os_open (fd_os (g_ev ?g))) \<longleftrightarrow> fd \<in> set (os_open (fd_os (g_ev g))) \<and> Some fd \<noteq> conn_fd k"
    if "fd \<noteq> -1" for fd
    using that
    by (cases k)
      (auto simp: conn_close_underlying_def EmulatorConnection_Close_def FdConnection_Close_def snd_os_do
        adb_close_def adb_shutdown_def)
  ultimately show ?thesis by blast
qed

lemma stop_close_quiet:
  assumes inv: "server_inv g" and x: "g_transports g t = Some x" and c: "at_connection x = Some c" "\<not> conn_stopped c"
    and x': "at_disconnects x' = at_disconnects x" "at_connection x' = Some c'" "conn_started c'" "conn_stopped c'"
    and g': "g' = conn_close_underlying (conn_kind c) (g\<lparr>g_transports := (g_transports g)(t \<mapsto> x')\<rparr>)"
  shows "quiet g g'" "loose g \<subseteq> loose g'"
proof -
  let ?k = "conn_kind c" and ?g1 = "g\<lparr>g_transports := (g_transports g)(t \<mapsto> x')\<rparr>"
  obtain w L where sh: "conn_close_underlying ?k ?g1 = ?g1\<lparr>g_local_transports := L, g_ev := (g_ev ?g1)\<lparr>fd_os := w\<rparr>\<rparr>"
    and op: "\<forall>fd. fd \<noteq> -1 \<longrightarrow> (fd \<in> set (os_open w) \<longleftrightarrow> fd \<in> set (os_open (fd_os (g_ev ?g1))) \<and> Some fd \<noteq> conn_fd ?k)"
    using underlying_shape [of ?k ?g1] by blast
  have eq: "g' = g\<lparr>g_transports := (g_transports g)(t \<mapsto> x'), g_local_transports := L,
      g_retry_ports := g_retry_ports g, g_ev := (g_ev g)\<lparr>fd_os := w\<rparr>\<rparr>"
    unfolding g' sh by simp
  have d: "at_connection x' \<noteq> None" "live_fd (at_connection x') = None" using x' by (simp_all add: live_fd_def)
  have C: "holds g t = Some fd" if "fd \<in> {fd. conn_fd ?k = Some fd}" for fd
    using that x c by (simp add: holds_def live_fd_def)
  have keep: "fd \<in> set (os_open w)"
    if "fd \<in> set (os_open (fd_os (g_ev g)))" "fd \<noteq> -1" "fd \<notin> {fd. conn_fd ?k = Some fd}" for fd
    using that op by auto
  show "quiet g g'" by (rule release_quiet(1) [OF inv x x'(1) d C keep eq])
  show "loose g \<subseteq> loose g'" by (rule release_quiet(2) [OF inv x x'(1) d C keep eq])
qed

lemma conn_Stop_quiet:
  assumes inv: "server_inv g" and x: "g_transports g t = Some x"
  shows "safe (conn_Stop t g) (quiet g)"
proof -
  obtain c where c: "at_connection x = Some c" by (rule connection_of [OF inv x])
  show ?thesis
  proof (cases "conn_started c \<and> \<not> conn_stopped c")
    case False
    then show ?thesis using x c quiet_refl [OF inv] by (auto simp: conn_Stop_def)
  next
    case True
    define x' where "x' = x\<lparr>at_connection :=
      Some (c\<lparr>conn_stopped := True, conn_reader := False, conn_writer := False\<rparr>)\<rparr>"
    define g1 where g1: "g1 = conn_close_underlying (conn_kind c) (g\<lparr>g_transports := (g_transports g)(t \<mapsto> x')\<rparr>)"
    have x': "at_connection x' = Some (c\<lparr>conn_stopped := True, conn_reader := False, conn_writer := False\<rparr>)"
      "at_disconnects x' = at_disconnects x" by (simp_all add: x'_def)
    have q: "quiet g g1" using True by (intro stop_close_quiet(1) [OF inv x c _ x'(2,1) _ _ g1]) simp_all
    obtain y where y: "g_transports g1 t = Some y" using quiet_live [OF q, of t] x by blast
    have "safe (conn_report t g1) (quiet g1)" by (rule conn_report_quiet [OF quiet_inv [OF q] y])
    then have "safe (conn_report t g1) (quiet g)" by (rule safe_mono) (rule quiet_trans [OF q])
    then show ?thesis using True x c by (simp add: conn_Stop_def g1 x'_def)
  qed
qed

lemma Kick_quiet:
  assumes inv: "server_inv g" and x: "g_transports g t = Some x"
  shows "safe (atransport_Kick t g) (quiet g)"
proof (cases "at_kicked x")
  case True
  then show ?thesis using x quiet_refl [OF inv] by (simp add: atransport_Kick_def)
next
  case False
  define g1 where "g1 = g\<lparr>g_transports := (g_transports g)(t \<mapsto> x\<lparr>at_kicked := True\<rparr>)\<rparr>"
  obtain c where c: "at_connection x = Some c" by (rule connection_of [OF inv x])
  have q: "quiet g g1" unfolding g1_def by (rule tport_update_quiet [OF inv x]) (simp_all add: c)
  have "safe (conn_Stop t g1) (quiet g1)" by (rule conn_Stop_quiet [OF quiet_inv [OF q]]) (simp add: g1_def)
  then have "safe (conn_Stop t g1) (quiet g)" by (rule safe_mono) (rule quiet_trans [OF q])
  then show ?thesis using False x by (simp add: atransport_Kick_def g1_def)
qed

lemma kick_each_quiet:
  assumes "server_inv g" "set ts \<subseteq> dom (g_transports g)"
  shows "safe (kick_each P ts g) (quiet g)"
  using assms
proof (induction ts arbitrary: g)
  case Nil
  then show ?case by (simp add: quiet_refl)
next
  case (Cons t ts)
  obtain x where x: "g_transports g t = Some x" using Cons.prems(2) by auto
  have "safe (if P x then atransport_Kick t g else Inr g) (quiet g)"
    using Kick_quiet [OF Cons.prems(1) x] quiet_refl [OF Cons.prems(1)] by simp
  then have "safe (rbind (if P x then atransport_Kick t g else Inr g) (kick_each P ts)) (quiet g)"
  proof (rule safe_bind)
    fix g1 assume q: "quiet g g1"
    have "set ts \<subseteq> dom (g_transports g1)" using Cons.prems(2) quiet_live [OF q] by fastforce
    from Cons.IH [OF quiet_inv [OF q] this] show "safe (kick_each P ts g1) (quiet g)"
      by (rule safe_mono) (rule quiet_trans [OF q])
  qed
  then show ?case using x by simp
qed

lemma listed_live: "server_inv g \<Longrightarrow> set (g_transport_list g) \<union> set (g_pending_list g) \<subseteq> dom (g_transports g)"
  using server_invD(4) by (simp add: lists_live_def)

lemma kick_transport_quiet:
  assumes "server_inv g"
  shows "safe (kick_transport t g) (quiet g)"
  using listed_live [OF assms] Kick_quiet [OF assms] quiet_refl [OF assms] by (auto simp: kick_transport_def)

lemma kick_all_quiet:
  assumes "server_inv g"
  shows "safe (kick_all_tcp_devices g) (quiet g)" "safe (close_usb_devices P g) (quiet g)"
  using listed_live [OF assms] kick_each_quiet [OF assms, of "g_transport_list g"]
  by (simp_all add: kick_all_tcp_devices_def close_usb_devices_def)

section \<open>Queues\<close>

text \<open>Entries for live transports are put in the queues of the transport threads.\<close>

lemma queues_quiet:
  assumes inv: "server_inv g"
    and same: "same_core g g'" "g_listeners g' = g_listeners g" "g_listener_list g' = g_listener_list g"
      "g_next_listener g' = g_next_listener g" "g_transports g' = g_transports g"
      "g_next_transport g' = g_next_transport g" "g_services g' = g_services g" "g_ev g' = g_ev g"
    and live: "fst ` set (g_registration g') \<subseteq> dom (g_transports g)"
      "(fst \<circ> snd) ` set (g_reconnect_queue g') \<subseteq> dom (g_transports g)"
  shows "quiet g g'"
proof (rule server_inv_same [OF inv])
  note I = server_invD [OF inv]
  show "same_server g g'"
    using inv_exD(1,7) [OF I(2)] registered_open [OF I(2)] same
    by (simp add: same_server_def same_core_def same_layers_def tports_ok_def)
  show "owners_ok g'" using same by (intro owners_ok_free [OF I(5)]) (simp_all add: holds_def)
  have "runnable_ok g' a = runnable_ok g a" for a using same by (cases a) simp_all
  then show "refs_ok g'" using I(6) live same by (simp add: refs_ok_def)
qed

lemma attempt_insert_set: "set (attempt_insert x Q) \<subseteq> insert x (set Q)"
proof (induction Q)
  case (Cons y ys)
  then show ?case by (cases x; cases y) (auto simp: Let_def)
qed simp

lemma refs_okD:
  assumes "refs_ok g"
  shows "r \<in> set (run_queue (g_ev g)) \<Longrightarrow> runnable_ok g r"
    "fst ` set (g_registration g) \<subseteq> dom (g_transports g)"
    "(fst \<circ> snd) ` set (g_reconnect_queue g) \<subseteq> dom (g_transports g)"
    "g_transports g (g_next_transport g) = None"
  using assms by (simp_all add: refs_ok_def)

lemma registration_quiet:
  assumes inv: "server_inv g" and t: "g_transports g t \<noteq> None"
  shows "quiet g (register_transport t g)" "quiet g (remove_transport t g)"
  unfolding register_transport_def remove_transport_def
  using t refs_okD(2,3) [OF server_invD(6) [OF inv]]
  by (intro queues_quiet [OF inv]; simp add: same_core_def domIff)+

lemma reconnect_queue_quiet:
  assumes inv: "server_inv g" and Q: "(fst \<circ> snd) ` set Q \<subseteq> dom (g_transports g)"
  shows "quiet g (g\<lparr>g_reconnect_queue := Q\<rparr>)"
  using Q refs_okD(2) [OF server_invD(6) [OF inv]] by (intro queues_quiet [OF inv]) (simp_all add: same_core_def)

lemma attempt_insert_live:
  assumes "server_inv g" "g_transports g t \<noteq> None" "(fst \<circ> snd) ` set Q \<subseteq> dom (g_transports g)"
  shows "(fst \<circ> snd) ` set (attempt_insert (n, t, k) Q) \<subseteq> dom (g_transports g)"
  using assms attempt_insert_set [of "(n, t, k)" Q] by fastforce

lemma TrackTransport_quiet:
  assumes inv: "server_inv g" and t: "g_transports g t \<noteq> None"
  shows "quiet g (TrackTransport t g)"
proof (cases "g_reconnect_running g")
  case True
  have "(fst \<circ> snd) ` set (attempt_insert (g_now g + 250, t, kMaxAttempts) (g_reconnect_queue g)) \<subseteq> dom (g_transports g)"
    by (rule attempt_insert_live [OF inv t refs_okD(3) [OF server_invD(6) [OF inv]]])
  then show ?thesis using True reconnect_queue_quiet [OF inv] by (simp add: TrackTransport_def)
qed (simp add: TrackTransport_def quiet_refl [OF inv])

lemma transport_unref_quiet:
  assumes inv: "server_inv g" and x: "g_transports g t = Some x"
  shows "safe (transport_unref t g) (quiet g)"
proof -
  obtain c where c: "at_connection x = Some c" by (rule connection_of [OF inv x])
  define g1 where "g1 = g\<lparr>g_transports := (g_transports g)(t \<mapsto> x\<lparr>at_ref_count := at_ref_count x - 1\<rparr>)\<rparr>"
  have q: "quiet g g1" unfolding g1_def by (rule tport_update_quiet [OF inv x]) (simp_all add: c)
  have "safe (conn_Stop t g1) (quiet g1)" by (rule conn_Stop_quiet [OF quiet_inv [OF q]]) (simp add: g1_def)
  then have "safe (rbind (conn_Stop t g1) (\<lambda>g2. if at_type x = kTransportLocal \<and> \<not> at_kicked x
      then Inr (TrackTransport t g2) else Inr (remove_transport t g2))) (quiet g)"
  proof (rule safe_bind)
    fix g2 assume q2: "quiet g1 g2"
    have live: "g_transports g2 t \<noteq> None" using quiet_live [OF q2, of t] by (simp add: g1_def)
    note i = quiet_inv [OF q2]
    have "quiet g (TrackTransport t g2)" "quiet g (remove_transport t g2)"
      using quiet_trans [OF quiet_trans [OF q q2]] TrackTransport_quiet [OF i live] registration_quiet(2) [OF i live]
      by blast+
    then show "safe (if at_type x = kTransportLocal \<and> \<not> at_kicked x
      then Inr (TrackTransport t g2) else Inr (remove_transport t g2)) (quiet g)" by simp
  qed
  then show ?thesis
    using x q by (auto simp: transport_unref_def g1_def intro!: safe_check)
qed

end
