(* ===== verification/TransportInv.thy ===== *)
theory TransportInv
  imports ServerInv
begin

text \<open>
  The transports keep the invariant of the server: their creation over a new descriptor, the
  replacement of the connection of one that is reconnected, and the deletion of one that nothing
  refers to any more.
\<close>

section \<open>Descriptors without an owner\<close>

lemma grown_quiet:
  assumes inv: "server_inv g" and w: "set (os_open (fd_os (g_ev g))) \<subseteq> set (os_open w)"
  shows "quiet g (g\<lparr>g_ev := (g_ev g)\<lparr>fd_os := w\<rparr>\<rparr>)" (is "quiet g ?g")
proof (rule server_inv_same [OF inv])
  note I = server_invD [OF inv]
  show "same_server g ?g"
    using inv_exD(1,7) [OF I(2)] registered_open [OF I(2)] w
    by (auto simp: same_server_def same_layers_def tports_ok_def)
  show "owners_ok ?g" using w by (intro owners_ok_free [OF I(5)]) (auto simp: holds_def free_fds_def)
  show "refs_ok ?g" by (rule refs_ok_upd [OF I(6)]) simp_all
qed

lemma fresh_loose:
  assumes inv: "server_inv g" and fd: "0 \<le> fd" "fd \<notin> set (os_open (fd_os (g_ev g)))" "fd \<in> set (os_open w)"
  shows "fd \<in> loose (g\<lparr>g_ev := (g_ev g)\<lparr>fd_os := w\<rparr>\<rparr>)"
proof -
  note I = server_invD [OF inv]
  have sub: "free_fds (g_ev g) \<subseteq> set (os_open (fd_os (g_ev g)))" by (auto simp: free_fds_def)
  have "holds g t \<noteq> Some fd" for t using owners_okD(1) [OF I(5)] fd(2) sub by blast
  moreover have "fd \<notin> snd ` set (g_services g)" using owners_okD(4) [OF I(5)] fd(2) sub by blast
  moreover have "fd \<notin> table_fds (fde_view (g_ev g))" using registered_open [OF I(2)] fd(2) by blast
  ultimately show ?thesis using fd(1,3) by (simp add: loose_def free_fds_def holds_def)
qed

text \<open>A call that opens a stream: it fails, or there is a new descriptor without an owner.\<close>

lemma network_quiet:
  assumes inv: "server_inv g" and net: "network_ok (env_network env)"
    and r: "os_do (env_network env req) g = (r, g')"
  shows "quiet g g'" "r = Inr fd \<Longrightarrow> fd \<in> loose g'"
proof -
  obtain w where w: "env_network env req (fd_os (g_ev g)) = (r, w)" and g': "g' = g\<lparr>g_ev := (g_ev g)\<lparr>fd_os := w\<rparr>\<rparr>"
    using r by (auto simp: os_do_def split: prod.splits)
  have n: "case r of Inl e \<Rightarrow> os_open w = os_open (fd_os (g_ev g))
      | Inr fd \<Rightarrow> 0 \<le> fd \<and> fd \<notin> set (os_open (fd_os (g_ev g))) \<and> os_open w = fd # os_open (fd_os (g_ev g))"
  proof -
    let ?o = "fd_os (g_ev g)"
    have c: "case (r, w) of (Inl e, w') \<Rightarrow> w' = ?o\<lparr>os_new := os_new w'\<rparr>
        | (Inr fd, w') \<Rightarrow> 0 \<le> fd \<and> fd \<notin> set (os_open ?o) \<and> w' = ?o\<lparr>os_open := fd # os_open ?o, os_new := os_new w'\<rparr>"
      using net [unfolded network_ok_def, THEN spec, THEN spec, of ?o req] unfolding w .
    show ?thesis
    proof (cases r)
      case (Inl e)
      from arg_cong [OF c [unfolded Inl prod.case sum.case], of os_open] show ?thesis using Inl by simp
    next
      case (Inr fd)
      note e = c [unfolded Inr prod.case sum.case]
      from arg_cong [OF e [THEN conjunct2, THEN conjunct2], of os_open] e [THEN conjunct1]
        e [THEN conjunct2, THEN conjunct1] show ?thesis using Inr by simp
    qed
  qed
  show "quiet g g'" unfolding g' using n by (intro grown_quiet [OF inv]) (auto split: sum.splits)
  show "fd \<in> loose g'" if "r = Inr fd" unfolding g' using n that by (intro fresh_loose [OF inv]) simp_all
qed

section \<open>New transports\<close>

text \<open>The descriptor that a connection brings along is not owned by anything else.\<close>

definition brings :: "Connection \<Rightarrow> adb \<Rightarrow> bool" where
  "brings c g \<longleftrightarrow> live_fd (Some c) = None \<or> (\<exists>fd \<in> loose g. live_fd (Some c) = Some fd)"

lemma owners_ok_take:
  assumes O: "owners_ok g" and c: "brings c g" and h: "\<And>u. holds g' u = (if u = t then live_fd (Some c) else holds g u)"
    and ev: "g_services g' = g_services g" "free_fds (g_ev g') = free_fds (g_ev g)"
  shows "owners_ok g'"
proof (rule owners_okI)
  have h': "holds g u = Some fd \<and> u \<noteq> t \<or> u = t \<and> fd \<in> loose g" if "holds g' u = Some fd" for u fd
    using that h c by (auto simp: brings_def split: if_splits)
  show "fd \<in> free_fds (g_ev g')" "fd \<notin> snd ` set (g_services g')" if "holds g' u = Some fd" for u fd
    using h' [OF that] owners_okD(1,2) [OF O] looseD(2,4) ev by metis+
  show "u = v" if "holds g' u = Some fd" "holds g' v = Some fd" for u v fd
    using h' [OF that(1)] h' [OF that(2)] owners_okD(3) [OF O] looseD(3) by metis
  show "fd \<in> free_fds (g_ev g')" "fd \<noteq> -1" if "fd \<in> snd ` set (g_services g')" for fd
    using that owners_okD(4,5) [OF O] unfolding ev by blast+
  show "distinct (map snd (g_services g'))" using owners_okD(6) [OF O] ev by simp
qed

lemma new_transport_quiet:
  assumes inv: "server_inv g" and x: "at_connection x = Some c" "at_disconnects x = []" "brings c g"
    and t: "t = g_next_transport g"
  shows "quiet g (g\<lparr>g_transports := (g_transports g)(t \<mapsto> x), g_next_transport := Suc t, g_next_transport_id := i\<rparr>)"
    (is "quiet g ?g")
proof -
  note I = server_invD [OF inv]
  have new: "g_transports g t = None" using refs_okD(4) [OF I(6)] t by simp
  have dom: "dom (g_transports g) \<subseteq> dom (g_transports ?g)" by auto
  have "srv_inv ?g"
  proof (rule srv_inv_change [OF I(1)])
    show "same_layers g ?g"
      using inv_exD(1) [OF I(2)] registered_open [OF I(2)] by (simp add: same_layers_def)
    show "callbacks (g_transports ?g u) = callbacks (g_transports g u)" for u
      using new x(2) by (simp add: callbacks_def)
    show "at_connection y \<noteq> None" if "g_transports ?g u = Some y" for u y
      using that x(1) inv_exD(7) [OF I(2)] by (auto simp: tports_ok_def split: if_splits)
    show "g_transports ?g u \<noteq> None" if "g_sockets g a = Some s" "as_transport s = Some u" for a s u
      using that inv_exD(7) [OF I(2)] by (simp add: tports_ok_def)
    show "lists_live ?g" using I(4) dom by (auto simp: lists_live_def)
  qed
  moreover have "owners_ok ?g"
    by (rule owners_ok_take [OF I(5) x(3), of _ t]) (simp_all add: holds_def x(1))
  moreover have "refs_ok ?g"
    using I(6) t runnable_ok_dom [OF dom] by (auto simp: refs_ok_def)
  ultimately show ?thesis using dom by (simp add: quiet_def acted_def server_inv_def)
qed

lemma tport_new_eq:
  "tport_new f st g = (g_next_transport g,
     g\<lparr>g_transports := (g_transports g)(g_next_transport g \<mapsto> atransport_new f st (g_next_transport_id g)),
       g_next_transport := Suc (g_next_transport g), g_next_transport_id := g_next_transport_id g + 1\<rparr>)"
  by (simp add: tport_new_def NextTransportId_def Let_def)

lemma atransport_new_simps [simp]:
  "at_connection (atransport_new f st i) = None" "at_disconnects (atransport_new f st i) = []"
  by (simp_all add: atransport_new_def)

lemma live_fd_new: "live_fd (Some (Connection_new k)) = conn_fd k"
  by (simp add: live_fd_def Connection_new_def)

lemma brings_new: "fd = -1 \<or> fd \<in> loose g \<Longrightarrow> brings (Connection_new (ConnFd fd)) g"
  "fd = -1 \<or> fd \<in> loose g \<Longrightarrow> brings (Connection_new (ConnEmulator fd p)) g"
  "brings (Connection_new (ConnUsb h)) g"
  by (auto simp: brings_def live_fd_new)

lemma SetConnection_fresh:
  assumes "g_transports g t = Some x" "at_connection x = None"
  shows "SetConnection t k g = Inr (g\<lparr>g_transports := (g_transports g)(t \<mapsto> x\<lparr>at_connection := Some (Connection_new k)\<rparr>)\<rparr>)"
  using assms by (simp add: SetConnection_def conn_delete_def)

section \<open>The end of a connection\<close>

lemma same_connection: "at_connection x = Some c \<Longrightarrow> x\<lparr>at_connection := Some c\<rparr> = x"
  by (cases x) simp

lemma same_error_flag: "c\<lparr>conn_error_flag := conn_error_flag c\<rparr> = c"
  by simp

lemma loose_report:
  assumes x: "g_transports g t = Some x" and c: "at_connection x = Some c"
  shows "safe (conn_report t g) (\<lambda>g'. loose g \<subseteq> loose g'
           \<and> (\<exists>f. g_transports g' t = Some (x\<lparr>at_connection := Some (c\<lparr>conn_error_flag := f\<rparr>)\<rparr>)))"
proof (cases "conn_error_flag c")
  case True
  have "x\<lparr>at_connection := Some (c\<lparr>conn_error_flag := conn_error_flag c\<rparr>)\<rparr> = x"
    using c by (simp add: same_connection)
  then have "\<exists>f. x\<lparr>at_connection := Some (c\<lparr>conn_error_flag := f\<rparr>)\<rparr> = x" by blast
  then show ?thesis using x c True by (simp add: conn_report_def) metis
next
  case False
  let ?x = "x\<lparr>at_connection := Some (c\<lparr>conn_error_flag := True\<rparr>)\<rparr>"
  define g1 where "g1 = g\<lparr>g_transports := (g_transports g)(t \<mapsto> ?x)\<rparr>"
  have l: "loose g \<subseteq> loose (g1\<lparr>g_ev := (g_ev g1)\<lparr>run_queue := R, fd_os := w\<rparr>\<rparr>)"
    if "os_open w = os_open (fd_os (g_ev g1))" for R w
  proof -
    have "fde_view ((g_ev g1)\<lparr>run_queue := R, fd_os := w\<rparr>) = fde_view (g_ev g)"
      by (simp add: fde_view_def fun_eq_iff g1_def)
    moreover have "holds (g1\<lparr>g_ev := E\<rparr>) u = holds g u" for E u
      using x c by (simp add: holds_def live_fd_def g1_def)
    ultimately show ?thesis using that by (simp add: loose_def free_fds_def g1_def)
  qed
  have "safe (ev_do (fdevent_run_on_main_thread (RunTerminated t)) g1) (\<lambda>g'. loose g \<subseteq> loose g'
           \<and> (\<exists>f. g_transports g' t = Some (x\<lparr>at_connection := Some (c\<lparr>conn_error_flag := f\<rparr>)\<rparr>)))"
    by (rule safe_mono [OF run_on_main_safe]) (use l in \<open>auto simp: g1_def\<close>)
  then show ?thesis using False x c by (simp add: conn_report_def g1_def)
qed

text \<open>What \<open>Stop\<close> leaves of the connection \<open>c\<close>.\<close>

definition stopped :: "atransport \<Rightarrow> Connection \<Rightarrow> adb \<Rightarrow> nat \<Rightarrow> adb \<Rightarrow> bool" where
  "stopped x c g t g' \<longleftrightarrow>
     (\<exists>d. g_transports g' t = Some (x\<lparr>at_connection := Some d\<rparr>)
        \<and> (if conn_started c then conn_started d \<and> conn_stopped d else g' = g \<and> d = c))"

lemma conn_Stop_stopped:
  assumes inv: "server_inv g" and x: "g_transports g t = Some x" and c: "at_connection x = Some c"
  shows "safe (conn_Stop t g) (\<lambda>g'. loose g \<subseteq> loose g' \<and> stopped x c g t g')"
proof (cases "conn_started c \<and> \<not> conn_stopped c")
  case False
  have "stopped x c g t g" unfolding stopped_def
    using x c False by (intro exI [of _ c]) (simp add: same_connection)
  then show ?thesis using False x c by (auto simp: conn_Stop_def)
next
  case True
  define d where "d = c\<lparr>conn_stopped := True, conn_reader := False, conn_writer := False\<rparr>"
  define x' where "x' = x\<lparr>at_connection := Some d\<rparr>"
  define g1 where g1: "g1 = conn_close_underlying (conn_kind c) (g\<lparr>g_transports := (g_transports g)(t \<mapsto> x')\<rparr>)"
  have x': "at_disconnects x' = at_disconnects x" "at_connection x' = Some d" by (simp_all add: x'_def)
  have q: "loose g \<subseteq> loose g1"
    using True by (intro stop_close_quiet(2) [OF inv x c _ x' _ _ g1]) (simp_all add: d_def)
  have t: "g_transports g1 t = Some x'"
    using underlying_shape [of "conn_kind c" "g\<lparr>g_transports := (g_transports g)(t \<mapsto> x')\<rparr>"] by (auto simp: g1)
  have "safe (conn_report t g1) (\<lambda>g'. loose g \<subseteq> loose g' \<and> stopped x c g t g')"
  proof (rule safe_mono [OF loose_report [OF t x'(2)]])
    fix g' assume "loose g1 \<subseteq> loose g'
      \<and> (\<exists>f. g_transports g' t = Some (x'\<lparr>at_connection := Some (d\<lparr>conn_error_flag := f\<rparr>)\<rparr>))"
    then obtain f where f: "loose g1 \<subseteq> loose g'"
      "g_transports g' t = Some (x\<lparr>at_connection := Some (d\<lparr>conn_error_flag := f\<rparr>)\<rparr>)" by (auto simp: x'_def)
    then have "stopped x c g t g'" unfolding stopped_def
      using True by (intro exI [of _ "d\<lparr>conn_error_flag := f\<rparr>"]) (simp add: d_def)
    then show "loose g \<subseteq> loose g' \<and> stopped x c g t g'" using f(1) q by blast
  qed
  then show ?thesis using True x c by (simp add: conn_Stop_def g1 x'_def d_def)
qed

lemma delete_shape:
  "\<exists>w P. underlying_delete k closed g = g\<lparr>g_retry_ports := P, g_ev := (g_ev g)\<lparr>fd_os := w\<rparr>\<rparr>
     \<and> (\<forall>fd. fd \<in> set (os_open w) \<longleftrightarrow> fd \<in> set (os_open (fd_os (g_ev g))) \<and> (closed \<or> Some fd \<noteq> conn_fd k))"
proof -
  let ?g = "underlying_delete k closed g"
  have "?g = g\<lparr>g_retry_ports := g_retry_ports ?g, g_ev := (g_ev g)\<lparr>fd_os := fd_os (g_ev ?g)\<rparr>\<rparr>"
    by (cases k) (simp_all add: underlying_delete_def fd_reset_def snd_os_do Let_def)
  moreover have "fd \<in> set (os_open (fd_os (g_ev ?g))) \<longleftrightarrow>
      fd \<in> set (os_open (fd_os (g_ev g))) \<and> (closed \<or> Some fd \<noteq> conn_fd k)" for fd
    by (cases k) (auto simp: underlying_delete_def fd_reset_def snd_os_do adb_close_def Let_def)
  ultimately show ?thesis by blast
qed

text \<open>
  The connection of a transport is deleted: the state is one with the invariant, but for the null
  pointer in place of the connection.
\<close>

definition disconnected :: "nat \<Rightarrow> atransport \<Rightarrow> adb \<Rightarrow> adb \<Rightarrow> bool" where
  "disconnected t x g g' \<longleftrightarrow>
     (\<exists>gm d. quiet g gm \<and> loose g \<subseteq> loose gm \<and> g_transports gm t = Some (x\<lparr>at_connection := Some d\<rparr>)
        \<and> live_fd (Some d) = None
        \<and> g' = gm\<lparr>g_transports := (g_transports gm)(t \<mapsto> x\<lparr>at_connection := None\<rparr>)\<rparr>)"

lemma underlying_delete_disconnected:
  assumes inv: "server_inv g1" and q: "quiet g g1" "loose g \<subseteq> loose g1" and st: "stopped x c g t g1"
    and x: "g_transports g t = Some x" and c: "at_connection x = Some c"
    and g': "g' = underlying_delete (conn_kind c) (conn_started c)
               (g1\<lparr>g_transports := (g_transports g1)(t \<mapsto> x\<lparr>at_connection := None\<rparr>)\<rparr>)"
  shows "disconnected t x g g'"
proof -
  obtain d where d: "g_transports g1 t = Some (x\<lparr>at_connection := Some d\<rparr>)"
    "if conn_started c then conn_started d \<and> conn_stopped d else g1 = g \<and> d = c" using st unfolding stopped_def by blast
  define g2 where "g2 = g1\<lparr>g_transports := (g_transports g1)(t \<mapsto> x\<lparr>at_connection := None\<rparr>)\<rparr>"
  obtain w P where w: "g' = g2\<lparr>g_retry_ports := P, g_ev := (g_ev g2)\<lparr>fd_os := w\<rparr>\<rparr>"
    and op: "\<forall>fd. fd \<in> set (os_open w) \<longleftrightarrow>
      fd \<in> set (os_open (fd_os (g_ev g2))) \<and> (conn_started c \<or> Some fd \<noteq> conn_fd (conn_kind c))"
    using delete_shape [of "conn_kind c" "conn_started c" g2] unfolding g' g2_def [symmetric] by blast
  define d' where "d' = d\<lparr>conn_started := True, conn_stopped := True\<rparr>"
  define gm where gm: "gm = g1\<lparr>g_transports := (g_transports g1)(t \<mapsto> x\<lparr>at_connection := Some d'\<rparr>),
    g_local_transports := g_local_transports g1, g_retry_ports := P, g_ev := (g_ev g1)\<lparr>fd_os := w\<rparr>\<rparr>"
  define C where "C = {fd. \<not> conn_started c \<and> conn_fd (conn_kind c) = Some fd}"
  have live: "live_fd (Some d') = None" by (simp add: live_fd_def d'_def)
  have x': "at_disconnects (x\<lparr>at_connection := Some d'\<rparr>) = at_disconnects (x\<lparr>at_connection := Some d\<rparr>)"
    "at_connection (x\<lparr>at_connection := Some d'\<rparr>) \<noteq> None" "live_fd (at_connection (x\<lparr>at_connection := Some d'\<rparr>)) = None"
    using live by simp_all
  have C: "holds g1 t = Some fd" if "fd \<in> C" for fd
  proof -
    have "\<not> conn_started c" "conn_fd (conn_kind c) = Some fd" using that by (simp_all add: C_def)
    moreover from this have "d = c" using d(2) by simp
    ultimately show ?thesis using d(1) by (simp add: holds_def live_fd_def)
  qed
  have keep: "fd \<in> set (os_open w)" if "fd \<in> set (os_open (fd_os (g_ev g1)))" "fd \<noteq> -1" "fd \<notin> C" for fd
  proof -
    have "g_ev g2 = g_ev g1" by (simp add: g2_def)
    moreover have "conn_started c \<or> Some fd \<noteq> conn_fd (conn_kind c)" using that(3) unfolding C_def by (metis mem_Collect_eq)
    ultimately show ?thesis using op that(1) by metis
  qed
  have "quiet g gm" by (rule quiet_trans [OF q(1) release_quiet(1) [OF inv d(1) x' C keep gm]])
  moreover have "loose g \<subseteq> loose gm" using release_quiet(2) [OF inv d(1) x' C keep gm] q(2) by blast
  moreover have "g' = gm\<lparr>g_transports := (g_transports gm)(t \<mapsto> x\<lparr>at_connection := None\<rparr>)\<rparr>"
    by (simp add: w gm g2_def)
  moreover have "g_transports gm t = Some (x\<lparr>at_connection := Some d'\<rparr>)" by (simp add: gm)
  ultimately show ?thesis unfolding disconnected_def using live by blast
qed

lemma conn_delete_disconnected:
  assumes inv: "server_inv g" and x: "g_transports g t = Some x"
  shows "safe (conn_delete t g) (disconnected t x g)"
proof -
  obtain c where c: "at_connection x = Some c" by (rule connection_of [OF inv x])
  have "safe (conn_Stop t g) (\<lambda>g1. quiet g g1 \<and> loose g \<subseteq> loose g1 \<and> stopped x c g t g1)"
    using conn_Stop_quiet [OF inv x] conn_Stop_stopped [OF inv x c] by (auto simp: safe_def split: sum.splits)
  then have "safe (rbind (conn_Stop t g) (\<lambda>g1. rbind (tport_upd t (\<lambda>x. x\<lparr>at_connection := None\<rparr>) g1) (\<lambda>g2.
         Inr (underlying_delete (conn_kind c) (conn_started c) g2)))) (disconnected t x g)"
  proof (rule safe_bind)
    fix g1 assume a: "quiet g g1 \<and> loose g \<subseteq> loose g1 \<and> stopped x c g t g1"
    then obtain d where d: "g_transports g1 t = Some (x\<lparr>at_connection := Some d\<rparr>)" by (auto simp: stopped_def)
    have q: "quiet g g1" "loose g \<subseteq> loose g1" "stopped x c g t g1" using a by simp_all
    note u = underlying_delete_disconnected [OF quiet_inv [OF q(1)] q x c refl]
    show "safe (rbind (tport_upd t (\<lambda>x. x\<lparr>at_connection := None\<rparr>) g1) (\<lambda>g2.
         Inr (underlying_delete (conn_kind c) (conn_started c) g2))) (disconnected t x g)"
      using d u by simp
  qed
  then show ?thesis using x c by (simp add: conn_delete_def)
qed

text \<open>A connection takes the place of one that is gone.\<close>

lemma take_quiet:
  assumes inv: "server_inv g" and x: "g_transports g t = Some x" "live_fd (at_connection x) = None"
    and x': "at_disconnects x' = at_disconnects x" "at_connection x' = Some c" "brings c g"
  shows "quiet g (g\<lparr>g_transports := (g_transports g)(t \<mapsto> x')\<rparr>)" (is "quiet g ?g")
proof (rule server_inv_same [OF inv])
  note I = server_invD [OF inv]
  have "dom (g_transports ?g) = dom (g_transports g)" using x(1) by auto
  then show "refs_ok ?g" by (intro refs_ok_upd [OF I(6)]) simp_all
  show "owners_ok ?g" by (rule owners_ok_take [OF I(5) x'(3), of _ t]) (simp_all add: holds_def x'(2))
  show "same_server g ?g"
    using x(1) x'(1,2) inv_exD(1,7) [OF I(2)] registered_open [OF I(2)]
    by (simp add: same_server_def same_layers_def tports_ok_def)
qed

lemma brings_mono: "brings c g \<Longrightarrow> loose g \<subseteq> loose g' \<Longrightarrow> brings c g'"
  by (auto simp: brings_def)

lemma SetConnection_quiet:
  assumes inv: "server_inv g" and x: "g_transports g t = Some x" and k: "brings (Connection_new k) g"
  shows "safe (SetConnection t k g) (quiet g)"
  unfolding SetConnection_def
proof (rule safe_bind [OF conn_delete_disconnected [OF inv x]])
  fix g1 assume "disconnected t x g g1"
  then obtain gm d where gm: "quiet g gm" "loose g \<subseteq> loose gm" "g_transports gm t = Some (x\<lparr>at_connection := Some d\<rparr>)"
    "live_fd (Some d) = None" "g1 = gm\<lparr>g_transports := (g_transports gm)(t \<mapsto> x\<lparr>at_connection := None\<rparr>)\<rparr>"
    by (auto simp: disconnected_def)
  have "quiet gm (gm\<lparr>g_transports := (g_transports gm)(t \<mapsto> x\<lparr>at_connection := Some (Connection_new k)\<rparr>)\<rparr>)"
    using gm(4) brings_mono [OF k gm(2)] by (intro take_quiet [OF quiet_inv [OF gm(1)] gm(3)]) simp_all
  then show "safe (tport_upd t (\<lambda>x. x\<lparr>at_connection := Some (Connection_new k)\<rparr>) g1) (quiet g)"
    by (simp add: gm(5) quiet_trans [OF gm(1)])
qed

section \<open>Deletion\<close>

text \<open>Nothing refers to the transport, and its connection has been stopped or was never started.\<close>

definition unreferenced :: "nat \<Rightarrow> adb \<Rightarrow> bool" where
  "unreferenced t g \<longleftrightarrow>
     (\<forall>a s. g_sockets g a = Some s \<longrightarrow> as_transport s \<noteq> Some t)
     \<and> t \<notin> set (g_transport_list g) \<union> set (g_pending_list g)
     \<and> t \<notin> fst ` set (g_registration g) \<union> (fst \<circ> snd) ` set (g_reconnect_queue g)
     \<and> (\<forall>p. RunPacket p t \<notin> set (run_queue (g_ev g))) \<and> RunTerminated t \<notin> set (run_queue (g_ev g))
     \<and> callbacks (g_transports g t) = []"

definition inactive :: "Connection \<Rightarrow> bool" where
  "inactive c \<longleftrightarrow> (conn_started c \<longrightarrow> conn_stopped c)"

definition deleted :: "nat \<Rightarrow> adb \<Rightarrow> adb \<Rightarrow> bool" where
  "deleted t g g' \<longleftrightarrow>
     server_inv g' \<and> g_sockets g' = g_sockets g \<and> dom (g_transports g') = dom (g_transports g) - {t}"

lemma delete_inv:
  assumes inv: "server_inv g" and un: "unreferenced t g" and h: "holds g t = None"
  shows "deleted t g (g\<lparr>g_transports := (g_transports g)(t := None)\<rparr>)" (is "deleted t g ?g")
proof -
  note I = server_invD [OF inv]
  note U = un [unfolded unreferenced_def]
  have "srv_inv ?g"
  proof (rule srv_inv_change [OF I(1)])
    show "same_layers g ?g"
      using inv_exD(1) [OF I(2)] registered_open [OF I(2)] by (simp add: same_layers_def)
    show "callbacks (g_transports ?g u) = callbacks (g_transports g u)" for u
      using U by (simp add: callbacks_def)
    show "at_connection y \<noteq> None" if "g_transports ?g u = Some y" for u y
      using that inv_exD(7) [OF I(2)] by (auto simp: tports_ok_def split: if_splits)
    show "g_transports ?g u \<noteq> None" if "g_sockets g a = Some s" "as_transport s = Some u" for a s u
    proof -
      have "u \<noteq> t" using U that by blast
      then show ?thesis using that inv_exD(7) [OF I(2)] by (simp add: tports_ok_def)
    qed
    show "lists_live ?g" using I(4) U by (simp add: lists_live_def) blast
  qed
  moreover have "owners_ok ?g"
    by (rule owners_ok_free [OF I(5)]) (use h in \<open>simp_all add: holds_def\<close>)
  moreover have "refs_ok ?g"
  proof -
    have "runnable_ok ?g r" if "r \<in> set (run_queue (g_ev g))" for r
      using refs_okD(1) [OF I(6) that] that U by (cases r) auto
    moreover have "g_transports ?g u = None" if "g_next_transport g \<le> u" for u
      using I(6) that by (simp add: refs_ok_def)
    moreover have "fst ` set (g_registration g) \<subseteq> dom (g_transports g) - {t}"
      "(fst \<circ> snd) ` set (g_reconnect_queue g) \<subseteq> dom (g_transports g) - {t}"
      using refs_okD(2,3) [OF I(6)] U by blast+
    ultimately show ?thesis by (simp add: refs_ok_def)
  qed
  ultimately show ?thesis by (auto simp: deleted_def server_inv_def)
qed

lemma conn_delete_inactive:
  assumes x: "g_transports g t = Some x" and c: "at_connection x = Some c" "inactive c"
  shows "conn_delete t g = Inr (underlying_delete (conn_kind c) (conn_started c)
           (g\<lparr>g_transports := (g_transports g)(t \<mapsto> x\<lparr>at_connection := None\<rparr>)\<rparr>))"
proof -
  have "conn_Stop t g = Inr g" using x c by (auto simp: conn_Stop_def inactive_def)
  then show ?thesis using x c(1) by (simp add: conn_delete_def)
qed

lemma atransport_delete_deleted:
  assumes inv: "server_inv g" and un: "unreferenced t g" and x: "g_transports g t = Some x"
    and c: "at_connection x = Some c" "inactive c"
  shows "\<exists>g'. atransport_delete t g = Inr g' \<and> deleted t g g'"
proof -
  define y where "y = SetConnectionEstablished False x"
  have y: "at_connection y = Some c" "at_disconnects y = at_disconnects x"
    using c by (simp_all add: y_def SetConnectionEstablished_def)
  define g1 where "g1 = g\<lparr>g_transports := (g_transports g)(t \<mapsto> y)\<rparr>"
  have q1: "quiet g g1"
    unfolding g1_def by (rule tport_update_quiet [OF inv x]) (simp_all add: y c)
  have t1: "g_transports g1 t = Some y" by (simp add: g1_def)
  define g2 where "g2 = g1\<lparr>g_transports := (g_transports g1)(t \<mapsto> y\<lparr>at_connection := None\<rparr>)\<rparr>"
  obtain w P where w: "underlying_delete (conn_kind c) (conn_started c) g2 = g2\<lparr>g_retry_ports := P, g_ev := (g_ev g2)\<lparr>fd_os := w\<rparr>\<rparr>"
    and op: "\<forall>fd. fd \<in> set (os_open w) \<longleftrightarrow>
      fd \<in> set (os_open (fd_os (g_ev g2))) \<and> (conn_started c \<or> Some fd \<noteq> conn_fd (conn_kind c))"
    using delete_shape [of "conn_kind c" "conn_started c" g2] by blast
  define d where "d = c\<lparr>conn_started := True, conn_stopped := True\<rparr>"
  define gm where gm: "gm = g1\<lparr>g_transports := (g_transports g1)(t \<mapsto> y\<lparr>at_connection := Some d\<rparr>),
    g_local_transports := g_local_transports g1, g_retry_ports := P, g_ev := (g_ev g1)\<lparr>fd_os := w\<rparr>\<rparr>"
  define C where "C = {fd. \<not> conn_started c \<and> conn_fd (conn_kind c) = Some fd}"
  have x': "at_disconnects (y\<lparr>at_connection := Some d\<rparr>) = at_disconnects y"
    "at_connection (y\<lparr>at_connection := Some d\<rparr>) \<noteq> None" "live_fd (at_connection (y\<lparr>at_connection := Some d\<rparr>)) = None"
    by (simp_all add: live_fd_def d_def)
  have C: "holds g1 t = Some fd" if "fd \<in> C" for fd
    using that y(1) t1 by (simp add: C_def holds_def live_fd_def)
  have keep: "fd \<in> set (os_open w)" if "fd \<in> set (os_open (fd_os (g_ev g1)))" "fd \<noteq> -1" "fd \<notin> C" for fd
  proof -
    have "g_ev g2 = g_ev g1" by (simp add: g2_def)
    moreover have "conn_started c \<or> Some fd \<noteq> conn_fd (conn_kind c)" using that(3) unfolding C_def by (metis mem_Collect_eq)
    ultimately show ?thesis using op that(1) by metis
  qed
  have q: "quiet g1 gm" by (rule release_quiet(1) [OF quiet_inv [OF q1] t1 x' C keep gm])
  have un': "unreferenced t gm"
    using un x y(2) by (simp add: unreferenced_def gm g1_def callbacks_def)
  have h: "holds gm t = None" by (simp add: holds_def gm live_fd_def d_def)
  define g' where "g' = gm\<lparr>g_transports := (g_transports gm)(t := None)\<rparr>"
  have "deleted t gm g'" unfolding g'_def by (rule delete_inv [OF quiet_inv [OF q] un' h])
  moreover have "dom (g_transports gm) = dom (g_transports g)" "g_sockets gm = g_sockets g"
    using x by (auto simp: gm g1_def)
  ultimately have "deleted t g g'" by (simp add: deleted_def)
  moreover have "atransport_delete t g = Inr g'"
  proof -
    have "conn_delete t g1 = Inr (g2\<lparr>g_retry_ports := P, g_ev := (g_ev g2)\<lparr>fd_os := w\<rparr>\<rparr>)"
      using conn_delete_inactive [OF t1 y(1) c(2)] w by (simp add: g2_def)
    then show ?thesis using x by (simp add: atransport_delete_def y_def [symmetric] g1_def [symmetric] g'_def gm g2_def)
  qed
  ultimately show ?thesis by blast
qed

section \<open>Registration\<close>

lemma lists_quiet:
  assumes inv: "server_inv g"
    and live: "set L \<subseteq> dom (g_transports g)" "set P \<subseteq> dom (g_transports g)" "fst ` set R \<subseteq> dom (g_transports g)"
    and g': "g' = g\<lparr>g_transport_list := L, g_pending_list := P, g_registration := R\<rparr>"
  shows "quiet g g'"
proof -
  note I = server_invD [OF inv]
  have "srv_inv g'"
  proof (rule srv_inv_change [OF I(1)])
    show "same_layers g g'"
      using inv_exD(1) [OF I(2)] registered_open [OF I(2)] by (simp add: same_layers_def g')
    show "at_connection y \<noteq> None" if "g_transports g' u = Some y" for u y
      using that inv_exD(7) [OF I(2)] by (simp add: tports_ok_def g')
    show "g_transports g' u \<noteq> None" if "g_sockets g a = Some s" "as_transport s = Some u" for a s u
      using that inv_exD(7) [OF I(2)] by (simp add: tports_ok_def g')
    show "lists_live g'" using live by (simp add: lists_live_def g')
  qed (simp add: g')
  moreover have "owners_ok g'" by (rule owners_ok_free [OF I(5)]) (simp_all add: holds_def g')
  moreover have "runnable_ok g' r = runnable_ok g r" for r by (cases r) (simp_all add: g')
  then have "refs_ok g'" using I(6) live(3) by (simp add: refs_ok_def g')
  ultimately show ?thesis by (simp add: quiet_def acted_def server_inv_def g')
qed

lemma local_transports_quiet: "server_inv g \<Longrightarrow> quiet g (g\<lparr>g_local_transports := L\<rparr>)"
  using refs_okD(2,3) [OF server_invD(6)] by (intro queues_quiet) (simp_all add: same_core_def)

lemma fresh_unreferenced:
  assumes inv: "server_inv g" and t: "g_transports g t = None"
  shows "unreferenced t g"
proof -
  note I = server_invD [OF inv]
  have "as_transport s \<noteq> Some t" if "g_sockets g a = Some s" for a s
    using inv_exD(7) [OF I(2)] that t unfolding tports_ok_def by metis
  moreover have "t \<notin> set (g_transport_list g) \<union> set (g_pending_list g)" using listed_live [OF inv] t by blast
  moreover have "t \<notin> fst ` set (g_registration g) \<union> (fst \<circ> snd) ` set (g_reconnect_queue g)"
    using refs_okD(2,3) [OF I(6)] t by blast
  moreover have "RunPacket p t \<notin> set (run_queue (g_ev g))" "RunTerminated t \<notin> set (run_queue (g_ev g))" for p
    using refs_okD(1) [OF I(6)] t by fastforce+
  ultimately show ?thesis using t by (simp add: unreferenced_def callbacks_def)
qed

text \<open>A transport has been made and given its connection, and nobody knows it yet.\<close>

definition born :: "nat \<Rightarrow> adb \<Rightarrow> adb \<Rightarrow> bool" where
  "born t g g' \<longleftrightarrow>
     quiet g g' \<and> unreferenced t g' \<and> dom (g_transports g') = insert t (dom (g_transports g))
     \<and> g_transports g t = None
     \<and> (\<exists>x c. g_transports g' t = Some x \<and> at_connection x = Some c \<and> inactive c)"

lemma connected_born:
  assumes inv: "server_inv g" and t: "t = g_next_transport g" and k: "brings (Connection_new k) g"
    and x: "at_connection x = Some (Connection_new k)" "at_disconnects x = []"
  shows "born t g (g\<lparr>g_transports := (g_transports g)(t \<mapsto> x), g_next_transport := Suc t, g_next_transport_id := i\<rparr>)"
    (is "born t g ?g")
proof -
  have n: "g_transports g t = None" using refs_okD(4) [OF server_invD(6) [OF inv]] t by simp
  have "unreferenced t ?g"
    using fresh_unreferenced [OF inv n] x(2) by (simp add: unreferenced_def callbacks_def)
  moreover have "quiet g ?g" by (rule new_transport_quiet [OF inv x(1,2) k t])
  moreover have "inactive (Connection_new k)" by (simp add: inactive_def Connection_new_def)
  ultimately show ?thesis using n x(1) by (simp add: born_def)
qed

lemma born_local_transports: "born t g g' \<Longrightarrow> born t g (g'\<lparr>g_local_transports := L\<rparr>)"
  using quiet_trans [OF _ local_transports_quiet [OF quiet_inv]] by (auto simp: born_def unreferenced_def)

lemma init_socket_transport_born:
  assumes inv: "server_inv g" and fd: "fd = -1 \<or> fd \<in> loose g" and n: "tport_new f st g = (t, g1)"
  shows "\<exists>r g2. init_socket_transport t fd port local g1 = Inr (r, g2) \<and> born t g g2"
proof -
  have t: "t = g_next_transport g" and g1: "g1 = g\<lparr>g_transports := (g_transports g)(t \<mapsto> atransport_new f st (g_next_transport_id g)),
       g_next_transport := Suc t, g_next_transport_id := g_next_transport_id g + 1\<rparr>"
    using n by (auto simp: tport_new_eq)
  define x where "x = (atransport_new f st (g_next_transport_id g))\<lparr>at_type := kTransportLocal\<rparr>"
  define g2 where "g2 = (\<lambda>k. g\<lparr>g_transports := (g_transports g)(t \<mapsto> x\<lparr>at_connection := Some (Connection_new k)\<rparr>),
       g_next_transport := Suc t, g_next_transport_id := g_next_transport_id g + 1\<rparr>)"
  have S: "SetConnection t k (g1\<lparr>g_transports := (g_transports g1)(t \<mapsto> x)\<rparr>) = Inr (g2 k)" for k
    by (subst SetConnection_fresh [of _ t x]) (simp_all add: x_def g1 g2_def)
  have b: "born t g (g2 k)" if "brings (Connection_new k) g" for k
    unfolding g2_def by (rule connected_born [OF inv t that]) (simp_all add: x_def)
  have "g_transports g1 t = Some (atransport_new f st (g_next_transport_id g))" by (simp add: g1)
  then have "init_socket_transport t fd port local g1 =
      (if local then rbind (Inr (g2 (ConnEmulator fd port))) (\<lambda>g2.
         if find_emulator_transport_by_adb_port port g2 \<noteq> None then Inr (-1, g2)
         else if length (g_local_transports g2) \<ge> ADB_LOCAL_TRANSPORT_MAX then Inr (-1, g2)
         else Inr (0, g2\<lparr>g_local_transports := (port, t) # g_local_transports g2\<rparr>))
       else rbind (Inr (g2 (ConnFd fd))) (\<lambda>g2. Inr (0, g2)))"
    using S by (simp add: init_socket_transport_def x_def)
  then show ?thesis
    using b [OF brings_new(1) [OF fd]] b [OF brings_new(2) [OF fd]] born_local_transports by (auto simp: Let_def)
qed

lemma serial_taken_live: "set ts \<subseteq> dom (g_transports g) \<Longrightarrow> \<exists>b. serial_taken serial g ts = Inr b"
  by (induction ts) auto

lemma born_deleted:
  assumes b: "born t g g1"
  shows "\<exists>g2. atransport_delete t g1 = Inr g2 \<and> quiet g g2"
proof -
  obtain x c where x: "g_transports g1 t = Some x" "at_connection x = Some c" "inactive c" and q: "quiet g g1"
    and un: "unreferenced t g1" using b by (auto simp: born_def)
  obtain g2 where "atransport_delete t g1 = Inr g2" "deleted t g1 g2"
    using atransport_delete_deleted [OF quiet_inv [OF q] un x] by blast
  then show ?thesis using b by (auto simp: born_def deleted_def quiet_def acted_def)
qed

lemma born_registered:
  assumes b: "born t g g1" and x: "g_transports g1 t = Some x" "at_connection x' = at_connection x" "at_disconnects x' = at_disconnects x"
  shows "quiet g (register_transport t (g1\<lparr>g_transports := (g_transports g1)(t \<mapsto> x'), g_pending_list := t # g_pending_list g1\<rparr>))"
    (is "quiet g ?g")
proof -
  obtain c where q: "quiet g g1" and c: "at_connection x = Some c" using b x(1) by (auto simp: born_def)
  note i = quiet_inv [OF q]
  define g2 where "g2 = g1\<lparr>g_transports := (g_transports g1)(t \<mapsto> x')\<rparr>"
  have q2: "quiet g1 g2" unfolding g2_def by (rule tport_update_quiet [OF i x(1)]) (simp_all add: x c)
  note i2 = quiet_inv [OF q2]
  have l: "g_transports g2 t \<noteq> None" by (simp add: g2_def)
  have "quiet g2 ?g"
  proof (rule lists_quiet [OF i2])
    show "?g = g2\<lparr>g_transport_list := g_transport_list g2, g_pending_list := t # g_pending_list g2,
        g_registration := g_registration g2 @ [(t, True)]\<rparr>" by (simp add: g2_def register_transport_def)
  qed (use l listed_live [OF i2] refs_okD(2) [OF server_invD(6) [OF i2]] in auto)
  then show ?thesis using q q2 quiet_trans by blast
qed

lemma register_socket_transport_quiet:
  assumes inv: "server_inv g" and fd: "fd = -1 \<or> fd \<in> loose g"
  shows "\<exists>r g'. register_socket_transport fd serial port local f g = Inr (r, g') \<and> quiet g g'"
proof -
  obtain t g1 where n: "tport_new f kCsOffline g = (t, g1)" by fastforce
  obtain r g2 where i: "init_socket_transport t fd port local g1 = Inr (r, g2)" and b: "born t g g2"
    using init_socket_transport_born [OF inv fd n] by blast
  obtain g3 where d: "atransport_delete t g2 = Inr g3" "quiet g g3" using born_deleted [OF b] by blast
  obtain x where x: "g_transports g2 t = Some x" using b by (auto simp: born_def)
  have q: "quiet g g2" using b by (simp add: born_def)
  obtain b1 b2 where s: "serial_taken serial g2 (g_pending_list g2) = Inr b1"
    "serial_taken serial g2 (g_transport_list g2) = Inr b2"
    using serial_taken_live listed_live [OF quiet_inv [OF q]] by (metis le_sup_iff)
  define g4 where "g4 = register_transport t (g2\<lparr>g_transports := (g_transports g2)(t \<mapsto> x\<lparr>at_serial := serial\<rparr>),
    g_pending_list := t # g_pending_list g2\<rparr>)"
  have "quiet g g4" unfolding g4_def by (rule born_registered [OF b x]) simp_all
  moreover have "register_socket_transport fd serial port local f g =
    (if r < 0 then Inr (RegisterFailed REGISTER_INIT, g3) else if b1 \<or> b2 then Inr (RegisterFailed EALREADY, g3)
     else Inr (if local then Registered else WaitsFor t, g4))"
    using n i d(1) s x by (simp add: register_socket_transport_def g4_def)
  ultimately show ?thesis using d(2) by (cases "r < 0"; cases "b1 \<or> b2") simp_all
qed

lemma register_usb_transport_quiet:
  assumes inv: "server_inv g"
  shows "\<exists>g'. register_usb_transport usb serial devpath writeable g = Inr g' \<and> quiet g g'"
proof -
  define st where "st = (if writeable then kCsOffline else kCsNoPerm)"
  define t x where "t = g_next_transport g" and "x = (atransport_new reconnect_abort_f st (g_next_transport_id g))
    \<lparr>at_connection := Some (Connection_new (ConnUsb usb))\<rparr>"
  define g2 where "g2 = g\<lparr>g_transports := (g_transports g)(t \<mapsto> x),
    g_next_transport := Suc t, g_next_transport_id := g_next_transport_id g + 1\<rparr>"
  have b: "born t g g2"
    unfolding g2_def by (rule connected_born [OF inv t_def brings_new(3)]) (simp_all add: x_def)
  have g2t: "g_transports g2 t = Some x" by (simp add: g2_def)
  let ?x = "x\<lparr>at_type := kTransportUsb, at_serial := (case serial of None \<Rightarrow> at_serial x | Some s \<Rightarrow> c_str s),
               at_devpath := (case devpath of None \<Rightarrow> at_devpath x | Some d \<Rightarrow> c_str d)\<rparr>"
  define g4 where "g4 = register_transport t (g2\<lparr>g_transports := (g_transports g2)(t \<mapsto> ?x), g_pending_list := t # g_pending_list g2\<rparr>)"
  have "quiet g g4" unfolding g4_def by (rule born_registered [OF b g2t]) simp_all
  moreover have "register_usb_transport usb serial devpath writeable g = Inr g4"
  proof -
    define g1 where "g1 = g\<lparr>g_transports := (g_transports g)(t \<mapsto> atransport_new reconnect_abort_f st (g_next_transport_id g)),
       g_next_transport := Suc t, g_next_transport_id := g_next_transport_id g + 1\<rparr>"
    have "SetConnection t (ConnUsb usb) g1 = Inr g2"
      by (subst SetConnection_fresh [of _ t "atransport_new reconnect_abort_f st (g_next_transport_id g)"])
        (simp_all add: g1_def g2_def x_def)
    then show ?thesis
      using g2t by (simp add: register_usb_transport_def tport_new_eq st_def [symmetric] t_def [symmetric] g1_def [symmetric] g4_def)
  qed
  ultimately show ?thesis by blast
qed

section \<open>Connecting\<close>

lemma find_transport_live:
  assumes "server_inv g"
  shows "\<exists>r. find_transport serial g = Inr r \<and> (\<forall>t. r = Some t \<longrightarrow> t \<in> set (g_transport_list g))"
proof -
  have "set ts \<subseteq> dom (g_transports g) \<Longrightarrow> \<exists>r. find_transport_loop serial g ts = Inr r \<and> (\<forall>t. r = Some t \<longrightarrow> t \<in> set ts)" for ts
  proof (induction ts)
    case (Cons t ts)
    then obtain x where "g_transports g t = Some x" by auto
    then show ?case using Cons by auto
  qed simp
  then show ?thesis using listed_live [OF assms] by (simp add: find_transport_def)
qed

lemma local_connect_quiet:
  assumes inv: "server_inv g" and net: "network_ok (env_network env)"
  shows "\<exists>r g'. local_connect env port g = Inr (r, g') \<and> quiet g g'"
proof -
  define cp where "cp = to_int32 (port - 1)"
  have "\<exists>r g'. local_connect_arbitrary_ports env cp port g = Inr (r, g') \<and> quiet g g'"
  proof -
    obtain known where known: "(if find_emulator_transport_by_adb_port port g \<noteq> None then Inr True
        else rbind (find_emulator_transport_by_console_port cp g) (\<lambda>r. Inr (r \<noteq> None))) = Inr known"
      using find_transport_live [OF inv, of "getEmulatorSerialString cp"]
      by (cases "find_emulator_transport_by_adb_port port g") (auto simp: find_emulator_transport_by_console_port_def)
    define c1 where "c1 = (case env_adbhost env of None \<Rightarrow> (Inl [], g)
      | Some host \<Rightarrow> os_do (env_network env (network_connect_r host port)) g)"
    obtain r1 g1 where 1: "c1 = (r1, g1)" by fastforce
    define c2 where "c2 = (case r1 of Inr fd \<Rightarrow> (Inr fd, g1)
      | Inl _ \<Rightarrow> os_do (env_network env (network_loopback_client_r port)) g1)"
    obtain r2 g2 where 2: "c2 = (r2, g2)" by fastforce
    have q1: "quiet g g1" "r1 = Inr fd \<Longrightarrow> fd \<in> loose g1" for fd
      using 1 quiet_refl [OF inv] network_quiet [OF inv net, of _ r1 g1] by (auto simp: c1_def split: option.splits)
    have q2: "quiet g1 g2" "r2 = Inr fd \<Longrightarrow> fd \<in> loose g2" for fd
      using 2 q1(2) quiet_refl [OF quiet_inv [OF q1(1)]] network_quiet [OF quiet_inv [OF q1(1)] net, of _ r2 g2]
      by (auto simp: c2_def split: sum.splits)
    note q = quiet_trans [OF q1(1) q2(1)]
    have eq: "local_connect_arbitrary_ports env cp port g = (if known then Inr ((False, []), g)
       else case r2 of Inl error \<Rightarrow> Inr ((False, error), g2)
         | Inr fd \<Rightarrow> rbind (register_socket_transport fd (getEmulatorSerialString cp) port True reconnect_abort_f g2)
             (\<lambda>(r, g3). Inr ((r = Registered, (case r1 of Inl e \<Rightarrow> e | Inr _ \<Rightarrow> [])), g3)))"
      unfolding local_connect_arbitrary_ports_def known using 1 2
      by (cases r2) (simp_all add: c1_def [symmetric] c2_def [symmetric] Let_def)
    show ?thesis
    proof (cases r2)
      case (Inl e)
      then show ?thesis unfolding eq using q quiet_refl [OF inv] by (cases known) auto
    next
      case (Inr fd)
      obtain r g3 where "register_socket_transport fd (getEmulatorSerialString cp) port True reconnect_abort_f g2 = Inr (r, g3)"
        "quiet g2 g3" using register_socket_transport_quiet [OF quiet_inv [OF q]] q2(2) [OF Inr] by blast
      then show ?thesis unfolding eq using Inr quiet_refl [OF inv] quiet_trans [OF q] by (cases known) auto
    qed
  qed
  then show ?thesis by (auto simp: local_connect_def cp_def)
qed

lemma find_close_total: "rfind_close s \<noteq> None \<Longrightarrow> find_close s \<noteq> None"
  by (induction s rule: rfind_close.induct) (auto split: option.splits if_splits)

lemma ParseNetAddress_total: "\<exists>r. ParseNetAddress address port = Inr r"
proof -
  have "\<exists>r. net_host_port address = Inr r"
    using find_close_total [of address]
    by (auto simp: net_host_port_def Split_char Let_def split: option.split)
  then show ?thesis by (auto simp: ParseNetAddress_def Let_def split: sum.split option.split)
qed

lemma tcp_connect_quiet:
  assumes inv: "server_inv g" and net: "network_ok (env_network env)"
  shows "safe (tcp_connect env address g) (\<lambda>((fd, port, serial, resp), g'). quiet g g' \<and> (fd = -1 \<or> fd \<in> loose g'))"
proof -
  have p: "safe (ParseNetAddress address n) (\<lambda>_. True)" for n
    using ParseNetAddress_total [of address n] by auto
  show ?thesis unfolding tcp_connect_def
  proof (rule safe_bind [OF p])
    fix parsed
    show "safe (case parsed of Inl response \<Rightarrow> Inr ((-1, DEFAULT_ADB_LOCAL_TRANSPORT_PORT, [], response), g)
     | Inr (host, port, serial) \<Rightarrow>
         (let (r, g1) = os_do (env_network env (network_connect_r (c_str host) port)) g
          in case r of
               Inl error \<Rightarrow>
                 Inr ((-1, port, serial, ''unable to connect to '' @ c_str serial @ '': '' @ c_str error), g1)
             | Inr fd \<Rightarrow> Inr ((fd, port, serial, []), g1)))
       (\<lambda>((fd, port, serial, resp), g'). quiet g g' \<and> (fd = -1 \<or> fd \<in> loose g'))"
      using quiet_refl [OF inv] network_quiet [OF inv net] by (auto split: sum.split prod.split)
  qed
qed

lemma connect_device_quiet:
  assumes inv: "server_inv g" and net: "network_ok (env_network env)"
  shows "safe (connect_device env address g) (\<lambda>(_, g'). quiet g g')"
proof (cases "address = []")
  case True
  then show ?thesis using quiet_refl [OF inv] by (simp add: connect_device_def)
next
  case False
  have "safe (rbind (tcp_connect env address g) (\<lambda>((fd, port, serial, _), g1).
        rbind (register_socket_transport fd serial port False (reconnect_tcp_f address) g1) (\<lambda>(r, g2).
        Inr (case r of WaitsFor t \<Rightarrow> ConnectWaits t serial | _ \<Rightarrow> Response (connect_response serial r), g2))))
      (\<lambda>(_, g'). quiet g g')"
  proof (rule safe_bind [OF tcp_connect_quiet [OF inv net]], clarify)
    fix fd port serial resp g1
    assume q: "quiet g g1" and fd: "fd = -1 \<or> fd \<in> loose g1"
    obtain r g2 where "register_socket_transport fd serial port False (reconnect_tcp_f address) g1 = Inr (r, g2)" "quiet g1 g2"
      using register_socket_transport_quiet [OF quiet_inv [OF q] fd] by blast
    then show "safe (rbind (register_socket_transport fd serial port False (reconnect_tcp_f address) g1) (\<lambda>(r, g2).
        Inr (case r of WaitsFor t \<Rightarrow> ConnectWaits t serial | _ \<Rightarrow> Response (connect_response serial r), g2)))
      (\<lambda>(_, g'). quiet g g')" using quiet_trans [OF q] by simp
  qed
  then show ?thesis using False by (simp add: connect_device_def)
qed

lemma poll_ports_quiet:
  assumes "server_inv g" and net: "network_ok (env_network env)"
  shows "\<exists>g'. poll_ports env n port g = Inr g' \<and> quiet g g'"
  using assms(1)
proof (induction n arbitrary: port g)
  case (Suc n)
  obtain r g1 where 1: "local_connect env port g = Inr (r, g1)" "quiet g g1"
    using local_connect_quiet [OF Suc.prems net] by blast
  then show ?case using Suc.IH [OF quiet_inv [OF 1(2)]] quiet_trans [OF 1(2)] by fastforce
qed (simp add: quiet_refl)

lemma retry_each_quiet:
  assumes "server_inv g" "network_ok (env_network env)"
  shows "\<exists>r g'. retry_each env ports nxt g = Inr (r, g') \<and> quiet g g'"
  using assms
proof (induction env ports nxt g rule: retry_each.induct)
  case (2 env port n ports nxt g)
  obtain r g1 where 1: "local_connect env port g = Inr (r, g1)" "quiet g g1"
    using local_connect_quiet [OF "2.prems"] by blast
  have "\<exists>r' g'. retry_each env ports (if \<not> r \<and> n - 1 > 0 then nxt @ [(port, n - 1)] else nxt) g1 = Inr (r', g') \<and> quiet g1 g'"
    using "2.IH" [OF 1(1)] quiet_inv [OF 1(2)] "2.prems"(2) by (cases r; cases "n - 1 > 0") auto
  then show ?case using 1 quiet_trans [OF 1(2)] by (cases r; cases "n - 1 > 0") auto
qed (simp add: quiet_refl)

section \<open>Reconnecting\<close>

lemma init_existing_quiet:
  assumes inv: "server_inv g" and x: "g_transports g t = Some x" and fd: "fd = -1 \<or> fd \<in> loose g"
  shows "safe (init_socket_transport t fd port False g) (\<lambda>(_, g'). quiet g g')"
proof -
  obtain c where c: "at_connection x = Some c" by (rule connection_of [OF inv x])
  define g1 where "g1 = g\<lparr>g_transports := (g_transports g)(t \<mapsto> x\<lparr>at_type := kTransportLocal\<rparr>)\<rparr>"
  have q: "quiet g g1" unfolding g1_def by (rule tport_update_quiet [OF inv x]) (simp_all add: c)
  have "holds g1 u = holds g u" for u using x by (simp add: g1_def holds_def)
  then have "loose g1 = loose g" by (simp add: loose_def) (simp add: g1_def)
  then have "safe (SetConnection t (ConnFd fd) g1) (quiet g1)"
    using fd by (intro SetConnection_quiet [OF quiet_inv [OF q]]) (auto simp: g1_def intro: brings_new)
  then have "safe (rbind (SetConnection t (ConnFd fd) g1) (\<lambda>g2. Inr (0, g2))) (\<lambda>(_, g'). quiet g g')"
    by (rule safe_bind) (simp add: quiet_trans [OF q])
  then show ?thesis using x by (simp add: init_socket_transport_def g1_def)
qed

lemma Reconnect_quiet:
  assumes inv: "server_inv g" and x: "g_transports g t = Some x" and net: "network_ok (env_network env)"
  shows "safe (atransport_Reconnect env t g) (\<lambda>(_, g'). quiet g g')"
proof (cases "at_reconnect x")
  case reconnect_abort_f
  then show ?thesis using x quiet_refl [OF inv] by (simp add: atransport_Reconnect_def)
next
  case (reconnect_tcp_f address)
  have "safe (rbind (tcp_connect env address g) (\<lambda>((fd, port, serial, _), g1).
         if fd = -1 then Inr (ReconnectRetry, g1)
         else rbind (init_socket_transport t fd port False g1) (\<lambda>(r, g2).
              Inr (if r \<ge> 0 then ReconnectSuccess else ReconnectRetry, g2)))) (\<lambda>(_, g'). quiet g g')"
  proof (rule safe_bind [OF tcp_connect_quiet [OF inv net]], clarify)
    fix fd port serial resp g1
    assume q: "quiet g g1" and fd: "fd = -1 \<or> fd \<in> loose g1"
    obtain x1 where x1: "g_transports g1 t = Some x1" using quiet_live [OF q, of t] x by blast
    have "safe (rbind (init_socket_transport t fd port False g1) (\<lambda>(r, g2).
              Inr (if r \<ge> 0 then ReconnectSuccess else ReconnectRetry, g2))) (\<lambda>(_, g'). quiet g g')"
      by (rule safe_bind [OF init_existing_quiet [OF quiet_inv [OF q] x1 fd]]) (auto simp: quiet_trans [OF q])
    then show "safe (if fd = -1 then Inr (ReconnectRetry, g1)
         else rbind (init_socket_transport t fd port False g1) (\<lambda>(r, g2).
              Inr (if r \<ge> 0 then ReconnectSuccess else ReconnectRetry, g2))) (\<lambda>(_, g'). quiet g g')"
      using q by simp
  qed
  then show ?thesis using x reconnect_tcp_f by (simp add: atransport_Reconnect_def)
qed

lemma drop_kicked_quiet:
  assumes "server_inv g" "(fst \<circ> snd) ` set Q \<subseteq> dom (g_transports g)"
  shows "\<exists>Q' g'. drop_kicked Q g = Inr (Q', g') \<and> quiet g g' \<and> set Q' \<subseteq> set Q"
  using assms
proof (induction Q g rule: drop_kicked.induct)
  case (2 time t left rest g)
  obtain x where x: "g_transports g t = Some x" using "2.prems"(2) by auto
  have r: "(fst \<circ> snd) ` set rest \<subseteq> dom (g_transports g)" using "2.prems"(2) by auto
  show ?case
  proof (cases "at_kicked x")
    case True
    have q: "quiet g (remove_transport t g)" using registration_quiet(2) [OF "2.prems"(1)] x by simp
    have d: "g_transports (remove_transport t g) = g_transports g" by (simp add: remove_transport_def)
    obtain Q' g' where "drop_kicked rest (remove_transport t g) = Inr (Q', g')" "quiet (remove_transport t g) g'" "set Q' \<subseteq> set rest"
      using "2.IH"(1) [OF _ True quiet_inv [OF q]] x r d by auto
    then show ?thesis using x True quiet_trans [OF q] by auto
  next
    case False
    obtain Q' g' where "drop_kicked rest g = Inr (Q', g')" "quiet g g'" "set Q' \<subseteq> set rest"
      using "2.IH"(2) [OF _ False "2.prems"(1) r] x by auto
    then show ?thesis using x False by auto
  qed
qed (simp add: quiet_refl)

lemma after_reconnect_quiet:
  assumes inv: "server_inv g" and t: "g_transports g t \<noteq> None"
  shows "quiet g (case r of
      ReconnectRetry \<Rightarrow> if n = 0 then remove_transport t g
        else g\<lparr>g_reconnect_queue := attempt_insert (g_now g + kDefaultTimeout, t, n - 1) (g_reconnect_queue g)\<rparr>
    | ReconnectSuccess \<Rightarrow> register_transport t g
    | ReconnectAbort \<Rightarrow> remove_transport t g)"
  using registration_quiet [OF inv t] reconnect_queue_quiet [OF inv]
    attempt_insert_live [OF inv t refs_okD(3) [OF server_invD(6) [OF inv]]]
  by (cases r) simp_all

text \<open>A turn of the reconnect thread keeps the invariant.\<close>

lemma ReconnectHandler_Run_quiet:
  assumes inv: "server_inv g" and net: "network_ok (env_network env)"
  shows "safe (ReconnectHandler_Run env g) (quiet g)"
proof (cases "g_reconnect_running g")
  case False
  then show ?thesis using quiet_refl [OF inv] by (simp add: ReconnectHandler_Run_def)
next
  case True
  have live: "(fst \<circ> snd) ` set (g_reconnect_queue g) \<subseteq> dom (g_transports g)"
    by (rule refs_okD(3) [OF server_invD(6) [OF inv]])
  obtain Q g1 where d: "drop_kicked (g_reconnect_queue g) g = Inr (Q, g1)" and q: "quiet g g1"
    and sub: "set Q \<subseteq> set (g_reconnect_queue g)" using drop_kicked_quiet [OF inv live] by blast
  have Ql: "(fst \<circ> snd) ` set Q \<subseteq> dom (g_transports g1)" using sub live quiet_acted [OF q] unfolding acted_def by blast
  have q1: "quiet g (g1\<lparr>g_reconnect_queue := Q'\<rparr>)" if "set Q' \<subseteq> set Q" for Q'
    using quiet_trans [OF q reconnect_queue_quiet [OF quiet_inv [OF q]]] Ql that by blast
  show ?thesis
  proof (cases Q)
    case Nil
    then show ?thesis using True d q1 by (simp add: ReconnectHandler_Run_def)
  next
    case (Cons a rest)
    obtain time t n where a: "a = (time, t, n)" by (cases a)
    have q2: "quiet g (g1\<lparr>g_reconnect_queue := rest\<rparr>)" using q1 Cons by auto
    obtain x where x: "g_transports (g1\<lparr>g_reconnect_queue := rest\<rparr>) t = Some x" using Ql Cons a by auto
    have "safe (rbind (atransport_Reconnect env t (g1\<lparr>g_reconnect_queue := rest\<rparr>)) (\<lambda>(r, g2).
        Inr (case r of
              ReconnectRetry \<Rightarrow> if n = 0 then remove_transport t g2
                else g2\<lparr>g_reconnect_queue := attempt_insert (g_now g2 + kDefaultTimeout, t, n - 1) (g_reconnect_queue g2)\<rparr>
            | ReconnectSuccess \<Rightarrow> register_transport t g2
            | ReconnectAbort \<Rightarrow> remove_transport t g2))) (quiet g)"
    proof (rule safe_bind [OF Reconnect_quiet [OF quiet_inv [OF q2] x net]], clarify)
      fix r g2 assume q3: "quiet (g1\<lparr>g_reconnect_queue := rest\<rparr>) g2"
      have "g_transports g2 t \<noteq> None" using quiet_live [OF q3] x by blast
      from quiet_trans [OF quiet_trans [OF q2 q3] after_reconnect_quiet [OF quiet_inv [OF q3] this, of n r]]
      show "safe (Inr (case r of
              ReconnectRetry \<Rightarrow> if n = 0 then remove_transport t g2
                else g2\<lparr>g_reconnect_queue := attempt_insert (g_now g2 + kDefaultTimeout, t, n - 1) (g_reconnect_queue g2)\<rparr>
            | ReconnectSuccess \<Rightarrow> register_transport t g2
            | ReconnectAbort \<Rightarrow> remove_transport t g2)) (quiet g)" by (simp only: safe_Inr)
    qed
    then show ?thesis using True d Cons a q1 [of Q] by (simp add: ReconnectHandler_Run_def)
  qed
qed

lemma client_socket_round_quiet:
  assumes inv: "server_inv g" and net: "network_ok (env_network env)"
  shows "\<exists>g'. client_socket_round env g = Inr g' \<and> quiet g g'"
proof -
  have P: "quiet h (h\<lparr>g_retry_ports := P\<rparr>)" if "server_inv h" for h P
    using refs_okD(2,3) [OF server_invD(6) [OF that]] by (intro queues_quiet [OF that]) (simp_all add: same_core_def)
  obtain nxt g1 where 1: "retry_each env (g_retry_ports g) [] (g\<lparr>g_retry_ports := []\<rparr>) = Inr (nxt, g1)"
    "quiet (g\<lparr>g_retry_ports := []\<rparr>) g1"
    using retry_each_quiet [OF quiet_inv [OF P [OF inv]] net] by blast
  from quiet_trans [OF quiet_trans [OF P [OF inv] 1(2)] P [OF quiet_inv [OF 1(2)]]]
  show ?thesis using 1(1) by (simp add: client_socket_round_def)
qed

lemma remove_each_attempt_quiet:
  assumes "server_inv g" "(fst \<circ> snd) ` set Q \<subseteq> dom (g_transports g)"
  shows "quiet g (remove_each_attempt Q g)"
  using assms
proof (induction Q g rule: remove_each_attempt.induct)
  case (2 n t k rest g)
  have q: "quiet g (remove_transport t g)" using registration_quiet(2) [OF "2.prems"(1), of t] "2.prems"(2) by auto
  have d: "g_transports (remove_transport t g) = g_transports g" by (simp add: remove_transport_def)
  have "quiet (remove_transport t g) (remove_each_attempt rest (remove_transport t g))"
    using "2.prems"(2) d by (intro "2.IH" [OF quiet_inv [OF q]]) simp
  then show ?case using quiet_trans [OF q] by simp
qed (simp add: quiet_refl)

lemma kick_all_transports_quiet:
  assumes inv: "server_inv g"
  shows "safe (kick_all_transports g) (quiet g)"
proof -
  define g1 where "g1 = g\<lparr>g_reconnect_running := False, g_reconnect_queue := []\<rparr>"
  note r = refs_okD(2,3) [OF server_invD(6) [OF inv]]
  have q1: "quiet g g1" unfolding g1_def by (rule queues_quiet [OF inv]) (use r in \<open>simp_all add: same_core_def\<close>)
  have "quiet g1 (ReconnectHandler_Stop g)"
    unfolding ReconnectHandler_Stop_def g1_def [symmetric]
    using r(2) by (intro remove_each_attempt_quiet [OF quiet_inv [OF q1]]) (simp add: g1_def)
  then have q: "quiet g (ReconnectHandler_Stop g)" by (rule quiet_trans [OF q1])
  have "safe (kick_every ts h) (quiet h)" if "server_inv h" "set ts \<subseteq> dom (g_transports h)" for ts h
  proof -
    have "kick_every ts h = kick_each (\<lambda>_. True) ts h" using that
    proof (induction ts arbitrary: h)
      case (Cons t ts)
      obtain x where x: "g_transports h t = Some x" using Cons.prems(2) by auto
      show ?case
      proof (cases "atransport_Kick t h")
        case (Inr h1)
        have "quiet h h1" using Kick_quiet [OF Cons.prems(1) x] Inr by simp
        then show ?thesis
          using Inr x Cons.IH [OF quiet_inv] Cons.prems(2) by (auto simp: quiet_def acted_def)
      qed (simp add: x)
    qed simp
    then show ?thesis using kick_each_quiet [OF that] by simp
  qed
  then have "safe (kick_every (g_transport_list g) (ReconnectHandler_Stop g)) (quiet (ReconnectHandler_Stop g))"
    using listed_live [OF inv] quiet_inv [OF q] quiet_acted [OF q] unfolding acted_def by blast
  then show ?thesis unfolding kick_all_transports_def by (rule safe_mono) (rule quiet_trans [OF q])
qed

lemma unregister_usb_transport_id:
  assumes "server_inv g"
  shows "unregister_usb_transport usb g = Inr g"
proof -
  have "set ts \<subseteq> dom (g_transports g) \<Longrightarrow> without_usb usb g ts = Inr ts" for ts
  proof (induction ts)
    case (Cons t ts)
    then obtain x where "g_transports g t = Some x" by auto
    then show ?case using Cons by (cases "at_connection x") (simp_all add: as_UsbConnection_def)
  qed simp
  then show ?thesis using listed_live [OF assms] by (simp add: unregister_usb_transport_def)
qed

end
