(* ===== verification/TransportProps.thy ===== *)
theory TransportProps
  imports TransportInv
begin

text \<open>
  What the life cycle of transports promises: the threads that register, reconnect and kick transports
  keep the invariant of the server; retries end; the number of emulators is bounded; and two places
  where the code does not do what it means to.
\<close>

section \<open>Reachable states\<close>

lemma server_inv_init: "server_inv (adb_init w)"
proof -
  have v: "fde_view (g_ev (adb_init w)) = (\<lambda>_. None)"
    by (simp add: adb_init_def fdevents_init_def fde_view_def fun_eq_iff)
  have e: "fdevents_inv (g_ev (adb_init w))" by (simp add: adb_init_def)
  have "adb_inv (adb_init w)"
    using e v by (simp add: inv_ex_def inv_parts) (simp add: adb_init_def)
  moreover have "listeners_inv (adb_init w)" using v by (simp add: listeners_inv_def) (simp add: adb_init_def)
  moreover have "owners_ok (adb_init w)" by (simp add: owners_ok_def holds_def adb_init_def)
  moreover have "refs_ok (adb_init w)" by (simp add: refs_ok_def adb_init_def fdevents_init_def)
  ultimately show ?thesis by (simp add: server_inv_def srv_inv_def lists_live_def) (simp add: adb_init_def)
qed

text \<open>
  One turn of a thread other than the main thread, or of a part of the main thread that deals with
  transports: the USB scanner, the emulator scanner, a connect service, the reconnect thread, the two
  threads of a connection, requests that kick, and the shutdown.
\<close>

datatype transport_turn =
    TurnUsb nat "string option" "string option" bool
  | TurnPoll
  | TurnRetry
  | TurnConnect string
  | TurnEmulator int
  | TurnReconnect int
  | TurnRead "apacket option" nat
  | TurnWrite bool nat
  | TurnKick nat
  | TurnDisconnectAll
  | TurnShutdown
  | TurnTerminated nat

definition transport_turn :: "host_env \<Rightarrow> transport_turn \<Rightarrow> adb \<Rightarrow> adb res" where
  "transport_turn env a g =
     (case a of
        TurnUsb usb serial devpath writeable \<Rightarrow> register_usb_transport usb serial devpath writeable g
      | TurnPoll \<Rightarrow> PollAllLocalPortsForEmulator env g
      | TurnRetry \<Rightarrow> client_socket_round env g
      | TurnConnect address \<Rightarrow> rbind (connect_device env address g) (\<lambda>(_, g1). Inr g1)
      | TurnEmulator port \<Rightarrow> rbind (local_connect env port g) (\<lambda>(_, g1). Inr g1)
      | TurnReconnect now \<Rightarrow> ReconnectHandler_Run env (g\<lparr>g_now := now\<rparr>)
      | TurnRead p t \<Rightarrow> read_thread_turn p t g
      | TurnWrite ok t \<Rightarrow> rbind (write_thread_turn ok t g) (\<lambda>(_, g1). Inr g1)
      | TurnKick t \<Rightarrow> kick_transport t g
      | TurnDisconnectAll \<Rightarrow> kick_all_tcp_devices g
      | TurnShutdown \<Rightarrow> kick_all_transports g
      | TurnTerminated t \<Rightarrow> transport_unref t g)"

text \<open>The threads of a connection exist as long as their transport does, and read whole packets.\<close>

definition turn_ok :: "adb \<Rightarrow> transport_turn \<Rightarrow> bool" where
  "turn_ok g a =
     (case a of
        TurnRead p t \<Rightarrow> g_transports g t \<noteq> None \<and> (case p of None \<Rightarrow> True | Some p \<Rightarrow> Block_inv (payload p))
      | TurnWrite ok t \<Rightarrow> g_transports g t \<noteq> None
      | TurnTerminated t \<Rightarrow> g_transports g t \<noteq> None
      | _ \<Rightarrow> True)"

lemma now_quiet: "server_inv g \<Longrightarrow> quiet g (g\<lparr>g_now := n\<rparr>)"
  using refs_okD(2,3) [OF server_invD(6)] by (intro queues_quiet) (simp_all add: same_core_def)

lemma connection_update_quiet:
  assumes inv: "server_inv g" and x: "g_transports g t = Some x" and c: "at_connection x = Some c"
    and d: "conn_kind d = conn_kind c" "conn_started d = conn_started c" "conn_stopped d = conn_stopped c"
  shows "quiet g (g\<lparr>g_transports := (g_transports g)(t \<mapsto> x\<lparr>at_connection := Some d\<rparr>)\<rparr>)"
  by (rule tport_update_quiet [OF inv x]) (simp_all add: c d live_fd_def)

lemma read_thread_quiet:
  assumes inv: "server_inv g" and x: "g_transports g t = Some x" and p: "\<And>q. p = Some q \<Longrightarrow> Block_inv (payload q)"
  shows "safe (read_thread_turn p t g) (quiet g)"
proof -
  obtain c where c: "at_connection x = Some c" by (rule connection_of [OF inv x])
  show ?thesis
  proof (cases p)
    case None
    define g1 where "g1 = g\<lparr>g_transports := (g_transports g)(t \<mapsto> x\<lparr>at_connection := Some (c\<lparr>conn_reader := False\<rparr>)\<rparr>)\<rparr>"
    have q: "quiet g g1" unfolding g1_def by (rule connection_update_quiet [OF inv x c]) simp_all
    have "safe (conn_report t g1) (quiet g1)" by (rule conn_report_quiet [OF quiet_inv [OF q]]) (simp add: g1_def)
    then have "safe (conn_report t g1) (quiet g)" by (rule safe_mono) (rule quiet_trans [OF q])
    then show ?thesis using None x c quiet_refl [OF inv] by (simp add: read_thread_turn_def g1_def)
  next
    case (Some q)
    have "safe (ev_do (fdevent_run_on_main_thread (RunPacket q t)) g) (quiet g)"
      using p [OF Some] x by (intro run_on_main_quiet [OF inv]) simp
    then have "safe (rbind (ev_do (fdevent_run_on_main_thread (RunPacket q t)) g) (\<lambda>g1. Inr (True, g1))) (\<lambda>(_, g1). quiet g g1)"
      by (rule safe_bind) simp
    then have "safe (read_callback q t g) (\<lambda>(_, g1). quiet g g1)"
      using x quiet_refl [OF inv] by (simp add: read_callback_def)
    then have "safe (rbind (read_callback q t g) (\<lambda>(_, g1). Inr g1)) (quiet g)"
      by (rule safe_bind) auto
    then show ?thesis using Some x c quiet_refl [OF inv] by (simp add: read_thread_turn_def)
  qed
qed

lemma write_thread_quiet:
  assumes inv: "server_inv g" and x: "g_transports g t = Some x"
  shows "safe (rbind (write_thread_turn ok t g) (\<lambda>(_, g1). Inr g1)) (quiet g)"
proof -
  obtain c where c: "at_connection x = Some c" by (rule connection_of [OF inv x])
  note u = connection_update_quiet [OF inv x c]
  have r: "safe (rbind (conn_report t g1) (\<lambda>g2. Inr (None, g2))) (\<lambda>(_, g2). quiet g g2)"
    if q: "quiet g g1" and l: "g_transports g1 t \<noteq> None" for g1
  proof -
    obtain y where y: "g_transports g1 t = Some y" using l by blast
    show ?thesis
      by (rule safe_bind [OF conn_report_quiet [OF quiet_inv [OF q] y]]) (simp add: quiet_trans [OF q])
  qed
  have "safe (write_thread_turn ok t g) (\<lambda>(_, g1). quiet g g1)"
    using x c quiet_refl [OF inv] u by (auto simp: write_thread_turn_def split: list.split intro!: r)
  then show ?thesis by (rule safe_bind) auto
qed

lemma transport_turn_quiet:
  assumes inv: "server_inv g" and ok: "turn_ok g a" and net: "network_ok (env_network env)"
  shows "safe (transport_turn env a g) (quiet g)"
proof (cases a)
  case (TurnUsb u s d w)
  then show ?thesis using register_usb_transport_quiet [OF inv, of u s d w] by (auto simp: transport_turn_def)
next
  case TurnPoll
  then show ?thesis
    using poll_ports_quiet [OF inv net, of ADB_LOCAL_TRANSPORT_MAX DEFAULT_ADB_LOCAL_TRANSPORT_PORT] by (auto simp: transport_turn_def PollAllLocalPortsForEmulator_def)
next
  case TurnRetry
  then show ?thesis using client_socket_round_quiet [OF inv net] by (auto simp: transport_turn_def)
next
  case (TurnConnect address)
  have "safe (rbind (connect_device env address g) (\<lambda>(_, g1). Inr g1)) (quiet g)"
    by (rule safe_bind [OF connect_device_quiet [OF inv net]]) auto
  then show ?thesis using TurnConnect by (simp add: transport_turn_def)
next
  case (TurnEmulator port)
  then show ?thesis using local_connect_quiet [OF inv net, of port] by (auto simp: transport_turn_def)
next
  case (TurnReconnect now)
  have "safe (ReconnectHandler_Run env (g\<lparr>g_now := now\<rparr>)) (quiet (g\<lparr>g_now := now\<rparr>))"
    by (rule ReconnectHandler_Run_quiet [OF quiet_inv [OF now_quiet [OF inv]] net])
  then have "safe (ReconnectHandler_Run env (g\<lparr>g_now := now\<rparr>)) (quiet g)"
    by (rule safe_mono) (rule quiet_trans [OF now_quiet [OF inv]])
  then show ?thesis using TurnReconnect by (simp add: transport_turn_def)
next
  case (TurnRead p t)
  then obtain x where x: "g_transports g t = Some x" and "case p of None \<Rightarrow> True | Some p \<Rightarrow> Block_inv (payload p)"
    using ok by (auto simp: turn_ok_def)
  then have "Block_inv (payload q)" if "p = Some q" for q using that by simp
  then show ?thesis using TurnRead read_thread_quiet [OF inv x] by (simp add: transport_turn_def)
next
  case (TurnWrite b t)
  then show ?thesis using ok write_thread_quiet [OF inv] by (auto simp: turn_ok_def transport_turn_def)
next
  case (TurnTerminated t)
  then show ?thesis using ok transport_unref_quiet [OF inv] by (auto simp: turn_ok_def transport_turn_def)
qed (simp_all add: transport_turn_def kick_transport_quiet [OF inv] kick_all_quiet [OF inv] kick_all_transports_quiet [OF inv])

inductive transport_reachable :: "host_env \<Rightarrow> os \<Rightarrow> adb \<Rightarrow> bool" for env w where
  start: "transport_reachable env w (adb_init w)"
| turn: "transport_reachable env w g \<Longrightarrow> turn_ok g a \<Longrightarrow> transport_turn env a g = Inr g' \<Longrightarrow>
         transport_reachable env w g'"

lemma transport_reachable_inv:
  assumes "transport_reachable env w g" "network_ok (env_network env)"
  shows "server_inv g"
  using assms
proof induction
  case start
  show ?case by (rule server_inv_init)
next
  case (turn g a g')
  then show ?case using transport_turn_quiet [of g a env] quiet_inv by fastforce
qed



section \<open>Retries end\<close>

text \<open>A network on which nobody answers.\<close>

definition refuses :: "host_env \<Rightarrow> bool" where
  "refuses env \<longleftrightarrow> (\<forall>r w. \<exists>e. env_network env r w = (Inl e, w))"

lemma refused:
  assumes "refuses env"
  shows "\<exists>e. os_do (env_network env r) g = (Inl e, g)"
proof -
  obtain e where "env_network env r (fd_os (g_ev g)) = (Inl e, fd_os (g_ev g))"
    using assms by (auto simp: refuses_def)
  then show ?thesis by (simp add: os_do_def)
qed

lemma local_connect_refused:
  assumes inv: "server_inv g" and r: "refuses env"
  shows "local_connect env port g = Inr (False, g)"
proof -
  obtain b where b: "find_emulator_transport_by_console_port (to_int32 (port - 1)) g = Inr b"
    using find_transport_live [OF inv] by (auto simp: find_emulator_transport_by_console_port_def)
  obtain e where e: "os_do (env_network env (network_loopback_client_r port)) g = (Inl e, g)" using refused [OF r] by blast
  have "\<exists>e. (case env_adbhost env of None \<Rightarrow> (Inl [], g)
      | Some host \<Rightarrow> os_do (env_network env (network_connect_r host port)) g) = (Inl e, g)"
    using refused [OF r] by (cases "env_adbhost env") auto
  then obtain e' where e': "(case env_adbhost env of None \<Rightarrow> (Inl [], g)
      | Some host \<Rightarrow> os_do (env_network env (network_connect_r host port)) g) = (Inl e', g)" by blast
  have "\<exists>m. local_connect_arbitrary_ports env (to_int32 (port - 1)) port g = Inr ((False, m), g)"
    unfolding local_connect_arbitrary_ports_def b e'
    using e by (cases "find_emulator_transport_by_adb_port port g"; cases b) (simp_all add: Let_def)
  then show ?thesis by (auto simp: local_connect_def)
qed

definition one_less :: "(int \<times> u32) list \<Rightarrow> (int \<times> u32) list" where
  "one_less ps = map (\<lambda>(port, n). (port, n - 1)) (filter (\<lambda>(port, n). n - 1 > 0) ps)"

lemma retry_each_refused:
  assumes "server_inv g" "refuses env"
  shows "retry_each env ps nxt g = Inr (nxt @ one_less ps, g)"
  using assms
proof (induction env ps nxt g rule: retry_each.induct)
  case (2 env port n ps nxt g)
  have l: "local_connect env port g = Inr (False, g)" by (rule local_connect_refused [OF "2.prems"])
  show ?case
  proof (cases "n - 1 > 0")
    case True
    have "retry_each env ps (nxt @ [(port, n - 1)]) g = Inr ((nxt @ [(port, n - 1)]) @ one_less ps, g)"
      using "2.IH"(2) [OF l _ _ True "2.prems", of False] by simp
    then show ?thesis using l True by (simp add: one_less_def)
  next
    case False
    have "retry_each env ps nxt g = Inr (nxt @ one_less ps, g)" using "2.IH"(3) [OF l _ _ False "2.prems", of False] by simp
    then show ?thesis using l False by (simp add: one_less_def)
  qed
qed (simp add: one_less_def)

lemma round_refused:
  assumes inv: "server_inv g" and r: "refuses env"
  shows "client_socket_round env g = Inr (g\<lparr>g_retry_ports := one_less (g_retry_ports g)\<rparr>)"
proof -
  define h where "h = g\<lparr>g_retry_ports := []\<rparr>"
  have "server_inv h"
    unfolding h_def using refs_okD(2,3) [OF server_invD(6) [OF inv]]
    by (intro quiet_inv [of g] queues_quiet [OF inv]) (simp_all add: same_core_def)
  then show ?thesis
    using retry_each_refused [OF _ r, of h] by (simp add: client_socket_round_def h_def [symmetric]) (simp add: h_def)
qed

fun rounds :: "host_env \<Rightarrow> nat \<Rightarrow> adb \<Rightarrow> adb res" where
  "rounds env 0 g = Inr g"
| "rounds env (Suc n) g = rbind (client_socket_round env g) (rounds env n)"

lemma retry_ports_quiet: "server_inv g \<Longrightarrow> quiet g (g\<lparr>g_retry_ports := P\<rparr>)"
  using refs_okD(2,3) [OF server_invD(6)] by (intro queues_quiet) (simp_all add: same_core_def)

lemma unat_pred: "0 < unat n \<Longrightarrow> unat ((n :: u32) - 1) = unat n - 1"
  by (rule unat_minus_one) auto

lemma one_less_bound:
  assumes "list_all (\<lambda>(_, n). 0 < unat n \<and> unat n \<le> Suc k) ps"
  shows "list_all (\<lambda>(_, n). 0 < unat n \<and> unat n \<le> k) (one_less ps)"
  using assms by (induction ps) (auto simp: one_less_def unat_pred word_less_nat_alt)

text \<open>
  Property C18. The search for a lost emulator ends: when nobody answers any more, every port on the
  retry list has left it after as many rounds as the largest retry count, and nothing else has changed.
  An emulator that goes away is entered with \<open>LOCAL_PORT_RETRY_COUNT\<close>, so sixty rounds are enough.
\<close>

theorem emulator_retries_end:
  assumes "server_inv g" "refuses env" "list_all (\<lambda>(_, n). 0 < unat n \<and> unat n \<le> k) (g_retry_ports g)"
  shows "rounds env k g = Inr (g\<lparr>g_retry_ports := []\<rparr>)"
  using assms(1,3)
proof (induction k arbitrary: g)
  case 0
  then have "g_retry_ports g = []" by (cases "g_retry_ports g") auto
  then have "g\<lparr>g_retry_ports := []\<rparr> = g" by simp
  then show ?case by simp
next
  case (Suc k)
  define h where "h = g\<lparr>g_retry_ports := one_less (g_retry_ports g)\<rparr>"
  have "rounds env k h = Inr (h\<lparr>g_retry_ports := []\<rparr>)"
    using one_less_bound [OF Suc.prems(2)] quiet_inv [OF retry_ports_quiet [OF Suc.prems(1)]]
    by (intro Suc.IH) (simp_all add: h_def)
  then show ?case using round_refused [OF Suc.prems(1) assms(2)] by (simp add: h_def)
qed

definition silent_env :: host_env where
  "silent_env = plain_env\<lparr>env_network := (\<lambda>_ w. (Inl ''refused'', w))\<rparr>"

lemma silent_refuses: "refuses silent_env"
  by (simp add: refuses_def silent_env_def)

theorem emulator_retries_end_witness:
  "rounds silent_env 60 ((adb_init os_init)\<lparr>g_retry_ports := [(5555, LOCAL_PORT_RETRY_COUNT), (5557, 3)]\<rparr>)
     = Inr (adb_init os_init)"
  using emulator_retries_end [OF quiet_inv [OF retry_ports_quiet [OF server_inv_init]] silent_refuses,
      of 60 "[(5555, LOCAL_PORT_RETRY_COUNT), (5557, 3)]" os_init]
  by (simp add: LOCAL_PORT_RETRY_COUNT_def) (simp add: adb_init_def)

text \<open>Turns of the reconnect thread at given times, each not before the attempt is due.\<close>

fun reconnect_turns :: "host_env \<Rightarrow> int list \<Rightarrow> adb \<Rightarrow> adb res" where
  "reconnect_turns env [] g = Inr g"
| "reconnect_turns env (now # ns) g =
     rbind (ReconnectHandler_Run env (g\<lparr>g_now := now\<rparr>)) (reconnect_turns env ns)"

fun due :: "int \<Rightarrow> int list \<Rightarrow> bool" where
  "due time [] = True"
| "due time (now # ns) = (time \<le> now \<and> due (now + kDefaultTimeout) ns)"

lemma tcp_connect_refused:
  assumes "refuses env"
  shows "\<exists>port serial m. tcp_connect env address g = Inr ((-1, port, serial, m), g)"
proof -
  obtain p where p: "ParseNetAddress address DEFAULT_ADB_LOCAL_TRANSPORT_PORT = Inr p" using ParseNetAddress_total by blast
  show ?thesis
  proof (cases p)
    case (Inr q)
    obtain host port serial where q: "q = (host, port, serial)" by (cases q)
    obtain e where "os_do (env_network env (network_connect_r (c_str host) port)) g = (Inl e, g)"
      using refused [OF assms] by blast
    then show ?thesis using p Inr q by (simp add: tcp_connect_def)
  qed (simp add: tcp_connect_def p)
qed

lemma Run_refused:
  assumes run: "g_reconnect_running g" and r: "refuses env" and x: "g_transports g t = Some x" "\<not> at_kicked x"
    "at_reconnect x = reconnect_tcp_f address" and q: "g_reconnect_queue g = [(time, t, n)]" and now: "time \<le> g_now g"
  shows "ReconnectHandler_Run env g = Inr (if n = 0 then remove_transport t (g\<lparr>g_reconnect_queue := []\<rparr>)
           else g\<lparr>g_reconnect_queue := [(g_now g + kDefaultTimeout, t, n - 1)]\<rparr>)"
proof -
  have "atransport_Reconnect env t (g\<lparr>g_reconnect_queue := []\<rparr>) = Inr (ReconnectRetry, g\<lparr>g_reconnect_queue := []\<rparr>)"
    using tcp_connect_refused [OF r, of address "g\<lparr>g_reconnect_queue := []\<rparr>"] x(1,3)
    by (auto simp: atransport_Reconnect_def)
  then show ?thesis using run x q now by (simp add: ReconnectHandler_Run_def)
qed


definition lost_device :: adb where
  "lost_device = TrackTransport 4
     ((adb_init os_init)\<lparr>g_transports := [4 \<mapsto> atransport_new (reconnect_tcp_f ''10.0.0.2:5555'') kCsOffline 1]\<rparr>)"


section \<open>The number of emulators\<close>

definition emulators_ok :: "adb \<Rightarrow> bool" where
  "emulators_ok g \<longleftrightarrow> length (g_local_transports g) \<le> ADB_LOCAL_TRANSPORT_MAX \<and> distinct (map fst (g_local_transports g))"

lemma emulators_delete: "emulators_ok g \<Longrightarrow> emulators_ok (g\<lparr>g_local_transports := AList.delete p (g_local_transports g)\<rparr>)"
  using length_delete_le [of p "g_local_transports g"] distinct_delete [of "g_local_transports g" p]
  by (simp add: emulators_ok_def del: length_delete_le)

lemma emulators_same: "g_local_transports g' = g_local_transports g \<Longrightarrow> emulators_ok g' = emulators_ok g"
  by (simp add: emulators_ok_def)

lemma emulators_close: "emulators_ok g \<Longrightarrow> emulators_ok (conn_close_underlying k g)"
proof (cases k)
  case (ConnEmulator fd p)
  assume "emulators_ok g"
  from emulators_delete [OF this, of p] show ?thesis
    using ConnEmulator by (simp add: conn_close_underlying_def EmulatorConnection_Close_def FdConnection_Close_def snd_os_do emulators_ok_def)
qed (simp_all add: conn_close_underlying_def FdConnection_Close_def snd_os_do emulators_ok_def)

lemma emulators_ev_do: "ev_do f g = Inr g' \<Longrightarrow> emulators_ok g' = emulators_ok g"
  by (auto simp: ev_do_def emulators_ok_def)

lemma emulators_upd: "tport_upd t f g = Inr g' \<Longrightarrow> emulators_ok g' = emulators_ok g"
  by (auto simp: tport_upd_def emulators_ok_def)

lemma emulators_Stop: "conn_Stop t g = Inr g' \<Longrightarrow> emulators_ok g \<Longrightarrow> emulators_ok g'"
  by (auto simp: conn_Stop_def conn_report_def emulators_ev_do emulators_upd emulators_close split: if_splits)

lemma emulators_conn_delete: "conn_delete t g = Inr g' \<Longrightarrow> emulators_ok g \<Longrightarrow> emulators_ok g'"
proof -
  have d: "emulators_ok (underlying_delete k b h) = emulators_ok h" for k b h
    by (cases k) (simp_all add: underlying_delete_def fd_reset_def snd_os_do emulators_ok_def Let_def)
  assume "conn_delete t g = Inr g'" "emulators_ok g"
  then obtain x where x: "tport t g = Inr x" and
    r: "(case at_connection x of None \<Rightarrow> Inr g | Some c \<Rightarrow>
         rbind (conn_Stop t g) (\<lambda>g1.
         rbind (tport_upd t (\<lambda>x. x\<lparr>at_connection := None\<rparr>) g1) (\<lambda>g2.
         Inr (underlying_delete (conn_kind c) (conn_started c) g2)))) = Inr g'"
    by (auto simp: conn_delete_def)
  show ?thesis
  proof (cases "at_connection x")
    case (Some c)
    then obtain g1 g2 where "conn_Stop t g = Inr g1" "tport_upd t (\<lambda>x. x\<lparr>at_connection := None\<rparr>) g1 = Inr g2"
      "g' = underlying_delete (conn_kind c) (conn_started c) g2" using r by auto
    then show ?thesis using d emulators_upd emulators_Stop \<open>emulators_ok g\<close> by metis
  qed (use r \<open>emulators_ok g\<close> in simp)
qed

lemma emulators_transport_delete: "atransport_delete t g = Inr g' \<Longrightarrow> emulators_ok g \<Longrightarrow> emulators_ok g'"
proof -
  assume "atransport_delete t g = Inr g'" "emulators_ok g"
  then obtain g1 g2 where g12: "tport_upd t (SetConnectionEstablished False) g = Inr g1" "conn_delete t g1 = Inr g2"
    "g' = g2\<lparr>g_transports := (g_transports g2)(t := None)\<rparr>" "emulators_ok g"
    by (auto simp: atransport_delete_def)
  then have "emulators_ok g2" using emulators_upd emulators_conn_delete by blast
  then show ?thesis using g12(3) by (simp add: emulators_ok_def)
qed

lemma emulators_SetConnection: "SetConnection t k g = Inr g' \<Longrightarrow> emulators_ok g \<Longrightarrow> emulators_ok g'"
  by (auto simp: SetConnection_def emulators_upd intro: emulators_conn_delete)

lemma emulators_init:
  assumes "init_socket_transport t fd port local g = Inr (r, g')" "emulators_ok g"
  shows "emulators_ok g'"
proof -
  obtain g1 where g1: "tport_upd t (\<lambda>x. x\<lparr>at_type := kTransportLocal\<rparr>) g = Inr g1"
    using assms(1) by (auto simp: init_socket_transport_def)
  then have o1: "emulators_ok g1" using assms(2) emulators_upd by blast
  show ?thesis
  proof (cases local)
    case True
    then obtain g2 where g2: "SetConnection t (ConnEmulator fd port) g1 = Inr g2"
      using assms(1) g1 by (auto simp: init_socket_transport_def)
    then have "emulators_ok g2" using emulators_SetConnection o1 by blast
    moreover have "port \<notin> fst ` set L" if "map_of L port = None" for L :: "(int \<times> nat) list"
      using that by (simp add: map_of_eq_None_iff)
    ultimately show ?thesis
      using assms(1) g1 g2 True
      by (auto simp: init_socket_transport_def find_emulator_transport_by_adb_port_def emulators_ok_def split: if_splits)
  next
    case False
    then show ?thesis using assms(1) g1 o1 by (auto simp: init_socket_transport_def dest: emulators_SetConnection)
  qed
qed

lemma emulators_register:
  assumes "register_socket_transport fd serial port local f g = Inr (r, g')" "emulators_ok g"
  shows "emulators_ok g'"
proof -
  obtain t g1 where n: "tport_new f kCsOffline g = (t, g1)" by fastforce
  have o1: "emulators_ok g1" using n assms(2) by (auto simp: tport_new_eq emulators_ok_def)
  obtain i g2 where i: "init_socket_transport t fd port local g1 = Inr (i, g2)"
    using assms(1) n by (auto simp: register_socket_transport_def)
  have o2: "emulators_ok g2" by (rule emulators_init [OF i o1])
  have d: "emulators_ok g3" if "atransport_delete t g2 = Inr g3" for g3
    by (rule emulators_transport_delete [OF that o2])
  have reg: "emulators_ok (register_transport t (g3\<lparr>g_pending_list := P\<rparr>))"
    if "tport_upd t (\<lambda>x. x\<lparr>at_serial := serial\<rparr>) g2 = Inr g3" for g3 P
    using emulators_upd [OF that] o2 by (simp add: register_transport_def emulators_ok_def)
  show ?thesis
    using assms(1) n i by (auto simp: register_socket_transport_def Let_def d reg split: if_splits)
qed

lemma os_do_local [simp]: "g_local_transports (snd (os_do f g)) = g_local_transports g"
  by (simp add: os_do_def split: prod.splits)

lemma os_do_local_eq: "os_do f g = (r, h) \<Longrightarrow> g_local_transports h = g_local_transports g"
  by (metis os_do_local snd_conv)

text \<open>Searching a port changes the emulators only by registering what answered.\<close>

lemma local_connect_registers:
  assumes "local_connect env port g = Inr (ok, g')"
  shows "g_local_transports g' = g_local_transports g \<or>
    (\<exists>fd serial r h. g_local_transports h = g_local_transports g \<and>
       register_socket_transport fd serial port True reconnect_abort_f h = Inr (r, g'))"
proof -
  obtain r1 g1 where r1: "(case env_adbhost env of None \<Rightarrow> (Inl [], g)
      | Some host \<Rightarrow> os_do (env_network env (network_connect_r host port)) g) = (r1, g1)" by fastforce
  obtain r2 g2 where r2: "(case r1 of Inr fd \<Rightarrow> (Inr fd, g1)
      | Inl _ \<Rightarrow> os_do (env_network env (network_loopback_client_r port)) g1) = (r2, g2)" by fastforce
  have l1: "g_local_transports g1 = g_local_transports g"
    using r1 by (cases "env_adbhost env") (auto dest: os_do_local_eq)
  have l2: "g_local_transports g2 = g_local_transports g"
    using r2 l1 by (cases r1) (auto dest: os_do_local_eq)
  show ?thesis
    using assms l2 unfolding local_connect_def local_connect_arbitrary_ports_def r1
    by (simp only: r2 Let_def prod.case) (auto split: if_splits sum.splits)
qed

text \<open>
  Property C20. However often the ports are searched and whatever answers there, the server never holds
  more than \<open>ADB_LOCAL_TRANSPORT_MAX\<close> emulators, and never two for one port.
\<close>

theorem emulators_bounded:
  assumes "emulators_ok g" "local_connect env port g = Inr (ok, g')"
  shows "emulators_ok g' \<and> length (g_local_transports g') \<le> 16"
proof -
  have "emulators_ok g'"
    using local_connect_registers [OF assms(2)] emulators_register assms(1) emulators_same by metis
  then show ?thesis by (simp add: emulators_ok_def ADB_LOCAL_TRANSPORT_MAX_def)
qed

theorem emulators_bounded_witness:
  "local_connect silent_env 5555 (adb_init os_init) = Inr (False, adb_init os_init)
   \<and> emulators_ok (adb_init os_init) \<and> length (g_local_transports (adb_init os_init)) \<le> 16"
proof -
  have o: "emulators_ok (adb_init os_init)" by (simp add: emulators_ok_def adb_init_def)
  have l: "local_connect silent_env 5555 (adb_init os_init) = Inr (False, adb_init os_init)"
    by (rule local_connect_refused [OF server_inv_init silent_refuses])
  show ?thesis using l emulators_bounded [OF o l] by simp
qed

section \<open>Closing the sockets of a transport\<close>

text \<open>No open socket points to the transport \<open>t\<close>.\<close>

definition detached :: "nat \<Rightarrow> adb \<Rightarrow> bool" where
  "detached t g \<longleftrightarrow> (\<forall>a s. g_sockets g a = Some s \<and> \<not> as_closing s \<longrightarrow> as_transport s \<noteq> Some t)"

text \<open>
  Property C17. \<open>close_all_sockets\<close> returns: it restarts its search only finitely often, frees no object
  twice and leaves the sockets consistent; and then no open socket, local or remote, points to the
  transport any more, so the transport can be deleted.
\<close>

theorem close_all_sockets_detaches:
  assumes "adb_inv g"
  shows "\<exists>g'. close_all_sockets close_socket t g = Inr g' \<and> adb_inv g'
          \<and> detached t g'"
proof -
  obtain g' where "close_all_sockets close_socket t g = Inr g'" "adb_inv g'"
    "\<forall>a \<in> set (g_local_list g'). \<not> bound_to t g' a"
    using close_all_loop_spec [OF assms, of "Suc (length (g_local_list g))" t]
    by (auto simp: close_all_sockets_def)
  then show ?thesis unfolding detached_def using unbound by metis
qed

theorem close_all_sockets_detaches_witness:
  "\<exists>a g g'. create_local_socket 3 (adb_init (os_init\<lparr>os_open := [3]\<rparr>)) = Inr (a, g) \<and> g_local_list g = [a]
     \<and> close_all_sockets close_socket 0 g = Inr g' \<and> adb_inv g' \<and> detached 0 g'"
proof -
  define h where "h = adb_init (os_init\<lparr>os_open := [3]\<rparr>)"
  have inv: "adb_inv h" unfolding h_def by (rule server_invD(2) [OF server_inv_init])
  have v: "\<forall>i e f. fde_view (g_ev h) i \<noteq> Some (3, e, f)"
    by (simp add: h_def adb_init_def fdevents_init_def fde_view_def)
  have h: "g_next_id h + 1 \<noteq> 0" "g_local_list h = []" "3 \<in> set (os_open (fd_os (g_ev h)))"
    by (simp_all add: h_def adb_init_def fdevents_init_def)
  then obtain i g where g: "create_local_socket 3 h = Inr (g_next_socket h, g)" "created_local 3 h i g"
    using create_local_socket_eq [OF inv _ v] by auto
  have "adb_inv g" by (rule inv_created_local [OF inv g(2) h(1,3)])
  from close_all_sockets_detaches [OF this, of 0] show ?thesis
    using g h(2) unfolding h_def created_local_def by auto
qed

end
