(* ===== verification/TransportFd.thy ===== *)
theory TransportFd
  imports Transport
begin

text \<open>
  The non-blocking connection of \<open>transport_fd.cpp\<close>: a thread that polls the stream and a wake-up
  descriptor, collects what it reads in one \<open>IOVector\<close> and cuts packets off its front, and writers that
  queue packets in another. A turn of \<open>Run\<close> is a function of what \<open>poll\<close> reports; \<open>Write\<close> and \<open>Stop\<close>
  of other threads happen between the turns, as both sides hold a mutex while they touch the state.
\<close>

section \<open>State\<close>

record NonblockingFdConnection =
  nb_started :: bool
  nb_running :: bool
  nb_read_header :: "amessage option"
  nb_read_buffer :: IOVector
  nb_fd :: int
  nb_wake_fd_read :: int
  nb_wake_fd_write :: int
  nb_writable :: bool
  nb_write_buffer :: IOVector

text \<open>\<open>adb_socketpair\<close>: two new descriptors, or none.\<close>

definition adb_socketpair :: "os \<Rightarrow> (int \<times> int) option \<times> os" where
  "adb_socketpair w =
     (let (a, w1) = new_fd w; (b, w2) = new_fd w1
      in if a < 0 \<or> b < 0 then (None, w\<lparr>os_new := os_new w2\<rparr>) else (Some (a, b), w2))"

definition CreateWakeFds :: "os \<Rightarrow> ((int \<times> int) \<times> os) res" where
  "CreateWakeFds w =
     (case adb_socketpair w of
        (None, _) \<Rightarrow> Inl (Abort ''0 == rc'')
      | (Some fds, w1) \<Rightarrow> Inr (fds, w1))"

definition NonblockingFdConnection_new :: "int \<Rightarrow> os \<Rightarrow> (NonblockingFdConnection \<times> os) res" where
  "NonblockingFdConnection_new fd w =
     rbind (CreateWakeFds w) (\<lambda>((r, wr), w1).
     Inr (\<lparr>nb_started = False, nb_running = False, nb_read_header = None, nb_read_buffer = IOVector_new,
           nb_fd = fd, nb_wake_fd_read = r, nb_wake_fd_write = wr, nb_writable = True,
           nb_write_buffer = IOVector_new\<rparr>, w1))"

definition SetRunning :: "bool \<Rightarrow> NonblockingFdConnection \<Rightarrow> NonblockingFdConnection" where
  "SetRunning b c = c\<lparr>nb_running := b\<rparr>"

definition IsRunning :: "NonblockingFdConnection \<Rightarrow> bool" where
  "IsRunning c = nb_running c"

section \<open>Writing\<close>

datatype WriteResult = WriteResult_Error | WriteResult_Completed | WriteResult_TryAgain

definition DispatchWrites ::
  "NonblockingFdConnection \<Rightarrow> os \<Rightarrow> (WriteResult \<times> NonblockingFdConnection \<times> os) res" where
  "DispatchWrites c w =
     rbind (check_that (\<not> IOVector_empty (nb_write_buffer c)) ''!write_buffer_.empty()'') (\<lambda>_.
     if \<not> nb_writable c then Inr (WriteResult_TryAgain, c, w)
     else
       rbind (IOVector_iovecs (nb_write_buffer c)) (\<lambda>iovs.
       case adb_writev (nb_fd c) iovs w of
         (Inl _, w1) \<Rightarrow> Inr (WriteResult_Error, c, w1)
       | (Inr rc, w1) \<Rightarrow>
           if rc = 0 then Inr (WriteResult_Error, c, w1)
           else
             rbind (IOVector_take_front rc (nb_write_buffer c)) (\<lambda>(_, rest).
             Inr (if IOVector_empty rest then WriteResult_Completed else WriteResult_TryAgain,
                  c\<lparr>nb_write_buffer := rest\<rparr>, w1))))"

definition NonblockingFdConnection_Write ::
  "apacket \<Rightarrow> NonblockingFdConnection \<Rightarrow> os \<Rightarrow> (bool \<times> NonblockingFdConnection \<times> os) res" where
  "NonblockingFdConnection_Write p c w =
     rbind (IOVector_append (Block_of (amessage_bytes (msg p))) (nb_write_buffer c)) (\<lambda>b1.
     rbind (if blk_size (payload p) \<noteq> 0 then IOVector_append (payload p) b1 else Inr b1) (\<lambda>b2.
     rbind (DispatchWrites (c\<lparr>nb_write_buffer := b2\<rparr>) w) (\<lambda>(result, c1, w1).
     Inr (result \<noteq> WriteResult_Error, c1, w1))))"

section \<open>Reading\<close>

text \<open>
  What \<open>Run\<close> does with the bytes of one successful \<open>adb_read\<close>: the packet it hands to the callback,
  if there is one.
\<close>

definition read_block :: "bytes \<Rightarrow> Block res" where
  "read_block bs =
     rbind (Block_resize MAX_PAYLOAD Block_new) (\<lambda>block.
     rbind (Block_store 0 bs block) (\<lambda>block.
     Block_resize (length bs) block))"

definition take_header :: "amessage option \<Rightarrow> IOVector \<Rightarrow> (amessage option \<times> IOVector) res" where
  "take_header hdr buf =
     (if hdr = None \<and> IOVector_size buf \<ge> 24 then
        rbind (IOVector_take_front 24 buf) (\<lambda>(head, rest).
        rbind (IOVector_coalesce head) (\<lambda>header_buf.
        rbind (check_that (24 = blk_size header_buf) ''sizeof(amessage) == header_buf.size()'') (\<lambda>_.
        Inr (Some (amessage_of (Block_bytes header_buf)), rest))))
      else Inr (hdr, buf))"

definition take_packet ::
  "amessage option \<Rightarrow> IOVector \<Rightarrow> (apacket option \<times> amessage option \<times> IOVector) res" where
  "take_packet hdr buf =
     (case hdr of
        None \<Rightarrow> Inr (None, None, buf)
      | Some m \<Rightarrow>
          if IOVector_size buf \<ge> unat (data_length m) then
            rbind (IOVector_take_front (unat (data_length m)) buf) (\<lambda>(data_chain, rest).
            rbind (IOVector_coalesce data_chain) (\<lambda>data.
            Inr (Some \<lparr>msg = m, payload = data\<rparr>, None, rest)))
          else Inr (None, Some m, buf))"

definition nb_receive ::
  "bytes \<Rightarrow> NonblockingFdConnection \<Rightarrow> (apacket option \<times> NonblockingFdConnection) res" where
  "nb_receive bs c =
     rbind (read_block bs) (\<lambda>block.
     rbind (IOVector_append block (nb_read_buffer c)) (\<lambda>buf.
     rbind (take_header (nb_read_header c) buf) (\<lambda>(hdr, buf1).
     rbind (take_packet hdr buf1) (\<lambda>(packet, hdr1, buf2).
     Inr (packet, c\<lparr>nb_read_header := hdr1, nb_read_buffer := buf2\<rparr>)))))"

section \<open>The thread\<close>

text \<open>What \<open>adb_poll\<close> returns: an error, nothing, or the \<open>revents\<close> of the stream and of the wake-up descriptor.\<close>

datatype poll_outcome = PollFailed errno | PollTimedOut | Polled u16 u16

definition poll_events :: "NonblockingFdConnection \<Rightarrow> u16" where
  "poll_events c = (if nb_writable c then POLLIN else POLLIN OR POLLOUT)"

text \<open>
  The two parts of a turn that handle the stream. \<open>Inl\<close> is the text with which \<open>Run\<close> returns.
\<close>

definition turn_writes ::
  "NonblockingFdConnection \<Rightarrow> os \<Rightarrow> (string option \<times> NonblockingFdConnection \<times> os) res" where
  "turn_writes c w =
     rbind (DispatchWrites c w) (\<lambda>(result, c1, w1).
     Inr (case result of
            WriteResult_Error \<Rightarrow> (Some ''write failed'', c1, w1)
          | WriteResult_Completed \<Rightarrow> (None, c1\<lparr>nb_writable := True\<rparr>, w1)
          | WriteResult_TryAgain \<Rightarrow> (None, c1, w1)))"

definition turn_reads ::
  "NonblockingFdConnection \<Rightarrow> os \<Rightarrow> (string option \<times> apacket option \<times> NonblockingFdConnection \<times> os) res" where
  "turn_reads c w =
     (case adb_read (nb_fd c) MAX_PAYLOAD w of
        (Inl e, w1) \<Rightarrow> Inr (Some (''read failed: '' @ strerror e), None, c, w1)
      | (Inr bs, w1) \<Rightarrow>
          if bs = [] then Inr (Some ''read failed: EOF'', None, c, w1)
          else rbind (nb_receive bs c) (\<lambda>(packet, c1). Inr (None, packet, c1, w1)))"

definition turn_wakes :: "u16 \<Rightarrow> NonblockingFdConnection \<Rightarrow> os \<Rightarrow> os res" where
  "turn_wakes r1 c w =
     (if r1 = 0 then Inr w
      else case adb_read (nb_wake_fd_read c) 8 w of
             (Inr bs, w1) \<Rightarrow> rbind (check_that (length bs = 8) ''sizeof(buf) == rc'') (\<lambda>_. Inr w1)
           | (Inl _, w1) \<Rightarrow> Inl (Abort ''sizeof(buf) == rc''))"

definition Run_turn ::
  "poll_outcome \<Rightarrow> NonblockingFdConnection \<Rightarrow> os
   \<Rightarrow> (string option \<times> apacket option \<times> NonblockingFdConnection \<times> os) res" where
  "Run_turn polled c w =
     (case polled of
        PollFailed e \<Rightarrow> Inr (Some (''poll failed: '' @ strerror e), None, c, w)
      | PollTimedOut \<Rightarrow> Inl (Abort ''poll timed out with an infinite timeout?'')
      | Polled r0 r1 \<Rightarrow>
          rbind (if has r0 POLLOUT then turn_writes c w else Inr (None, c, w)) (\<lambda>(e1, c1, w1).
          if e1 \<noteq> None then Inr (e1, None, c1, w1)
          else
            rbind (if has r0 POLLIN then turn_reads c1 w1 else Inr (None, None, c1, w1)) (\<lambda>(e2, packet, c2, w2).
            if e2 \<noteq> None then Inr (e2, packet, c2, w2)
            else rbind (turn_wakes r1 c2 w2) (\<lambda>w3. Inr (None, packet, c2, w3)))))"

text \<open>
  \<open>Run\<close>: the loop over the outcomes of \<open>poll\<close>, with the packets handed to \<open>read_callback_\<close>. It returns
  the text for \<open>error_callback_\<close>, or \<open>None\<close> while it is still waiting for the next outcome.
\<close>

fun Run_loop ::
  "poll_outcome list \<Rightarrow> NonblockingFdConnection \<Rightarrow> os
   \<Rightarrow> (string option \<times> apacket list \<times> NonblockingFdConnection \<times> os) res" where
  "Run_loop ps c w =
     (if \<not> IsRunning c then Inr (Some ''connection closed'', [], c, w)
      else case ps of
             [] \<Rightarrow> Inr (None, [], c, w)
           | p # ps' \<Rightarrow>
               rbind (Run_turn p c w) (\<lambda>(e, packet, c1, w1).
               if e \<noteq> None then Inr (e, case_option [] (\<lambda>x. [x]) packet, c1, w1)
               else rbind (Run_loop ps' c1 w1) (\<lambda>(e', qs, c2, w2).
                    Inr (e', case_option [] (\<lambda>x. [x]) packet @ qs, c2, w2))))"

declare Run_loop.simps [simp del]

definition Run ::
  "poll_outcome list \<Rightarrow> NonblockingFdConnection \<Rightarrow> os
   \<Rightarrow> (string option \<times> apacket list \<times> NonblockingFdConnection \<times> os) res" where
  "Run ps c w = Run_loop ps (SetRunning True c) w"

definition NonblockingFdConnection_Start :: "NonblockingFdConnection \<Rightarrow> NonblockingFdConnection res" where
  "NonblockingFdConnection_Start c =
     rbind (check_that (\<not> nb_started c) ''Connection started multiple times?'') (\<lambda>_.
     Inr (c\<lparr>nb_started := True\<rparr>))"

text \<open>\<open>TEMP_FAILURE_RETRY\<close> repeats on \<open>EINTR\<close>, which the descriptors here do not report.\<close>

definition WakeThread :: "NonblockingFdConnection \<Rightarrow> os \<Rightarrow> os res" where
  "WakeThread c w =
     (case adb_write (nb_wake_fd_write c) (replicate 8 NUL) w of
        (Inr n, w1) \<Rightarrow> rbind (check_that (n = 8) ''failed to wake up thread'') (\<lambda>_. Inr w1)
      | (Inl _, w1) \<Rightarrow> Inl (Abort ''failed to wake up thread''))"

text \<open>\<open>Stop\<close> up to the join of the thread.\<close>

definition NonblockingFdConnection_Stop ::
  "NonblockingFdConnection \<Rightarrow> os \<Rightarrow> (NonblockingFdConnection \<times> os) res" where
  "NonblockingFdConnection_Stop c w =
     (let c1 = SetRunning False c in rbind (WakeThread c1 w) (\<lambda>w1. Inr (c1, w1)))"

section \<open>The read side is a packet decoder\<close>

text \<open>The first packet of a byte stream, if all of it has arrived, and the rest of the stream.\<close>

definition next_packet :: "bytes \<Rightarrow> apacket option \<times> bytes" where
  "next_packet s =
     (let m = amessage_of (take 24 s); n = 24 + unat (data_length m)
      in if length s < 24 \<or> length s < n then (None, s)
         else (Some \<lparr>msg = m, payload = Block_of (take (n - 24) (drop 24 s))\<rparr>, drop n s))"

text \<open>The bytes a connection has read and not yet handed out.\<close>

definition pending_bytes :: "NonblockingFdConnection \<Rightarrow> bytes" where
  "pending_bytes c =
     (case nb_read_header c of None \<Rightarrow> [] | Some m \<Rightarrow> amessage_bytes m) @ IOVector_bytes (nb_read_buffer c)"

definition nb_inv :: "NonblockingFdConnection \<Rightarrow> bool" where
  "nb_inv c \<longleftrightarrow> IOVector_inv (nb_read_buffer c) \<and> end_offset (nb_read_buffer c) = 0
     \<and> IOVector_inv (nb_write_buffer c) \<and> end_offset (nb_write_buffer c) = 0 \<and> nb_writable c"

lemma read_block_of:
  assumes "length bs \<le> MAX_PAYLOAD" "bs \<noteq> []"
  shows "\<exists>b. read_block bs = Inr b \<and> Block_inv b \<and> Block_bytes b = bs \<and> blk_size b = length bs"
proof -
  have m: "MAX_PAYLOAD \<noteq> 0" by (simp add: MAX_PAYLOAD_def)
  define d where "d = bs @ drop (length bs) (replicate MAX_PAYLOAD NUL)"
  have d: "d \<noteq> []" "length d = MAX_PAYLOAD" "take (length bs) d = bs" using assms by (simp_all add: d_def)
  have "read_block bs = Block_resize (length bs) (Block_of d)"
    using assms by (simp add: read_block_def Block_resize_new Block_store_of d_def m)
  moreover obtain b where b: "Block_resize (length bs) (Block_of d) = Inr b" "Block_inv b"
    "Block_bytes b = take (length bs) (Block_bytes (Block_of d))"
    using Block_resize_shrink [of "Block_of d" "length bs"] d assms by auto
  ultimately show ?thesis using d(3) length_Block_bytes [OF b(2)] by auto
qed

lemma le_nat_inj: "length xs = length ys \<Longrightarrow> le_nat xs = le_nat ys \<Longrightarrow> xs = ys"
proof (induction xs ys rule: list_induct2)
  case (Cons x xs y ys)
  have aux: "a = b \<and> u = v" if "a + 256 * u = b + 256 * v" "a < 256" "b < 256" for a b u v :: nat
  proof -
    have "(a + 256 * u) mod 256 = a" "(b + 256 * v) mod 256 = b" using that(2,3) by simp_all
    then have "a = b" using that(1) by simp
    then show ?thesis using that(1) by simp
  qed
  have "of_char x = (of_char y :: nat) \<and> le_nat xs = le_nat ys"
    using Cons.prems by (intro aux nat_of_char_less_256) simp
  then show ?case using Cons.IH by simp
qed simp

lemma le32_of_le32: "4 \<le> length bs \<Longrightarrow> le32 (of_le32 bs) = take 4 bs"
proof -
  assume "4 \<le> length bs"
  then have "unat (of_le32 (take 4 bs)) = le_nat (take 4 bs)" "of_le32 (take 4 bs) = of_le32 bs"
    by (simp add: unat_of_le32) (simp add: of_le32_def)
  then show ?thesis using \<open>4 \<le> length bs\<close> by (intro le_nat_inj) simp_all
qed

lemma amessage_bytes_of: "length bs = 24 \<Longrightarrow> amessage_bytes (amessage_of bs) = bs"
proof -
  assume l: "length bs = 24"
  have t: "take 4 (drop k bs) @ drop (k + 4) bs = drop k bs" for k by (rule take_drop_mid)
  show ?thesis
    using l t [of 0] t [of 4] t [of 8] t [of 12] t [of 16] t [of 20]
    by (simp add: amessage_bytes_def amessage_of_def le32_of_le32)
qed

text \<open>Taking the header and then the packet is taking the next packet of the pending bytes.\<close>

lemma take_header_bytes:
  assumes "IOVector_inv buf" "end_offset buf = 0"
  shows "\<exists>hdr' buf'. take_header hdr buf = Inr (hdr', buf') \<and> IOVector_inv buf' \<and> end_offset buf' = 0
    \<and> case_option [] amessage_bytes hdr' @ IOVector_bytes buf' = case_option [] amessage_bytes hdr @ IOVector_bytes buf
    \<and> (hdr' = None \<longrightarrow> length (IOVector_bytes buf') < 24)"
proof (cases "hdr = None \<and> IOVector_size buf \<ge> 24")
  case True
  then obtain head rest where h: "IOVector_take_front 24 buf = Inr (head, rest)" "IOVector_inv head" "IOVector_inv rest"
    "IOVector_bytes head = take 24 (IOVector_bytes buf)" "IOVector_bytes rest = drop 24 (IOVector_bytes buf)"
    "end_offset rest = 0"
    using IOVector_take_front_spec [OF assms(1), of 24] assms(2) by auto
  have l: "length (IOVector_bytes buf) \<ge> 24" using True assms by simp
  show ?thesis
    using True h l by (simp add: take_header_def IOVector_coalesce_spec amessage_bytes_of)
next
  case False
  then show ?thesis using assms by (auto simp: take_header_def)
qed

lemma take_packet_bytes:
  assumes "IOVector_inv buf" "end_offset buf = 0" "hdr = None \<longrightarrow> length (IOVector_bytes buf) < 24"
  shows "\<exists>hdr' buf'. take_packet hdr buf =
      Inr (fst (next_packet (case_option [] amessage_bytes hdr @ IOVector_bytes buf)), hdr', buf')
    \<and> IOVector_inv buf' \<and> end_offset buf' = 0
    \<and> case_option [] amessage_bytes hdr' @ IOVector_bytes buf'
        = snd (next_packet (case_option [] amessage_bytes hdr @ IOVector_bytes buf))"
proof (cases hdr)
  case None
  then show ?thesis using assms by (simp add: take_packet_def next_packet_def Let_def)
next
  case (Some m)
  show ?thesis
  proof (cases "IOVector_size buf \<ge> unat (data_length m)")
    case True
    then obtain head rest where h: "IOVector_take_front (unat (data_length m)) buf = Inr (head, rest)"
      "IOVector_inv head" "IOVector_inv rest" "IOVector_bytes head = take (unat (data_length m)) (IOVector_bytes buf)"
      "IOVector_bytes rest = drop (unat (data_length m)) (IOVector_bytes buf)" "end_offset rest = 0"
      using IOVector_take_front_spec [OF assms(1)] assms(2) by metis
    then show ?thesis
      using Some True assms(1) by (simp add: take_packet_def next_packet_def Let_def IOVector_coalesce_spec)
  next
    case False
    then show ?thesis using Some assms by (simp add: take_packet_def next_packet_def Let_def)
  qed
qed

lemma nb_receive_step:
  assumes "nb_inv c" "bs \<noteq> []" "length bs \<le> MAX_PAYLOAD"
  shows "\<exists>c'. nb_receive bs c = Inr (fst (next_packet (pending_bytes c @ bs)), c')
    \<and> nb_inv c' \<and> pending_bytes c' = snd (next_packet (pending_bytes c @ bs))
    \<and> nb_write_buffer c' = nb_write_buffer c"
proof -
  note inv = assms(1) [unfolded nb_inv_def]
  obtain b where b: "read_block bs = Inr b" "Block_inv b" "Block_bytes b = bs" "blk_size b = length bs"
    using read_block_of assms(2,3) by blast
  obtain buf where buf: "IOVector_append b (nb_read_buffer c) = Inr buf" "IOVector_inv buf" "end_offset buf = 0"
    "IOVector_bytes buf = IOVector_bytes (nb_read_buffer c) @ bs"
    using IOVector_append_spec [of "nb_read_buffer c" b] inv b assms(2) by auto
  obtain hdr buf1 where h: "take_header (nb_read_header c) buf = Inr (hdr, buf1)" "IOVector_inv buf1" "end_offset buf1 = 0"
    "case_option [] amessage_bytes hdr @ IOVector_bytes buf1 = pending_bytes c @ bs"
    "hdr = None \<longrightarrow> length (IOVector_bytes buf1) < 24"
    using take_header_bytes [OF buf(2,3), of "nb_read_header c"] buf(4) by (auto simp: pending_bytes_def)
  obtain hdr' buf' where p: "take_packet hdr buf1 = Inr (fst (next_packet (pending_bytes c @ bs)), hdr', buf')"
    "IOVector_inv buf'" "end_offset buf' = 0"
    "case_option [] amessage_bytes hdr' @ IOVector_bytes buf' = snd (next_packet (pending_bytes c @ bs))"
    using take_packet_bytes [OF h(2,3,5)] h(4) by auto
  show ?thesis
    using inv b(1) buf(1) h(1) p by (simp add: nb_receive_def) (simp add: nb_inv_def pending_bytes_def)
qed



definition nb_example :: NonblockingFdConnection where
  "nb_example = \<lparr>nb_started = True, nb_running = True, nb_read_header = None, nb_read_buffer = IOVector_new,
     nb_fd = 3, nb_wake_fd_read = 4, nb_wake_fd_write = 5, nb_writable = True, nb_write_buffer = IOVector_new\<rparr>"

lemma nb_inv_example: "nb_inv nb_example"
  by (simp add: nb_inv_def nb_example_def)

lemma pending_example: "pending_bytes nb_example = []"
  by (simp add: pending_bytes_def nb_example_def)

definition nb_packet :: apacket where
  "nb_packet = \<lparr>msg = \<lparr>command = A_OKAY, arg0 = 1, arg1 = 2, data_length = 2, data_check = 0, magic = 0\<rparr>,
     payload = Block_of ''hi''\<rparr>"

lemma next_packet_stream:
  assumes "Block_inv (payload p)" "unat (data_length (msg p)) = blk_size (payload p)"
  shows "next_packet (packet_bytes p @ s) = (Some (p\<lparr>payload := Block_of (Block_bytes (payload p))\<rparr>), s)"
  using assms by (cases p) (simp add: next_packet_def packet_bytes_def Let_def)


section \<open>The write side keeps the order\<close>

lemma DispatchWrites_spec:
  assumes "nb_inv c" "IOVector_bytes (nb_write_buffer c) \<noteq> []"
  shows "\<exists>r rest w'. DispatchWrites c w = Inr (r, c\<lparr>nb_write_buffer := rest\<rparr>, w')
    \<and> IOVector_inv rest \<and> end_offset rest = 0 \<and> os_reads w' = os_reads w
    \<and> os_written w' (nb_fd c) @ IOVector_bytes rest = os_written w (nb_fd c) @ IOVector_bytes (nb_write_buffer c)
    \<and> (r = WriteResult_Completed \<longleftrightarrow> IOVector_bytes rest = [])"
proof -
  define b where "b = nb_write_buffer c"
  have inv: "IOVector_inv b" "end_offset b = 0" "nb_writable c" "IOVector_bytes b \<noteq> []"
    using assms by (simp_all add: nb_inv_def b_def)
  obtain iovs where iovs: "IOVector_iovecs b = Inr iovs" "concat iovs = IOVector_bytes b"
    using IOVector_iovecs_spec [OF inv(1)] by blast
  have same: "c\<lparr>nb_write_buffer := b\<rparr> = c" by (simp add: b_def)
  obtain r w1 where w: "adb_writev (nb_fd c) iovs w = (r, w1)" by fastforce
  note fr = adb_write_frame [OF w [unfolded adb_writev_def]]
  show ?thesis
  proof (cases r)
    case (Inl e)
    have "os_written w1 = os_written w" using w Inl by (auto simp: adb_writev_def dest: adb_write_Inl)
    then show ?thesis
      using inv iovs w Inl fr(1) same
      by (intro exI [of _ WriteResult_Error] exI [of _ b] exI [of _ w1])
        (simp add: DispatchWrites_def b_def [symmetric] IOVector_empty_iff)
  next
    case (Inr n)
    have n: "n \<le> length (IOVector_bytes b)" "os_written w1 (nb_fd c) = os_written w (nb_fd c) @ take n (IOVector_bytes b)"
      using adb_write_Inr [of "nb_fd c" "concat iovs" w n w1] w Inr iovs(2) by (auto simp: adb_writev_def)
    show ?thesis
    proof (cases "n = 0")
      case True
      then show ?thesis
        using inv iovs w Inr fr(1) same n
        by (intro exI [of _ WriteResult_Error] exI [of _ b] exI [of _ w1])
          (simp add: DispatchWrites_def b_def [symmetric] IOVector_empty_iff)
    next
      case False
      obtain h rest where t: "IOVector_take_front n b = Inr (h, rest)" "IOVector_inv rest"
        "IOVector_bytes rest = drop n (IOVector_bytes b)" "end_offset rest = 0"
        using IOVector_take_front_spec [OF inv(1), of n] n(1) inv(1,2) by auto
      show ?thesis
        using inv iovs w Inr fr(1) n t False
        by (intro exI [of _ "if IOVector_bytes rest = [] then WriteResult_Completed else WriteResult_TryAgain"]
              exI [of _ rest] exI [of _ w1])
          (simp add: DispatchWrites_def b_def [symmetric] IOVector_empty_iff)
    qed
  qed
qed

lemma Write_spec:
  assumes "nb_inv c" "Block_inv (payload p)"
  shows "\<exists>ok rest w'. NonblockingFdConnection_Write p c w = Inr (ok, c\<lparr>nb_write_buffer := rest\<rparr>, w')
    \<and> IOVector_inv rest \<and> end_offset rest = 0 \<and> os_reads w' = os_reads w
    \<and> os_written w' (nb_fd c) @ IOVector_bytes rest
        = os_written w (nb_fd c) @ IOVector_bytes (nb_write_buffer c) @ packet_bytes p"
proof -
  define b where "b = nb_write_buffer c"
  have inv: "IOVector_inv b" "end_offset b = 0" using assms(1) by (simp_all add: nb_inv_def b_def)
  obtain b1 where b1: "IOVector_append (Block_of (amessage_bytes (msg p))) b = Inr b1" "IOVector_inv b1" "end_offset b1 = 0"
    "IOVector_bytes b1 = IOVector_bytes b @ amessage_bytes (msg p)"
    using IOVector_append_spec [OF inv(1) _ _ inv(2), of "Block_of (amessage_bytes (msg p))"] by auto
  have "\<exists>b2. (if blk_size (payload p) \<noteq> 0 then IOVector_append (payload p) b1 else Inr b1) = Inr b2
      \<and> IOVector_inv b2 \<and> end_offset b2 = 0 \<and> IOVector_bytes b2 = IOVector_bytes b @ packet_bytes p"
    using IOVector_append_spec [OF b1(2) assms(2) _ b1(3)] b1 length_Block_bytes [OF assms(2)]
    by (auto simp: packet_bytes_def)
  then obtain b2 where b2: "(if blk_size (payload p) \<noteq> 0 then IOVector_append (payload p) b1 else Inr b1) = Inr b2"
      "IOVector_inv b2" "end_offset b2 = 0" "IOVector_bytes b2 = IOVector_bytes b @ packet_bytes p" by blast
  define c2 where "c2 = c\<lparr>nb_write_buffer := b2\<rparr>"
  have "nb_inv c2" "IOVector_bytes (nb_write_buffer c2) \<noteq> []"
    using assms(1) b2 length_amessage_bytes [of "msg p"] by (auto simp: nb_inv_def c2_def packet_bytes_def simp del: length_amessage_bytes)
  from DispatchWrites_spec [OF this, of w] obtain r rest w' where d:
    "DispatchWrites c2 w = Inr (r, c2\<lparr>nb_write_buffer := rest\<rparr>, w')" "IOVector_inv rest" "end_offset rest = 0"
    "os_reads w' = os_reads w"
    "os_written w' (nb_fd c) @ IOVector_bytes rest = os_written w (nb_fd c) @ IOVector_bytes b @ packet_bytes p"
    using b2(4) by (auto simp: c2_def)
  then show ?thesis
    using b1(1) b2(1)
    by (intro exI [of _ "r \<noteq> WriteResult_Error"] exI [of _ rest] exI [of _ w'])
      (simp add: NonblockingFdConnection_Write_def b_def [symmetric] c2_def)
qed


text \<open>
  The connection at work: turns of its thread, in which \<open>poll\<close> reports of \<open>POLLOUT\<close> only what it was
  asked for, writes of packets, and a stop, in any order. The index is what has been written.
\<close>

definition polled_ok :: "poll_outcome \<Rightarrow> NonblockingFdConnection \<Rightarrow> bool" where
  "polled_ok p c \<longleftrightarrow> (case p of Polled r0 _ \<Rightarrow> has r0 POLLOUT \<longrightarrow> has (poll_events c) POLLOUT | _ \<Rightarrow> True)"

inductive nb_reachable :: "int \<Rightarrow> os \<Rightarrow> bytes \<Rightarrow> NonblockingFdConnection \<Rightarrow> os \<Rightarrow> bool" for fd w0 where
  new: "NonblockingFdConnection_new fd w0 = Inr (c, w) \<Longrightarrow> nb_reachable fd w0 [] c w"
| turn: "nb_reachable fd w0 out c w \<Longrightarrow> polled_ok p c \<Longrightarrow> Run_turn p c w = Inr (e, packet, c', w')
    \<Longrightarrow> nb_reachable fd w0 out c' w'"
| written: "nb_reachable fd w0 out c w \<Longrightarrow> Block_inv (payload p) \<Longrightarrow> NonblockingFdConnection_Write p c w = Inr (ok, c', w')
    \<Longrightarrow> nb_reachable fd w0 (out @ packet_bytes p) c' w'"
| stop: "nb_reachable fd w0 out c w \<Longrightarrow> NonblockingFdConnection_Stop c w = Inr (c', w')
    \<Longrightarrow> nb_reachable fd w0 out c' w'"

lemma poll_events_in: "nb_inv c \<Longrightarrow> \<not> has (poll_events c) POLLOUT"
  by (simp add: nb_inv_def poll_events_def has_def POLLIN_def POLLOUT_def)

text \<open>A turn keeps the write buffer, the descriptors and what was written.\<close>

definition same_writes :: "NonblockingFdConnection \<Rightarrow> os \<Rightarrow> NonblockingFdConnection \<Rightarrow> os \<Rightarrow> bool" where
  "same_writes c w c' w' \<longleftrightarrow> nb_write_buffer c' = nb_write_buffer c \<and> nb_fd c' = nb_fd c
     \<and> nb_wake_fd_write c' = nb_wake_fd_write c \<and> os_written w' = os_written w"

lemma turn_reads_same:
  assumes "nb_inv c" "turn_reads c w = Inr (e, packet, c', w')"
  shows "nb_inv c' \<and> same_writes c w c' w'"
proof -
  obtain r w1 where r: "adb_read (nb_fd c) MAX_PAYLOAD w = (r, w1)" by fastforce
  show ?thesis
  proof (cases "\<exists>bs. r = Inr bs \<and> bs \<noteq> []")
    case True
    then obtain bs where bs: "r = Inr bs" "bs \<noteq> []" by blast
    obtain c1 where c1: "nb_receive bs c = Inr (packet, c1)" "c' = c1" "w' = w1"
      using assms(2) r bs by (auto simp: turn_reads_def)
    have "nb_inv c'"
      using nb_receive_step [OF assms(1) bs(2)] adb_read_length [OF r [unfolded bs(1)]] c1 by auto
    moreover have "same_writes c w c' w'"
      using c1 adb_read_frame(2) [OF r] by (auto simp: same_writes_def nb_receive_def)
    ultimately show ?thesis by simp
  next
    case False
    then have "c' = c" "w' = w1" using assms(2) r by (auto simp: turn_reads_def split: sum.splits if_splits)
    then show ?thesis using assms(1) adb_read_frame(2) [OF r] by (simp add: same_writes_def)
  qed
qed

lemma turn_wakes_same: "turn_wakes r1 c w = Inr w' \<Longrightarrow> os_written w' = os_written w"
  by (auto simp: turn_wakes_def dest: adb_read_frame(2) split: if_splits prod.splits sum.splits)

lemma Run_turn_same:
  assumes "nb_inv c" "polled_ok p c" "Run_turn p c w = Inr (e, packet, c', w')"
  shows "nb_inv c' \<and> same_writes c w c' w'"
proof (cases p)
  case (Polled r0 r1)
  have out: "\<not> has r0 POLLOUT" using assms(2) poll_events_in [OF assms(1)] Polled by (auto simp: polled_ok_def)
  define t where "t = (if has r0 POLLIN then turn_reads c w else Inr (None, None, c, w))"
  have t: "rbind t (\<lambda>(e2, packet, c2, w2). if e2 \<noteq> None then Inr (e2, packet, c2, w2)
            else rbind (turn_wakes r1 c2 w2) (\<lambda>w3. Inr (None, packet, c2, w3))) = Inr (e, packet, c', w')"
    using assms(3) Polled out by (simp add: Run_turn_def t_def)
  then obtain e2 q c2 w2 where q: "t = Inr (e2, q, c2, w2)" by auto
  have s: "nb_inv c2 \<and> same_writes c w c2 w2"
    using q turn_reads_same [OF assms(1)] assms(1) by (auto simp: t_def same_writes_def split: if_splits)
  have "c' = c2" "os_written w' = os_written w2"
    using t q by (auto dest: turn_wakes_same split: if_splits)
  then show ?thesis using s by (simp add: same_writes_def)
qed (use assms in \<open>auto simp: Run_turn_def same_writes_def\<close>)

lemma Stop_same:
  assumes "nb_inv c" "nb_wake_fd_write c \<noteq> nb_fd c" "NonblockingFdConnection_Stop c w = Inr (c', w')"
  shows "nb_inv c' \<and> nb_write_buffer c' = nb_write_buffer c \<and> nb_fd c' = nb_fd c
     \<and> nb_wake_fd_write c' = nb_wake_fd_write c \<and> os_written w' (nb_fd c) = os_written w (nb_fd c)"
  using assms assms(2) [symmetric]
  by (auto simp: NonblockingFdConnection_Stop_def WakeThread_def SetRunning_def nb_inv_def Let_def
      dest: adb_write_frame(5) split: prod.splits sum.splits)

lemma new_fd_fresh: "new_fd w = (fd, w') \<Longrightarrow> 0 \<le> fd \<Longrightarrow> fd \<notin> set (os_open w) \<and> os_written w' = os_written w
    \<and> set (os_open w) \<subseteq> set (os_open w')"
  by (auto simp: new_fd_def split: list.splits if_splits)

lemma nb_new:
  assumes "fd \<in> set (os_open w)" "NonblockingFdConnection_new fd w = Inr (c, w')"
  shows "nb_inv c \<and> nb_wake_fd_write c \<noteq> nb_fd c \<and> nb_fd c = fd \<and> IOVector_bytes (nb_write_buffer c) = []
    \<and> os_written w' = os_written w"
  using assms
  by (auto simp: NonblockingFdConnection_new_def CreateWakeFds_def adb_socketpair_def nb_inv_def Let_def
      dest!: new_fd_fresh split: prod.splits option.splits if_splits)

text \<open>
  Property C28. The write side loses nothing and reorders nothing, with any short or failed writes and any
  interleaving of turns, writes and stops: what the peer was sent, followed by what is still queued, is
  exactly the packets in the order of the calls of \<open>Write\<close>; and the next \<open>Write\<close> fails no check.
\<close>

theorem nb_writes_in_order:
  assumes "nb_reachable fd w0 out c w" "fd \<in> set (os_open w0)" "Block_inv (payload p)"
  shows "os_written w fd @ IOVector_bytes (nb_write_buffer c) = os_written w0 fd @ out
    \<and> (\<exists>r. NonblockingFdConnection_Write p c w = Inr r)"
proof -
  have "nb_inv c \<and> nb_wake_fd_write c \<noteq> nb_fd c \<and> nb_fd c = fd
      \<and> os_written w fd @ IOVector_bytes (nb_write_buffer c) = os_written w0 fd @ out"
    using assms(1)
  proof induction
    case (new c w)
    then show ?case using nb_new [OF assms(2) new] by simp
  next
    case (turn out c w p e packet c' w')
    then show ?case using Run_turn_same [of c p w e packet c' w'] by (auto simp: same_writes_def)
  next
    case (written out c w p ok c' w')
    obtain ok1 rest w1 where wr: "NonblockingFdConnection_Write p c w = Inr (ok1, c\<lparr>nb_write_buffer := rest\<rparr>, w1)"
      "IOVector_inv rest" "end_offset rest = 0"
      "os_written w1 (nb_fd c) @ IOVector_bytes rest = os_written w (nb_fd c) @ IOVector_bytes (nb_write_buffer c) @ packet_bytes p"
      using Write_spec [of c p w] written by auto
    then have "c' = c\<lparr>nb_write_buffer := rest\<rparr>" "w' = w1" using written(3) by simp_all
    then show ?case using written wr by (auto simp: nb_inv_def)
  next
    case (stop out c w c' w')
    then show ?case using Stop_same [of c w c' w'] by auto
  qed
  then show ?thesis using Write_spec [of c p w] assms(3) by auto
qed


theorem nb_writes_in_order_witness:
  "case NonblockingFdConnection_new 3 (os_init\<lparr>os_open := [3], os_new := [4, 5], os_writes := (\<lambda>_. [WTake 10])\<rparr>) of
     Inr (c, w) \<Rightarrow>
       (case NonblockingFdConnection_Write nb_packet c w of
          Inr (ok, c1, w1) \<Rightarrow>
            os_written w1 3 @ IOVector_bytes (nb_write_buffer c1) = packet_bytes nb_packet
            \<and> (\<exists>r. NonblockingFdConnection_Write nb_packet c1 w1 = Inr r)
        | Inl _ \<Rightarrow> False)
   | Inl _ \<Rightarrow> False"
proof -
  define w0 where "w0 = os_init\<lparr>os_open := [3], os_new := [4, 5], os_writes := (\<lambda>_. [WTake 10])\<rparr>"
  define w where "w = w0\<lparr>os_open := [5, 4, 3], os_new := []\<rparr>"
  define c where "c = nb_example\<lparr>nb_started := False, nb_running := False\<rparr>"
  have n: "NonblockingFdConnection_new 3 w0 = Inr (c, w)"
    by (simp add: NonblockingFdConnection_new_def CreateWakeFds_def adb_socketpair_def new_fd_def w0_def w_def c_def
        nb_example_def os_init_def)
  have b: "Block_inv (payload nb_packet)" by (simp add: nb_packet_def)
  have "nb_inv c" by (simp add: c_def nb_example_def nb_inv_def)
  then obtain ok c1 w1 where x: "NonblockingFdConnection_Write nb_packet c w = Inr (ok, c1, w1)"
    using Write_spec [OF _ b] by blast
  have r: "nb_reachable 3 w0 ([] @ packet_bytes nb_packet) c1 w1"
    by (rule nb_reachable.written [OF nb_reachable.new [OF n] b x])
  have "3 \<in> set (os_open w0)" "os_written w0 3 = []" by (simp_all add: w0_def os_init_def)
  then show ?thesis using nb_writes_in_order [OF r _ b] n x by (simp add: w0_def [symmetric])
qed

section \<open>What the thread leaves undone\<close>

text \<open>
  A read that brings more than one packet hands out the first one only: the second stays in the buffer,
  complete, until the peer sends something else.
\<close>

theorem nb_second_packet_waits:
  assumes "nb_inv c" "pending_bytes c = []" "packet_ok p" "packet_ok q"
    "length (packet_bytes p @ packet_bytes q) \<le> MAX_PAYLOAD"
  shows "\<exists>c'. nb_receive (packet_bytes p @ packet_bytes q) c = Inr (Some (p\<lparr>payload := Block_of (Block_bytes (payload p))\<rparr>), c')
    \<and> pending_bytes c' = packet_bytes q \<and> fst (next_packet (pending_bytes c')) \<noteq> None"
proof -
  have "packet_bytes p @ packet_bytes q \<noteq> []" using length_amessage_bytes [of "msg p"]
    by (auto simp: packet_bytes_def simp del: length_amessage_bytes)
  from nb_receive_step [OF assms(1) this assms(5)] show ?thesis
    using next_packet_stream [of p "packet_bytes q"] next_packet_stream [of q "[]"] assms(2-4)
    by (auto simp: packet_ok_def)
qed

text \<open>
  \<open>writable_\<close> is never cleared, so the thread never asks for \<open>POLLOUT\<close>, and what a short write left over
  stays in the queue however long the thread runs, until somebody writes another packet.
\<close>

theorem nb_short_write_waits:
  assumes "nb_inv c" "polled_ok p c" "Run_turn p c w = Inr (e, packet, c', w')"
  shows "\<not> has (poll_events c) POLLOUT \<and> nb_write_buffer c' = nb_write_buffer c \<and> os_written w' = os_written w"
  using Run_turn_same [OF assms] poll_events_in [OF assms(1)] by (simp add: same_writes_def)

end
