(* ===== verification/Refinement.thy ===== *)
theory Refinement
  imports Prelude
begin

text \<open>
  Objects with operations that return a result, and the simulation of a detailed object by a
  reference object: step for step the same results.
\<close>

fun run_ops :: "('op \<Rightarrow> 's \<Rightarrow> 'r \<times> 's) \<Rightarrow> 'op list \<Rightarrow> 's \<Rightarrow> 'r list \<times> 's" where
  "run_ops step [] s = ([], s)"
| "run_ops step (op # ops) s =
     (case step op s of (r, s1) \<Rightarrow> case run_ops step ops s1 of (rs, s2) \<Rightarrow> (r # rs, s2))"

lemma run_ops_append:
  "run_ops step (xs @ ys) s =
     (case run_ops step xs s of (rs, s1) \<Rightarrow> case run_ops step ys s1 of (rs', s2) \<Rightarrow> (rs @ rs', s2))"
  by (induction xs arbitrary: s) (simp_all split: prod.splits)

locale simulation =
  fixes cstep :: "'op \<Rightarrow> 'c \<Rightarrow> 'r \<times> 'c"
    and astep :: "'op \<Rightarrow> 'a \<Rightarrow> 'r \<times> 'a"
    and rel :: "'c \<Rightarrow> 'a \<Rightarrow> bool"
  assumes step: "rel c a \<Longrightarrow> fst (cstep op c) = fst (astep op a) \<and> rel (snd (cstep op c)) (snd (astep op a))"
begin

lemma run:
  assumes "rel c a"
  shows "fst (run_ops cstep ops c) = fst (run_ops astep ops a)
    \<and> rel (snd (run_ops cstep ops c)) (snd (run_ops astep ops a))"
  using assms
proof (induction ops arbitrary: c a)
  case (Cons op ops)
  show ?case
    using step [OF Cons.prems, of op] Cons.IH [of "snd (cstep op c)" "snd (astep op a)"]
    by (simp add: case_prod_beta)
qed simp

end

end
