(* ===== verification/Hashmap.thy ===== *)
theory Hashmap
  imports Refinement "HOL-Library.Multiset"
begin

text \<open>
  The chained hash table of \<open>libcutils/hashmap.c\<close>. A bucket is the list of the entries its chain links;
  keys are the pointers the caller passes, with the caller's \<open>hash\<close> and \<open>equals\<close> on what they point to;
  a value is a \<open>void*\<close>, \<open>None\<close> for a null pointer. Whether \<open>malloc\<close> and \<open>calloc\<close> succeed is an argument;
  a \<open>calloc\<close> of more bytes than the address space has always fails. The arithmetic of the hash is that of
  32-bit two's complement. The table is shown to behave as a dictionary for every sequence of calls.
\<close>

section \<open>State\<close>

record ('k, 'v) Entry =
  e_key :: 'k
  e_hash :: u32
  e_value :: "'v option"

record ('k, 'v) Hashmap =
  hm_buckets :: "('k, 'v) Entry list list"
  hm_bucketCount :: u64
  hm_hash :: "'k \<Rightarrow> u32"
  hm_equals :: "'k \<Rightarrow> 'k \<Rightarrow> bool"
  hm_size :: u64

section \<open>Operations\<close>

definition calloc_ptrs :: "bool \<Rightarrow> u64 \<Rightarrow> bool" where
  "calloc_ptrs mem n \<longleftrightarrow> mem \<and> 8 * unat n < 2 ^ 64"

text \<open>The loop that chooses the number of buckets; for a minimum of \<open>2^63\<close> or more it would not end.\<close>

partial_function (option) bucket_count_loop :: "u64 \<Rightarrow> u64 \<Rightarrow> u64 option" where
  "bucket_count_loop minimum n = (if n \<le> minimum then bucket_count_loop minimum (push_bit 1 n) else Some n)"

declare bucket_count_loop.simps [code]

definition hashmapCreate ::
  "bool \<Rightarrow> bool \<Rightarrow> u64 \<Rightarrow> ('k \<Rightarrow> u32) \<Rightarrow> ('k \<Rightarrow> 'k \<Rightarrow> bool) \<Rightarrow> ('k, 'v) Hashmap option option" where
  "hashmapCreate mem mem' initialCapacity hash equals =
     (if \<not> mem then Some None
      else
        (let minimumBucketCount = initialCapacity * 4 div 3
         in case bucket_count_loop minimumBucketCount 1 of
              None \<Rightarrow> None
            | Some n \<Rightarrow>
                Some (if calloc_ptrs mem' n
                      then Some \<lparr>hm_buckets = replicate (unat n) [], hm_bucketCount = n, hm_hash = hash,
                                 hm_equals = equals, hm_size = 0\<rparr>
                      else None)))"

definition hashKey :: "('k, 'v) Hashmap \<Rightarrow> 'k \<Rightarrow> u32" where
  "hashKey m key =
     (let h = hm_hash m key;
          h = h + NOT (push_bit 9 h);
          h = h XOR drop_bit 14 h;
          h = h + push_bit 4 h
      in h XOR drop_bit 10 h)"

definition hashmapSize :: "('k, 'v) Hashmap \<Rightarrow> u64" where
  "hashmapSize m = hm_size m"

text \<open>The conversion of \<open>int\<close> to \<open>size_t\<close> extends the sign.\<close>

definition calculateIndex :: "u64 \<Rightarrow> u32 \<Rightarrow> nat" where
  "calculateIndex bucketCount hash = unat ((scast hash :: u64) AND (bucketCount - 1))"

fun move_bucket :: "u64 \<Rightarrow> ('k, 'v) Entry list \<Rightarrow> ('k, 'v) Entry list list \<Rightarrow> ('k, 'v) Entry list list" where
  "move_bucket n [] newBuckets = newBuckets"
| "move_bucket n (entry # next) newBuckets =
     (let index = calculateIndex n (e_hash entry)
      in move_bucket n next (newBuckets[index := entry # newBuckets ! index]))"

fun move_buckets :: "u64 \<Rightarrow> ('k, 'v) Entry list list \<Rightarrow> ('k, 'v) Entry list list \<Rightarrow> ('k, 'v) Entry list list" where
  "move_buckets n [] newBuckets = newBuckets"
| "move_buckets n (b # bs) newBuckets = move_buckets n bs (move_bucket n b newBuckets)"

definition expandIfNecessary :: "bool \<Rightarrow> ('k, 'v) Hashmap \<Rightarrow> ('k, 'v) Hashmap" where
  "expandIfNecessary mem m =
     (if hm_size m > hm_bucketCount m * 3 div 4 then
        (let newBucketCount = push_bit 1 (hm_bucketCount m)
         in if calloc_ptrs mem newBucketCount
            then m\<lparr>hm_buckets := move_buckets newBucketCount (hm_buckets m) (replicate (unat newBucketCount) []),
                   hm_bucketCount := newBucketCount\<rparr>
            else m)
      else m)"

fun hash_bytes :: "string \<Rightarrow> u32 \<Rightarrow> u32" where
  "hash_bytes [] h = h"
| "hash_bytes (c # cs) h = hash_bytes cs (h * 31 + scast (of_char c :: u8))"

definition hashmapHash :: "string \<Rightarrow> u32" where
  "hashmapHash key = hash_bytes key (of_nat (length key))"

definition equalKeys :: "'k \<Rightarrow> u32 \<Rightarrow> 'k \<Rightarrow> u32 \<Rightarrow> ('k \<Rightarrow> 'k \<Rightarrow> bool) \<Rightarrow> bool" where
  "equalKeys keyA hashA keyB hashB equals =
     (if keyA = keyB then True else if hashA \<noteq> hashB then False else equals keyA keyB)"

abbreviation bucket_of :: "('k, 'v) Hashmap \<Rightarrow> u32 \<Rightarrow> ('k, 'v) Entry list" where
  "bucket_of m h \<equiv> hm_buckets m ! calculateIndex (hm_bucketCount m) h"

abbreviation set_bucket :: "('k, 'v) Hashmap \<Rightarrow> u32 \<Rightarrow> ('k, 'v) Entry list \<Rightarrow> ('k, 'v) Hashmap" where
  "set_bucket m h b \<equiv> m\<lparr>hm_buckets := (hm_buckets m)[calculateIndex (hm_bucketCount m) h := b]\<rparr>"

text \<open>
  The walks along a chain: to the entry of a key, replacing its value, and unlinking it. \<open>None\<close> says that
  the walk reached the end.
\<close>

fun find_entry :: "('k \<Rightarrow> 'k \<Rightarrow> bool) \<Rightarrow> 'k \<Rightarrow> u32 \<Rightarrow> ('k, 'v) Entry list \<Rightarrow> ('k, 'v) Entry option" where
  "find_entry equals key hash [] = None"
| "find_entry equals key hash (current # next) =
     (if equalKeys (e_key current) (e_hash current) key hash equals then Some current
      else find_entry equals key hash next)"

fun replace_entry ::
  "('k \<Rightarrow> 'k \<Rightarrow> bool) \<Rightarrow> 'k \<Rightarrow> u32 \<Rightarrow> 'v option \<Rightarrow> ('k, 'v) Entry list \<Rightarrow> ('v option \<times> ('k, 'v) Entry list) option" where
  "replace_entry equals key hash value [] = None"
| "replace_entry equals key hash value (current # next) =
     (if equalKeys (e_key current) (e_hash current) key hash equals
      then Some (e_value current, current\<lparr>e_value := value\<rparr> # next)
      else map_option (\<lambda>(old, es). (old, current # es)) (replace_entry equals key hash value next))"

fun unlink_entry ::
  "('k \<Rightarrow> 'k \<Rightarrow> bool) \<Rightarrow> 'k \<Rightarrow> u32 \<Rightarrow> ('k, 'v) Entry list \<Rightarrow> ('v option \<times> ('k, 'v) Entry list) option" where
  "unlink_entry equals key hash [] = None"
| "unlink_entry equals key hash (current # next) =
     (if equalKeys (e_key current) (e_hash current) key hash equals then Some (e_value current, next)
      else map_option (\<lambda>(old, es). (old, current # es)) (unlink_entry equals key hash next))"

definition createEntry :: "bool \<Rightarrow> 'k \<Rightarrow> u32 \<Rightarrow> 'v option \<Rightarrow> ('k, 'v) Entry option" where
  "createEntry mem key hash value =
     (if mem then Some \<lparr>e_key = key, e_hash = hash, e_value = value\<rparr> else None)"

text \<open>\<open>hashmapPut\<close>, with whether it set \<open>errno\<close> to \<open>ENOMEM\<close>.\<close>

definition hashmapPut ::
  "bool \<Rightarrow> bool \<Rightarrow> 'k \<Rightarrow> 'v option \<Rightarrow> ('k, 'v) Hashmap \<Rightarrow> ('v option \<times> bool) \<times> ('k, 'v) Hashmap" where
  "hashmapPut mem mem' key value m =
     (let hash = hashKey m key
      in case replace_entry (hm_equals m) key hash value (bucket_of m hash) of
           Some (oldValue, b) \<Rightarrow> ((oldValue, False), set_bucket m hash b)
         | None \<Rightarrow>
             (case createEntry mem key hash value of
                None \<Rightarrow> ((None, True), m)
              | Some e \<Rightarrow>
                  ((None, False),
                   expandIfNecessary mem' ((set_bucket m hash (bucket_of m hash @ [e]))\<lparr>hm_size := hm_size m + 1\<rparr>))))"

definition hashmapGet :: "'k \<Rightarrow> ('k, 'v) Hashmap \<Rightarrow> 'v option" where
  "hashmapGet key m =
     (let hash = hashKey m key
      in case find_entry (hm_equals m) key hash (bucket_of m hash) of
           Some entry \<Rightarrow> e_value entry
         | None \<Rightarrow> None)"

definition hashmapContainsKey :: "'k \<Rightarrow> ('k, 'v) Hashmap \<Rightarrow> bool" where
  "hashmapContainsKey key m =
     (let hash = hashKey m key
      in case find_entry (hm_equals m) key hash (bucket_of m hash) of Some _ \<Rightarrow> True | None \<Rightarrow> False)"

definition hashmapMemoize ::
  "bool \<Rightarrow> bool \<Rightarrow> 'k \<Rightarrow> ('k \<Rightarrow> 'v option) \<Rightarrow> ('k, 'v) Hashmap \<Rightarrow> ('v option \<times> bool) \<times> ('k, 'v) Hashmap" where
  "hashmapMemoize mem mem' key initialValue m =
     (let hash = hashKey m key
      in case find_entry (hm_equals m) key hash (bucket_of m hash) of
           Some current \<Rightarrow> ((e_value current, False), m)
         | None \<Rightarrow>
             (case createEntry mem key hash None of
                None \<Rightarrow> ((None, True), m)
              | Some e \<Rightarrow>
                  (let value = initialValue key
                   in ((value, False),
                       expandIfNecessary mem' ((set_bucket m hash (bucket_of m hash @ [e\<lparr>e_value := value\<rparr>]))
                                               \<lparr>hm_size := hm_size m + 1\<rparr>)))))"

definition hashmapRemove :: "'k \<Rightarrow> ('k, 'v) Hashmap \<Rightarrow> 'v option \<times> ('k, 'v) Hashmap" where
  "hashmapRemove key m =
     (let hash = hashKey m key
      in case unlink_entry (hm_equals m) key hash (bucket_of m hash) of
           Some (value, b) \<Rightarrow> (value, (set_bucket m hash b)\<lparr>hm_size := hm_size m - 1\<rparr>)
         | None \<Rightarrow> (None, m))"

text \<open>
  \<open>hashmapForEach\<close> with a callback that only computes: it folds the callback over the entries, in the
  order of the buckets, until it returns \<open>false\<close>.
\<close>

fun for_each :: "('k \<Rightarrow> 'v option \<Rightarrow> 'c \<Rightarrow> bool \<times> 'c) \<Rightarrow> ('k, 'v) Entry list \<Rightarrow> 'c \<Rightarrow> 'c" where
  "for_each callback [] context = context"
| "for_each callback (entry # next) context =
     (case callback (e_key entry) (e_value entry) context of
        (True, context') \<Rightarrow> for_each callback next context'
      | (False, context') \<Rightarrow> context')"

definition hashmapForEach :: "('k \<Rightarrow> 'v option \<Rightarrow> 'c \<Rightarrow> bool \<times> 'c) \<Rightarrow> ('k, 'v) Hashmap \<Rightarrow> 'c \<Rightarrow> 'c" where
  "hashmapForEach callback m context = for_each callback (concat (hm_buckets m)) context"

definition hashmapCurrentCapacity :: "('k, 'v) Hashmap \<Rightarrow> u64" where
  "hashmapCurrentCapacity m = hm_bucketCount m * 3 div 4"

definition hashmapCountCollisions :: "('k, 'v) Hashmap \<Rightarrow> u64" where
  "hashmapCountCollisions m = of_nat (sum_list (map (\<lambda>b. length b - 1) (hm_buckets m)))"

definition hashmapIntHash :: "u32 \<Rightarrow> u32" where
  "hashmapIntHash key = key"

definition hashmapIntEquals :: "u32 \<Rightarrow> u32 \<Rightarrow> bool" where
  "hashmapIntEquals keyA keyB \<longleftrightarrow> keyA = keyB"

section \<open>Invariant\<close>

definition hash_ok :: "('k \<Rightarrow> u32) \<Rightarrow> ('k \<Rightarrow> 'k \<Rightarrow> bool) \<Rightarrow> bool" where
  "hash_ok hash equals \<longleftrightarrow> equivp equals \<and> (\<forall>a b. equals a b \<longrightarrow> hash a = hash b)"

definition entries :: "('k, 'v) Hashmap \<Rightarrow> ('k, 'v) Entry list" where
  "entries m = concat (hm_buckets m)"

text \<open>Entries stand in the bucket of their hash.\<close>

definition placed :: "u64 \<Rightarrow> ('k, 'v) Entry list list \<Rightarrow> bool" where
  "placed n bs \<longleftrightarrow> length bs = unat n \<and> (\<forall>i < length bs. \<forall>e \<in> set (bs ! i). calculateIndex n (e_hash e) = i)"

text \<open>No key twice.\<close>

abbreviation of_key :: "('k \<Rightarrow> 'k \<Rightarrow> bool) \<Rightarrow> 'k \<Rightarrow> ('k, 'v) Entry multiset \<Rightarrow> ('k, 'v) Entry multiset" where
  "of_key equals key M \<equiv> filter_mset (\<lambda>e. equals (e_key e) key) M"

definition keys_unique :: "('k \<Rightarrow> 'k \<Rightarrow> bool) \<Rightarrow> ('k, 'v) Entry multiset \<Rightarrow> bool" where
  "keys_unique equals M \<longleftrightarrow> (\<forall>key. size (of_key equals key M) \<le> 1)"

definition hm_inv :: "('k, 'v) Hashmap \<Rightarrow> bool" where
  "hm_inv m \<longleftrightarrow> hash_ok (hm_hash m) (hm_equals m) \<and> hm_bucketCount m \<noteq> 0 \<and> calloc_ptrs True (hm_bucketCount m)
     \<and> placed (hm_bucketCount m) (hm_buckets m)
     \<and> (\<forall>e \<in> set (entries m). e_hash e = hashKey m (e_key e))
     \<and> keys_unique (hm_equals m) (mset (entries m))
     \<and> hm_size m = of_nat (length (entries m))"

text \<open>What the table maps a key to: \<open>None\<close> for no entry.\<close>

definition hm_abs :: "('k, 'v) Hashmap \<Rightarrow> 'k \<Rightarrow> 'v option option" where
  "hm_abs m key = map_option e_value (List.find (\<lambda>e. hm_equals m (e_key e) key) (entries m))"


lemma hash_okD:
  assumes "hash_ok hash equals"
  shows "equals a a" "equals a b \<Longrightarrow> equals b a" "equals a b \<Longrightarrow> equals b c \<Longrightarrow> equals a c"
    "equals a b \<Longrightarrow> hash a = hash b"
  using assms unfolding hash_ok_def by (auto elim: equivpE dest: reflpD sympD transpD)

lemma find_filter: "List.find P xs = (case filter P xs of [] \<Rightarrow> None | x # _ \<Rightarrow> Some x)"
  by (induction xs) auto

lemma of_key_entries: "of_key eq k (mset (entries m)) = mset (filter (\<lambda>e. eq (e_key e) k) (entries m))"
  by simp

lemma hm_abs_None: "of_key (hm_equals m) k (mset (entries m)) = {#} \<Longrightarrow> hm_abs m k = None"
  unfolding of_key_entries by (simp add: hm_abs_def find_filter)

lemma hm_abs_Some: "of_key (hm_equals m) k (mset (entries m)) = {#e#} \<Longrightarrow> hm_abs m k = Some (e_value e)"
  unfolding of_key_entries by (simp add: hm_abs_def find_filter mset_single_iff del: mset_filter)

lemma keys_unique_cases:
  assumes "keys_unique eq M"
  obtains "of_key eq k M = {#}" | e where "of_key eq k M = {#e#}"
proof -
  have "size (of_key eq k M) = 0 \<or> size (of_key eq k M) = 1"
    using assms unfolding keys_unique_def by (metis le_antisym less_one linorder_not_le)
  then show thesis
  proof
    assume "size (of_key eq k M) = 0"
    then show thesis by (intro that(1)) simp
  next
    assume "size (of_key eq k M) = 1"
    then show thesis using that(2) size_1_singleton_mset by metis
  qed
qed

lemma index_less:
  assumes "n \<noteq> 0"
  shows "calculateIndex n h < unat n"
proof -
  have "(scast h :: u64) AND (n - 1) \<le> n - 1" by (rule word_and_le1)
  then have "calculateIndex n h \<le> unat (n - 1)" by (simp add: calculateIndex_def word_le_nat_alt)
  also have "\<dots> < unat n" using assms by (simp add: unat_minus_one unat_gt_0)
  finally show ?thesis .
qed

lemma mset_set_bucket:
  assumes "i < length bs"
  shows "mset (concat (bs[i := b])) + mset (bs ! i) = mset (concat bs) + mset b"
proof -
  have "concat bs = concat (take i bs) @ bs ! i @ concat (drop (Suc i) bs)"
    using id_take_nth_drop [OF assms] by (metis concat.simps(2) concat_append)
  moreover have "concat (bs[i := b]) = concat (take i bs) @ b @ concat (drop (Suc i) bs)"
    using assms by (simp add: upd_conv_take_nth_drop)
  ultimately show ?thesis by simp
qed

lemma placed_set:
  assumes "placed n bs" "\<And>e. e \<in> set b \<Longrightarrow> calculateIndex n (e_hash e) = i"
  shows "placed n (bs[i := b])"
  unfolding placed_def
proof (intro conjI allI impI ballI)
  fix j e assume "j < length (bs[i := b])" "e \<in> set (bs[i := b] ! j)"
  then show "calculateIndex n (e_hash e) = j"
    using assms by (cases "j = i") (auto simp: placed_def)
qed (use assms(1) in \<open>simp add: placed_def\<close>)

lemma move_bucket_spec:
  assumes "placed n nb" "n \<noteq> 0"
  shows "placed n (move_bucket n b nb) \<and> mset (concat (move_bucket n b nb)) = mset (concat nb) + mset b"
  using assms
proof (induction b arbitrary: nb)
  case (Cons e es)
  define i where "i = calculateIndex n (e_hash e)"
  have i: "i < length nb" using index_less Cons.prems by (simp add: i_def placed_def)
  have "placed n (nb[i := e # nb ! i])"
    using Cons.prems i by (intro placed_set) (auto simp: i_def placed_def)
  moreover have "mset (concat (nb[i := e # nb ! i])) = add_mset e (mset (concat nb))"
    using mset_set_bucket [OF i, of "e # nb ! i"] by simp
  ultimately show ?case using Cons.IH [of "nb[i := e # nb ! i]"] Cons.prems(2) by (simp add: i_def Let_def)
qed simp

lemma move_buckets_spec:
  assumes "placed n nb" "n \<noteq> 0"
  shows "placed n (move_buckets n bs nb) \<and> mset (concat (move_buckets n bs nb)) = mset (concat nb) + mset (concat bs)"
  using assms
proof (induction bs arbitrary: nb)
  case (Cons b bs)
  then show ?case using move_bucket_spec [of n nb b] Cons.IH [of "move_bucket n b nb"] by (simp add: ac_simps)
qed simp

lemma placed_empty: "placed n (replicate (unat n) [])"
  by (simp add: placed_def)

lemma hashKey_simps [simp]:
  "hashKey (m\<lparr>hm_buckets := bs\<rparr>) = hashKey m" "hashKey (m\<lparr>hm_bucketCount := n\<rparr>) = hashKey m"
  "hashKey (m\<lparr>hm_size := s\<rparr>) = hashKey m"
  by (simp_all add: hashKey_def fun_eq_iff)

text \<open>Two tables with the same hash functions and the same entries in other buckets map keys to the same values.\<close>

lemma hm_abs_mset:
  assumes "keys_unique (hm_equals m) (mset (entries m))" "hm_equals m' = hm_equals m"
    "mset (entries m') = mset (entries m)"
  shows "hm_abs m' = hm_abs m"
proof
  fix k
  show "hm_abs m' k = hm_abs m k"
    by (rule keys_unique_cases [OF assms(1), of k]) (use assms(2,3) in \<open>simp_all add: hm_abs_None hm_abs_Some\<close>)
qed

lemma expand_spec:
  assumes inv: "hm_inv m"
  shows "hm_inv (expandIfNecessary mem m) \<and> hm_abs (expandIfNecessary mem m) = hm_abs m
    \<and> mset (entries (expandIfNecessary mem m)) = mset (entries m)
    \<and> hm_hash (expandIfNecessary mem m) = hm_hash m \<and> hm_equals (expandIfNecessary mem m) = hm_equals m"
proof (cases "hm_size m > hm_bucketCount m * 3 div 4 \<and> calloc_ptrs mem (push_bit 1 (hm_bucketCount m))")
  case True
  define n where "n = push_bit 1 (hm_bucketCount m)"
  have "unat n = 2 * unat (hm_bucketCount m)"
    using inv by (simp add: n_def hm_inv_def calloc_ptrs_def push_bit_eq_mult unat_word_ariths)
  then have n: "n \<noteq> 0" using inv unsigned_eq_0_iff [of "hm_bucketCount m"] by (auto simp: hm_inv_def)
  define m' where "m' = m\<lparr>hm_buckets := move_buckets n (hm_buckets m) (replicate (unat n) []), hm_bucketCount := n\<rparr>"
  have e: "expandIfNecessary mem m = m'" using True by (simp add: expandIfNecessary_def m'_def n_def Let_def)
  have p: "placed n (hm_buckets m')" "mset (entries m') = mset (entries m)"
    using move_buckets_spec [OF placed_empty n, of "hm_buckets m"] by (simp_all add: m'_def entries_def)
  have s: "set (entries m') = set (entries m)" "length (entries m') = length (entries m)"
    using p(2) by (metis set_mset_mset) (metis p(2) size_mset)
  have "hm_inv m'"
    using inv p s n True unfolding hm_inv_def by (simp add: m'_def n_def calloc_ptrs_def)
  moreover have "hm_abs m' = hm_abs m"
    using inv p(2) by (intro hm_abs_mset) (simp_all add: hm_inv_def m'_def)
  ultimately show ?thesis using p(2) by (simp add: e m'_def)
next
  case False
  then show ?thesis using inv by (auto simp: expandIfNecessary_def Let_def)
qed


section \<open>The walks\<close>

lemma find_entry_split:
  "find_entry eq k h b = Some e \<Longrightarrow> e \<in> set b \<and> equalKeys (e_key e) (e_hash e) k h eq"
  "find_entry eq k h b = None \<longleftrightarrow> (\<forall>e \<in> set b. \<not> equalKeys (e_key e) (e_hash e) k h eq)"
  by (induction b) (auto split: if_splits)

lemma replace_entry_split:
  "replace_entry eq k h v b = Some (old, b') \<Longrightarrow>
     \<exists>xs e ys. b = xs @ e # ys \<and> b' = xs @ e\<lparr>e_value := v\<rparr> # ys \<and> old = e_value e
       \<and> equalKeys (e_key e) (e_hash e) k h eq"
proof (induction b arbitrary: b')
  case (Cons c b)
  show ?case
  proof (cases "equalKeys (e_key c) (e_hash c) k h eq")
    case True
    then show ?thesis using Cons.prems by (intro exI [of _ "[]"]) auto
  next
    case False
    then obtain b1 where "replace_entry eq k h v b = Some (old, b1)" "b' = c # b1" using Cons.prems by auto
    with Cons.IH show ?thesis by (metis append_Cons)
  qed
qed simp

lemma replace_entry_None: "replace_entry eq k h v b = None \<longleftrightarrow> find_entry eq k h b = None"
  by (induction b) auto

lemma unlink_entry_split:
  "unlink_entry eq k h b = Some (old, b') \<Longrightarrow>
     \<exists>xs e ys. b = xs @ e # ys \<and> b' = xs @ ys \<and> old = e_value e \<and> equalKeys (e_key e) (e_hash e) k h eq"
proof (induction b arbitrary: b')
  case (Cons c b)
  show ?case
  proof (cases "equalKeys (e_key c) (e_hash c) k h eq")
    case True
    then show ?thesis using Cons.prems by (intro exI [of _ "[]"]) auto
  next
    case False
    then obtain b1 where "unlink_entry eq k h b = Some (old, b1)" "b' = c # b1" using Cons.prems by auto
    with Cons.IH show ?thesis by (metis append_Cons)
  qed
qed simp

lemma unlink_entry_None: "unlink_entry eq k h b = None \<longleftrightarrow> find_entry eq k h b = None"
  by (induction b) auto

lemma hm_invD:
  assumes "hm_inv m"
  shows "hash_ok (hm_hash m) (hm_equals m)" "hm_bucketCount m \<noteq> 0" "placed (hm_bucketCount m) (hm_buckets m)"
    "e \<in> set (entries m) \<Longrightarrow> e_hash e = hashKey m (e_key e)"
    "keys_unique (hm_equals m) (mset (entries m))" "hm_size m = of_nat (length (entries m))"
  using assms by (simp_all add: hm_inv_def)

lemma hashKey_equals: "hm_inv m \<Longrightarrow> hm_equals m a b \<Longrightarrow> hashKey m a = hashKey m b"
  using hash_okD(4) [OF hm_invD(1), of m a b] by (simp add: hashKey_def)

lemma index_bucket: "hm_inv m \<Longrightarrow> calculateIndex (hm_bucketCount m) h < length (hm_buckets m)"
  using index_less [OF hm_invD(2), of m h] hm_invD(3) [of m] by (simp add: placed_def)

lemma bucket_entries: "hm_inv m \<Longrightarrow> e \<in> set (bucket_of m h) \<Longrightarrow> e \<in> set (entries m)"
  using index_bucket [of m h] by (auto simp: entries_def)

lemma entry_bucket:
  assumes "hm_inv m" "e \<in> set (entries m)" "hm_equals m (e_key e) k"
  shows "e \<in> set (bucket_of m (hashKey m k))"
proof -
  obtain i where i: "i < length (hm_buckets m)" "e \<in> set (hm_buckets m ! i)"
    using assms(2) by (auto simp: entries_def) (metis in_set_conv_nth)
  then have "calculateIndex (hm_bucketCount m) (e_hash e) = i" using hm_invD(3) [OF assms(1)] by (simp add: placed_def)
  moreover have "e_hash e = hashKey m k"
    using hm_invD(4) [OF assms(1,2)] hashKey_equals [OF assms(1,3)] by simp
  ultimately show ?thesis using i(2) by simp
qed

lemma equalKeys_iff:
  assumes "hm_inv m" "e \<in> set (entries m)"
  shows "equalKeys (e_key e) (e_hash e) k (hashKey m k) (hm_equals m) \<longleftrightarrow> hm_equals m (e_key e) k"
  using hm_invD(4) [OF assms] hashKey_equals [OF assms(1)] hash_okD(1) [OF hm_invD(1) [OF assms(1)]]
  by (auto simp: equalKeys_def)

lemma find_entry_abs:
  assumes "hm_inv m"
  shows "map_option e_value (find_entry (hm_equals m) k (hashKey m k) (bucket_of m (hashKey m k))) = hm_abs m k"
proof (cases "find_entry (hm_equals m) k (hashKey m k) (bucket_of m (hashKey m k))")
  case None
  then have "\<not> hm_equals m (e_key e) k" if "e \<in> set (entries m)" for e
    using entry_bucket [OF assms that] equalKeys_iff [OF assms that] find_entry_split(2) by metis
  then have "of_key (hm_equals m) k (mset (entries m)) = {#}" by simp
  then show ?thesis using None by (simp add: hm_abs_None)
next
  case (Some e)
  then have e: "e \<in> set (entries m)" "hm_equals m (e_key e) k"
    using find_entry_split(1) [OF Some] bucket_entries [OF assms] equalKeys_iff [OF assms] by blast+
  then have i: "e \<in># of_key (hm_equals m) k (mset (entries m))" by simp
  show ?thesis
    by (rule keys_unique_cases [OF hm_invD(5) [OF assms], of k]) (use i Some in \<open>auto simp: hm_abs_Some\<close>)
qed

lemma find_entry_absent:
  assumes "hm_inv m"
  shows "find_entry (hm_equals m) k (hashKey m k) (bucket_of m (hashKey m k)) = None \<longleftrightarrow> hm_abs m k = None"
  using find_entry_abs [OF assms, of k] by (metis map_option_is_None)

section \<open>Each operation on the dictionary\<close>

text \<open>An entry that may stand in the bucket of a hash, and a table with such a bucket changed.\<close>

definition in_bucket :: "('k, 'v) Hashmap \<Rightarrow> u32 \<Rightarrow> ('k, 'v) Entry \<Rightarrow> bool" where
  "in_bucket m h e \<longleftrightarrow> e_hash e = hashKey m (e_key e)
     \<and> calculateIndex (hm_bucketCount m) (e_hash e) = calculateIndex (hm_bucketCount m) h"

lemma bucket_in:
  assumes inv: "hm_inv m" and e: "e \<in> set (bucket_of m h)"
  shows "in_bucket m h e"
proof -
  have "\<forall>i < length (hm_buckets m). \<forall>e \<in> set (hm_buckets m ! i). calculateIndex (hm_bucketCount m) (e_hash e) = i"
    using hm_invD(3) [OF inv] by (simp add: placed_def)
  then have "calculateIndex (hm_bucketCount m) (e_hash e) = calculateIndex (hm_bucketCount m) h"
    using index_bucket [OF inv] e by blast
  then show ?thesis using hm_invD(4) [OF inv bucket_entries [OF inv e]] by (simp add: in_bucket_def)
qed

lemma inv_set_bucket:
  assumes inv: "hm_inv m" and h: "\<And>e. e \<in> set b \<Longrightarrow> in_bucket m h e"
    and M: "mset (concat ((hm_buckets m)[calculateIndex (hm_bucketCount m) h := b])) = M"
    and u: "keys_unique (hm_equals m) M"
  shows "hm_inv ((set_bucket m h b)\<lparr>hm_size := of_nat (size M)\<rparr>)"
proof -
  let ?bs = "(hm_buckets m)[calculateIndex (hm_bucketCount m) h := b]"
  have p: "placed (hm_bucketCount m) ?bs"
    using h unfolding in_bucket_def by (intro placed_set hm_invD(3) [OF inv]) blast
  have l: "length (concat ?bs) = size M" using M by (metis size_mset)
  have "e_hash e = hashKey m (e_key e)" if e: "e \<in> set (concat ?bs)" for e
  proof -
    obtain c where c: "c \<in> set ?bs" "e \<in> set c" using e by auto
    then consider "c = b" | "c \<in> set (hm_buckets m)" using set_update_subset_insert by fastforce
    then show ?thesis
    proof cases
      case 1
      then show ?thesis using h c by (simp add: in_bucket_def)
    next
      case 2
      then show ?thesis using hm_invD(4) [OF inv, of e] c by (auto simp: entries_def)
    qed
  qed
  then show ?thesis using inv p l M u by (simp add: hm_inv_def entries_def)
qed

lemma abs_same:
  assumes "keys_unique (hm_equals m) (mset (entries m))" "hm_equals m' = hm_equals m"
    "of_key (hm_equals m) k (mset (entries m')) = of_key (hm_equals m) k (mset (entries m))"
  shows "hm_abs m' k = hm_abs m k"
  by (rule keys_unique_cases [OF assms(1), of k]) (use assms(2,3) in \<open>simp_all add: hm_abs_None hm_abs_Some\<close>)

lemma abs_add:
  assumes u: "keys_unique (hm_equals m') (add_mset e M0)" and M: "mset (entries m') = add_mset e M0"
    and e: "hm_equals m' (e_key e) k"
  shows "hm_abs m' k = Some (e_value e)"
proof -
  have "size (of_key (hm_equals m') k (add_mset e M0)) \<le> 1" using u by (simp add: keys_unique_def)
  then have "of_key (hm_equals m') k (mset (entries m')) = {#e#}" using e M by simp
  then show ?thesis by (rule hm_abs_Some)
qed


lemma unique_add:
  assumes ok: "hash_ok hash eq" and u: "keys_unique eq M" and new: "of_key eq (e_key e) M = {#}"
  shows "keys_unique eq (add_mset e M)"
  unfolding keys_unique_def
proof
  fix k
  show "size (of_key eq k (add_mset e M)) \<le> 1"
  proof (cases "eq (e_key e) k")
    case True
    have "\<not> eq (e_key f) k" if "f \<in># M" for f
      using that new True hash_okD(2,3) [OF ok] by (metis filter_mset_eq_mempty_iff)
    then have "of_key eq k M = {#}" by simp
    then show ?thesis using True by simp
  next
    case False
    then show ?thesis using u by (simp add: keys_unique_def)
  qed
qed

lemma unique_replace:
  assumes "keys_unique eq (add_mset e M)" "e_key e' = e_key e"
  shows "keys_unique eq (add_mset e' M)"
proof -
  have "size (of_key eq k (add_mset e' M)) = size (of_key eq k (add_mset e M))" for k using assms(2) by simp
  then show ?thesis using assms(1) unfolding keys_unique_def by (simp only: simp_thms)
qed

lemma unique_remove: "keys_unique eq (add_mset e M) \<Longrightarrow> keys_unique eq M"
  unfolding keys_unique_def
proof
  fix k assume "\<forall>k. size (of_key eq k (add_mset e M)) \<le> 1"
  then have "size (of_key eq k (add_mset e M)) \<le> 1" by blast
  moreover have "size (of_key eq k M) \<le> size (of_key eq k (add_mset e M))"
    by (rule size_mset_mono [OF multiset_filter_mono]) simp
  ultimately show "size (of_key eq k M) \<le> 1" by (rule order_trans [rotated])
qed

text \<open>Replacing the value of an entry.\<close>

lemma replace_spec:
  assumes inv: "hm_inv m" and r: "replace_entry (hm_equals m) k (hashKey m k) v (bucket_of m (hashKey m k)) = Some (old, b)"
  defines "m' \<equiv> set_bucket m (hashKey m k) b"
  shows "hm_inv m' \<and> hm_abs m k = Some old \<and> size (mset (entries m')) = size (mset (entries m))
    \<and> (\<forall>k'. hm_abs m' k' = (if hm_equals m k k' then Some v else hm_abs m k'))"
proof -
  define h where "h = hashKey m k"
  obtain xs e ys where b: "bucket_of m h = xs @ e # ys" "b = xs @ e\<lparr>e_value := v\<rparr> # ys" "old = e_value e"
    "equalKeys (e_key e) (e_hash e) k h (hm_equals m)"
    using replace_entry_split [OF r] by (auto simp: h_def)
  have be: "f \<in> set (entries m)" if "f \<in> set (xs @ e # ys)" for f
    using bucket_entries [OF inv, of f h] that b(1) by simp
  have e: "hm_equals m (e_key e) k" using equalKeys_iff [OF inv be, of e k] b(4) by (simp add: h_def)
  define e' where "e' = e\<lparr>e_value := v\<rparr>"
  define M0 where "M0 = mset (entries m) - {#e#}"
  have M: "mset (entries m) = add_mset e M0" using be [of e] by (simp add: M0_def)
  have M': "mset (entries m') = add_mset e' M0"
    using mset_set_bucket [OF index_bucket [OF inv, of h], of b] b(1,2) M
    by (simp add: m'_def h_def [symmetric] entries_def e'_def)
  have u: "keys_unique (hm_equals m) (add_mset e M0)" using hm_invD(5) [OF inv] M by simp
  then have u': "keys_unique (hm_equals m) (add_mset e' M0)" by (rule unique_replace) (simp add: e'_def)
  have "in_bucket m h f" if "f \<in> set b" for f
    using bucket_in [OF inv, of e h] bucket_in [OF inv, of f h] that b(1,2) by (auto simp: in_bucket_def hashKey_def)
  from inv_set_bucket [OF inv this, where M = "add_mset e' M0"]
  have "hm_inv (m'\<lparr>hm_size := of_nat (size (add_mset e' M0))\<rparr>)"
    using M' u' by (simp add: m'_def h_def entries_def)
  moreover have "hm_size m' = of_nat (size (add_mset e' M0))"
    using hm_invD(6) [OF inv] arg_cong [OF M, of size] by (simp add: m'_def)
  ultimately have inv': "hm_inv m'" by (metis Hashmap.surjective Hashmap.update_convs(5))
  have o: "hm_abs m k = Some old" using abs_add [of m e M0 k] u M e b(3) by simp
  have "hm_abs m' k' = (if hm_equals m k k' then Some v else hm_abs m k')" for k'
  proof (cases "hm_equals m k k'")
    case True
    then have "hm_equals m (e_key e') k'" using e hash_okD(3) [OF hm_invD(1) [OF inv]] by (simp add: e'_def)
    then show ?thesis using abs_add [of m' e' M0 k'] u' M' True by (simp add: m'_def e'_def)
  next
    case False
    then have "\<not> hm_equals m (e_key e) k'" using e hash_okD(2,3) [OF hm_invD(1) [OF inv]] by blast
    then show ?thesis using False M M' hm_invD(5) [OF inv] abs_same [of m m' k'] by (simp add: m'_def e'_def)
  qed
  then show ?thesis using inv' o M M' by simp
qed


text \<open>Unlinking an entry.\<close>

lemma unlink_spec:
  assumes inv: "hm_inv m" and r: "unlink_entry (hm_equals m) k (hashKey m k) (bucket_of m (hashKey m k)) = Some (old, b)"
  defines "m' \<equiv> (set_bucket m (hashKey m k) b)\<lparr>hm_size := hm_size m - 1\<rparr>"
  shows "hm_inv m' \<and> hm_abs m k = Some old \<and> Suc (size (mset (entries m'))) = size (mset (entries m))
    \<and> (\<forall>k'. hm_abs m' k' = (if hm_equals m k k' then None else hm_abs m k'))"
proof -
  define h where "h = hashKey m k"
  obtain xs e ys where b: "bucket_of m h = xs @ e # ys" "b = xs @ ys" "old = e_value e"
    "equalKeys (e_key e) (e_hash e) k h (hm_equals m)"
    using unlink_entry_split [OF r] by (auto simp: h_def)
  have be: "f \<in> set (entries m)" if "f \<in> set (xs @ e # ys)" for f
    using bucket_entries [OF inv, of f h] that b(1) by simp
  have e: "hm_equals m (e_key e) k" using equalKeys_iff [OF inv be, of e k] b(4) by (simp add: h_def)
  define M0 where "M0 = mset (entries m) - {#e#}"
  have M: "mset (entries m) = add_mset e M0" using be [of e] by (simp add: M0_def)
  have M': "mset (entries m') = M0"
    using mset_set_bucket [OF index_bucket [OF inv, of h], of b] b(1,2) M
    by (simp add: m'_def h_def [symmetric] entries_def)
  have u: "keys_unique (hm_equals m) (add_mset e M0)" using hm_invD(5) [OF inv] M by simp
  then have u': "keys_unique (hm_equals m) M0" by (rule unique_remove)
  have "in_bucket m h f" if "f \<in> set b" for f
    using bucket_in [OF inv, of f h] that b(1,2) by auto
  from inv_set_bucket [OF inv this, where M = M0]
  have "hm_inv (m'\<lparr>hm_size := of_nat (size M0)\<rparr>)" using M' u' by (simp add: m'_def h_def entries_def)
  moreover have "hm_size m' = of_nat (size M0)"
    using hm_invD(6) [OF inv] arg_cong [OF M, of size] by (simp add: m'_def)
  ultimately have inv': "hm_inv m'" by (metis Hashmap.surjective Hashmap.update_convs(5))
  have o: "hm_abs m k = Some old" using abs_add [of m e M0 k] u M e b(3) by simp
  have "hm_abs m' k' = (if hm_equals m k k' then None else hm_abs m k')" for k'
  proof (cases "hm_equals m k k'")
    case True
    then have k': "hm_equals m (e_key e) k'" using e hash_okD(3) [OF hm_invD(1) [OF inv]] by blast
    have "size (of_key (hm_equals m) k' (add_mset e M0)) \<le> 1" using u by (simp only: keys_unique_def)
    then have "of_key (hm_equals m') k' (mset (entries m')) = {#}" using k' M' by (simp add: m'_def)
    then show ?thesis using True by (simp only: hm_abs_None if_True)
  next
    case False
    then have "\<not> hm_equals m (e_key e) k'" using e hash_okD(2,3) [OF hm_invD(1) [OF inv]] by blast
    then show ?thesis using False M M' hm_invD(5) [OF inv] abs_same [of m m' k'] by (simp add: m'_def)
  qed
  then show ?thesis using inv' o M M' by simp
qed

text \<open>Appending an entry for a key that is not there.\<close>

lemma append_spec:
  fixes v
  assumes inv: "hm_inv m" and n: "hm_abs m k = None"
  defines "m' \<equiv> (set_bucket m (hashKey m k) (bucket_of m (hashKey m k) @ [\<lparr>e_key = k, e_hash = hashKey m k, e_value = v\<rparr>]))
    \<lparr>hm_size := hm_size m + 1\<rparr>"
  shows "hm_inv m' \<and> size (mset (entries m')) = Suc (size (mset (entries m)))
    \<and> (\<forall>k'. hm_abs m' k' = (if hm_equals m k k' then Some v else hm_abs m k'))"
proof -
  define h where "h = hashKey m k"
  define e where "e = \<lparr>e_key = k, e_hash = h, e_value = v\<rparr>"
  have m': "m' = (set_bucket m h (bucket_of m h @ [e]))\<lparr>hm_size := hm_size m + 1\<rparr>" by (simp add: m'_def h_def e_def)
  have M': "mset (entries m') = add_mset e (mset (entries m))"
    using mset_set_bucket [OF index_bucket [OF inv, of h], of "bucket_of m h @ [e]"] by (simp add: m' entries_def)
  have new: "of_key (hm_equals m) k (mset (entries m)) = {#}"
    by (rule keys_unique_cases [OF hm_invD(5) [OF inv], of k]) (use n in \<open>simp_all add: hm_abs_Some\<close>)
  have u: "keys_unique (hm_equals m) (add_mset e (mset (entries m)))"
    by (rule unique_add [OF hm_invD(1,5) [OF inv]]) (use new in \<open>simp add: e_def\<close>)
  have "in_bucket m h f" if "f \<in> set (bucket_of m h @ [e])" for f
    using bucket_in [OF inv, of f h] that by (auto simp: in_bucket_def e_def h_def)
  from inv_set_bucket [where b = "bucket_of m h @ [e]", OF inv this _ u] have "hm_inv (m'\<lparr>hm_size := of_nat (size (add_mset e (mset (entries m))))\<rparr>)"
    using M' by (simp add: m' entries_def)
  moreover have "hm_size m' = of_nat (size (add_mset e (mset (entries m))))"
    using hm_invD(6) [OF inv] by (simp add: m')
  ultimately have inv': "hm_inv m'" by (metis Hashmap.surjective Hashmap.update_convs(5))
  have "hm_abs m' k' = (if hm_equals m k k' then Some v else hm_abs m k')" for k'
  proof (cases "hm_equals m k k'")
    case True
    then show ?thesis using abs_add [of m' e "mset (entries m)" k'] u M' by (simp add: m' e_def)
  next
    case False
    then show ?thesis using M' hm_invD(5) [OF inv] abs_same [of m m' k'] by (simp add: m' e_def)
  qed
  then show ?thesis using inv' M' by simp
qed

section \<open>The table is a dictionary\<close>

text \<open>
  The reference: a function from keys to values that respects \<open>equals\<close>, and the number of keys. Each
  call comes with its arguments, and with whether the allocations it may make succeed.
\<close>

datatype ('k, 'v) dict_op =
    DPut bool bool 'k "'v option"
  | DGet 'k
  | DContains 'k
  | DRemove 'k
  | DMemoize bool bool 'k "'k \<Rightarrow> 'v option"
  | DSize

datatype 'v dict_result = DPtr "'v option" bool | DBool bool | DCount u64

type_synonym ('k, 'v) dict = "('k \<Rightarrow> 'v option option) \<times> nat"

definition dict_add :: "('k \<Rightarrow> 'k \<Rightarrow> bool) \<Rightarrow> 'k \<Rightarrow> 'v option \<Rightarrow> ('k, 'v) dict \<Rightarrow> ('k, 'v) dict" where
  "dict_add equals key value d =
     ((\<lambda>k. if equals key k then Some value else fst d k), if fst d key = None then Suc (snd d) else snd d)"

fun dict_step :: "('k \<Rightarrow> 'k \<Rightarrow> bool) \<Rightarrow> ('k, 'v) dict_op \<Rightarrow> ('k, 'v) dict \<Rightarrow> 'v dict_result \<times> ('k, 'v) dict" where
  "dict_step equals (DPut mem mem' key value) d =
     (if fst d key = None \<and> \<not> mem then (DPtr None True, d)
      else (DPtr (Option.bind (fst d key) id) False, dict_add equals key value d))"
| "dict_step equals (DGet key) d = (DPtr (Option.bind (fst d key) id) False, d)"
| "dict_step equals (DContains key) d = (DBool (fst d key \<noteq> None), d)"
| "dict_step equals (DRemove key) d =
     (DPtr (Option.bind (fst d key) id) False,
      if fst d key = None then d else ((\<lambda>k. if equals key k then None else fst d k), snd d - 1))"
| "dict_step equals (DMemoize mem mem' key initialValue) d =
     (case fst d key of
        Some value \<Rightarrow> (DPtr value False, d)
      | None \<Rightarrow> if mem then (DPtr (initialValue key) False, dict_add equals key (initialValue key) d)
               else (DPtr None True, d))"
| "dict_step equals DSize d = (DCount (of_nat (snd d)), d)"

fun hm_step :: "('k, 'v) dict_op \<Rightarrow> ('k, 'v) Hashmap \<Rightarrow> 'v dict_result \<times> ('k, 'v) Hashmap" where
  "hm_step (DPut mem mem' key value) m = (case hashmapPut mem mem' key value m of ((r, e), m') \<Rightarrow> (DPtr r e, m'))"
| "hm_step (DGet key) m = (DPtr (hashmapGet key m) False, m)"
| "hm_step (DContains key) m = (DBool (hashmapContainsKey key m), m)"
| "hm_step (DRemove key) m = (case hashmapRemove key m of (r, m') \<Rightarrow> (DPtr r False, m'))"
| "hm_step (DMemoize mem mem' key f) m = (case hashmapMemoize mem mem' key f m of ((r, e), m') \<Rightarrow> (DPtr r e, m'))"
| "hm_step DSize m = (DCount (hashmapSize m), m)"

definition hm_rel :: "('k \<Rightarrow> 'k \<Rightarrow> bool) \<Rightarrow> ('k, 'v) Hashmap \<Rightarrow> ('k, 'v) dict \<Rightarrow> bool" where
  "hm_rel equals m d \<longleftrightarrow> hm_inv m \<and> hm_equals m = equals \<and> hm_abs m = fst d \<and> length (entries m) = snd d"

lemma expand_rel: "hm_rel eq m d \<Longrightarrow> hm_rel eq (expandIfNecessary mem m) d"
  using expand_spec [of m mem] by (auto simp: hm_rel_def dest: mset_eq_length)

lemma append_rel:
  fixes v
  assumes "hm_rel eq m d" "fst d k = None"
  shows "hm_rel eq ((set_bucket m (hashKey m k) (bucket_of m (hashKey m k) @ [\<lparr>e_key = k, e_hash = hashKey m k, e_value = v\<rparr>]))
    \<lparr>hm_size := hm_size m + 1\<rparr>) (dict_add eq k v d)"
  using append_spec [of m k v] assms by (auto simp: hm_rel_def dict_add_def fun_eq_iff)

lemma step_put:
  assumes "hm_rel eq m d"
  shows "fst (hm_step (DPut mem mem' k v) m) = fst (dict_step eq (DPut mem mem' k v) d)
    \<and> hm_rel eq (snd (hm_step (DPut mem mem' k v) m)) (snd (dict_step eq (DPut mem mem' k v) d))"
proof (cases "replace_entry (hm_equals m) k (hashKey m k) v (bucket_of m (hashKey m k))")
  case None
  then have "hm_abs m k = None" using replace_entry_None find_entry_absent assms by (metis hm_rel_def)
  then have d: "fst d k = None" using assms by (simp add: hm_rel_def)
  show ?thesis
    using None d assms expand_rel [OF append_rel [OF assms d]]
    by (auto simp: hashmapPut_def createEntry_def Let_def)
next
  case (Some x)
  obtain old b where x: "x = (old, b)" by fastforce
  have "hm_inv m" using assms by (simp add: hm_rel_def)
  from replace_spec [OF this Some [unfolded x]] show ?thesis
    using Some x assms by (auto simp: hashmapPut_def Let_def hm_rel_def dict_add_def fun_eq_iff)
qed

lemma step_remove:
  assumes "hm_rel eq m d"
  shows "fst (hm_step (DRemove k) m) = fst (dict_step eq (DRemove k) d)
    \<and> hm_rel eq (snd (hm_step (DRemove k) m)) (snd (dict_step eq (DRemove k) d))"
proof (cases "unlink_entry (hm_equals m) k (hashKey m k) (bucket_of m (hashKey m k))")
  case None
  then have "hm_abs m k = None" using unlink_entry_None find_entry_absent assms by (metis hm_rel_def)
  then show ?thesis using None assms by (simp add: hashmapRemove_def hm_rel_def Let_def)
next
  case (Some x)
  obtain old b where x: "x = (old, b)" by fastforce
  have "hm_inv m" using assms by (simp add: hm_rel_def)
  from unlink_spec [OF this Some [unfolded x]] show ?thesis
    using Some x assms by (auto simp: hashmapRemove_def Let_def hm_rel_def fun_eq_iff)
qed

lemma step_memoize:
  assumes "hm_rel eq m d"
  shows "fst (hm_step (DMemoize mem mem' k f) m) = fst (dict_step eq (DMemoize mem mem' k f) d)
    \<and> hm_rel eq (snd (hm_step (DMemoize mem mem' k f) m)) (snd (dict_step eq (DMemoize mem mem' k f) d))"
proof (cases "find_entry (hm_equals m) k (hashKey m k) (bucket_of m (hashKey m k))")
  case None
  then have "hm_abs m k = None" using find_entry_absent assms by (metis hm_rel_def)
  then have d: "fst d k = None" using assms by (simp add: hm_rel_def)
  show ?thesis
    using None d assms expand_rel [OF append_rel [OF assms d]]
    by (auto simp: hashmapMemoize_def createEntry_def Let_def)
next
  case (Some e)
  have "hm_inv m" using assms by (simp add: hm_rel_def)
  from find_entry_abs [OF this, of k] have "fst d k = Some (e_value e)" using Some assms by (simp add: hm_rel_def)
  then show ?thesis using Some assms by (simp add: hashmapMemoize_def Let_def)
qed

interpretation hashmap: simulation hm_step "dict_step equals" "hm_rel equals" for equals
proof unfold_locales
  fix m d op
  assume r: "hm_rel equals m d"
  then have inv: "hm_inv m" and d: "hm_abs m = fst d" by (simp_all add: hm_rel_def)
  note f = find_entry_abs [OF inv, unfolded d, symmetric]
  show "fst (hm_step op m) = fst (dict_step equals op d) \<and> hm_rel equals (snd (hm_step op m)) (snd (dict_step equals op d))"
  proof (cases op)
    case (DPut mem mem' k v)
    then show ?thesis using step_put [OF r] by simp
  next
    case (DRemove k)
    then show ?thesis using step_remove [OF r] by simp
  next
    case (DMemoize mem mem' k v)
    then show ?thesis using step_memoize [OF r] by simp
  next
    case (DGet k)
    then show ?thesis using r f [of k] by (simp add: hashmapGet_def Let_def split: option.splits)
  next
    case (DContains k)
    then show ?thesis using r f [of k] by (simp add: hashmapContainsKey_def Let_def split: option.splits)
  next
    case DSize
    then show ?thesis using r hm_invD(6) [OF inv] by (auto simp: hashmapSize_def hm_rel_def)
  qed
qed


section \<open>Creating a table\<close>

lemma bucket_count_loop_terminates:
  assumes "i \<le> 63" "minimum < 2 ^ 63" "unat n = 2 ^ i"
  shows "\<exists>j n'. j \<le> 63 \<and> bucket_count_loop minimum n = Some n' \<and> unat n' = 2 ^ j"
  using assms
proof (induction "63 - i" arbitrary: i n)
  case 0
  then have "i = 63" by simp
  then have "minimum < n" using 0 by (simp add: word_less_nat_alt)
  then show ?case using 0 by (subst bucket_count_loop.simps) auto
next
  case (Suc d)
  show ?case
  proof (cases "n \<le> minimum")
    case True
    have i: "Suc i \<le> 63" using Suc by simp
    then have "(2::nat) ^ Suc i \<le> 2 ^ 63" by (rule power_increasing) simp
    then have "unat (push_bit 1 n) = 2 ^ Suc i"
      using Suc.prems(3) by (simp add: push_bit_eq_mult unat_word_ariths)
    then show ?thesis using Suc.hyps(1) [of "Suc i" "push_bit 1 n"] Suc.hyps(2) i Suc.prems(2) True
      by (subst bucket_count_loop.simps) simp
  next
    case False
    then show ?thesis using Suc.prems by (subst bucket_count_loop.simps) auto
  qed
qed

lemma bucket_count_exceeds:
  assumes "bucket_count_loop minimum n = Some n'"
  shows "minimum < n'"
  by (rule bucket_count_loop.raw_induct [where P = "\<lambda>m n y. m < y", OF _ assms]) (auto split: if_splits)

lemma minimum_bound: "(capacity :: u64) * 4 div 3 < 2 ^ 63"
proof -
  have "unat (capacity * 4) < 2 ^ 64" using unsigned_less [of "capacity * 4"] by simp
  then have "unat (capacity * 4) div 3 < 2 ^ 63" by simp
  then show ?thesis by (simp add: word_less_nat_alt unat_div)
qed

lemma create_rel:
  assumes "hash_ok hash equals" "hashmapCreate mem mem' capacity hash equals = Some (Some m)"
  shows "hm_rel equals m ((\<lambda>_. None), 0)"
proof -
  obtain n where n: "bucket_count_loop (capacity * 4 div 3) 1 = Some n" "calloc_ptrs mem' n"
    "m = \<lparr>hm_buckets = replicate (unat n) [], hm_bucketCount = n, hm_hash = hash, hm_equals = equals, hm_size = 0\<rparr>"
    using assms(2) by (auto simp: hashmapCreate_def Let_def split: if_splits option.splits)
  have "n \<noteq> 0" using bucket_count_exceeds [OF n(1)] by auto
  then show ?thesis
    using assms(1) n by (simp add: hm_rel_def hm_inv_def entries_def placed_empty keys_unique_def hm_abs_def calloc_ptrs_def fun_eq_iff)
qed

lemma hashmapCreate_returns: "\<exists>r. hashmapCreate mem mem' capacity hash equals = Some r"
proof -
  obtain n where "bucket_count_loop (capacity * 4 div 3) 1 = Some n"
    using bucket_count_loop_terminates [OF _ minimum_bound, of 0 1 capacity] by auto
  then show ?thesis by (simp add: hashmapCreate_def Let_def)
qed

text \<open>
  Property C29. The hash table is a dictionary. For any hash function and any equality it respects, any
  requested capacity, and any outcome of the allocations, creating a table returns, and every sequence
  of \<open>put\<close>, \<open>get\<close>, \<open>containsKey\<close>, \<open>remove\<close>, \<open>memoize\<close> and \<open>size\<close> on the new table gives call by call the
  results of a plain function from keys to values, through every growth of the table.
\<close>

theorem hashmap_is_dictionary:
  assumes "hash_ok hash equals"
  shows "case hashmapCreate mem mem' capacity hash equals of
      None \<Rightarrow> False
    | Some None \<Rightarrow> True
    | Some (Some m) \<Rightarrow> fst (run_ops hm_step ops m) = fst (run_ops (dict_step equals) ops ((\<lambda>_. None), 0))"
  using hashmapCreate_returns [of mem mem' capacity hash equals] create_rel [OF assms, of mem mem' capacity]
    hashmap.run [of equals _ "((\<lambda>_. None), 0)" ops] by (auto split: option.splits)

theorem hashmap_is_dictionary_witness:
  "case hashmapCreate True True 5 hashmapIntHash hashmapIntEquals of
     Some (Some m) \<Rightarrow> fst (run_ops hm_step [DPut True True 1 (Some ''a''), DPut True True 9 (Some ''b''), DRemove 1, DGet 9, DSize] m)
       = [DPtr None False, DPtr None False, DPtr (Some ''a'') False, DPtr (Some ''b'') False, DCount 1]
   | _ \<Rightarrow> False"
proof -
  have ok: "hash_ok hashmapIntHash hashmapIntEquals"
    by (auto simp: hash_ok_def hashmapIntEquals_def intro!: equivpI reflpI sympI transpI)
  have n: "bucket_count_loop 6 1 = Some 8" "calloc_ptrs True 8"
    by (simp_all add: bucket_count_loop.simps calloc_ptrs_def)
  show ?thesis
    using hashmap_is_dictionary [OF ok, where mem = True and mem' = True and capacity = 5 and ops = "[DPut True True 1 (Some ''a''), DPut True True 9 (Some ''b''), DRemove 1, DGet 9, DSize]"]
      n by (simp add: hashmapCreate_def Let_def) (simp add: hashmapIntEquals_def dict_add_def)
qed

end
