(* ===== verification/StrParms.thy ===== *)
theory StrParms
  imports Hashmap Base_Strings
begin

text \<open>
  The string parameters of \<open>libcutils/str_parms.c\<close>: a hash table from strings to strings with a textual
  form \<open>key=value;key=value\<close>. A \<open>char*\<close> that the table owns is the string it points to. The copies made by
  \<open>strdup\<close> and the texts built by \<open>asprintf\<close> are taken to succeed, except in \<open>str_parms_add_str\<close>, which
  reports a failure; whether the table can grow is an argument. The two functions on \<open>float\<close> are left out.
\<close>

section \<open>Operations\<close>

definition str_eq :: "string \<Rightarrow> string \<Rightarrow> bool" where
  "str_eq key_a key_b \<longleftrightarrow> c_str key_a = c_str key_b"

fun djb_loop :: "string \<Rightarrow> u32 \<Rightarrow> u32" where
  "djb_loop [] hash = hash"
| "djb_loop (c # cs) hash = djb_loop cs ((push_bit 5 hash + hash) + scast (of_char c :: u8))"

definition str_hash_fn :: "string \<Rightarrow> u32" where
  "str_hash_fn str = djb_loop (c_str str) 5381"

record str_parms =
  sp_map :: "(string, string) Hashmap"

definition str_parms_create :: "bool \<Rightarrow> bool \<Rightarrow> bool \<Rightarrow> str_parms option option" where
  "str_parms_create mem mem' mem'' =
     (if \<not> mem then Some None
      else map_option (map_option (\<lambda>m. \<lparr>sp_map = m\<rparr>)) (hashmapCreate mem' mem'' 5 str_hash_fn str_eq))"

text \<open>
  \<open>remove_pair\<close>, called by \<open>hashmapForEach\<close>, which has read the successor of an entry before the callback
  unlinks the entry: the walk goes over the entries that were there at its start.
\<close>

fun remove_pairs :: "string option \<Rightarrow> (string, string) Entry list \<Rightarrow> (string, string) Hashmap \<Rightarrow> (string, string) Hashmap" where
  "remove_pairs key [] m = m"
| "remove_pairs key (e # es) m =
     (case key of
        None \<Rightarrow> remove_pairs key es (snd (hashmapRemove (e_key e) m))
      | Some k \<Rightarrow>
          if c_str k = c_str (e_key e) then snd (hashmapRemove (e_key e) m) else remove_pairs key es m)"

definition str_parms_del :: "string option \<Rightarrow> str_parms \<Rightarrow> str_parms" where
  "str_parms_del key p = p\<lparr>sp_map := remove_pairs key (concat (hm_buckets (sp_map p))) (sp_map p)\<rparr>"

text \<open>\<open>strtok_r\<close> with the delimiter \<open>;\<close>: the next token and what follows it.\<close>

definition strtok_semi :: "string \<Rightarrow> (string \<times> string) option" where
  "strtok_semi s =
     (let s1 = dropWhile (\<lambda>c. c = CHR '';'') s
      in if s1 = [] then None
         else Some (takeWhile (\<lambda>c. c \<noteq> CHR '';'') s1, drop 1 (dropWhile (\<lambda>c. c \<noteq> CHR '';'') s1)))"

definition key_value :: "string \<Rightarrow> (string \<times> string) option" where
  "key_value kvpair =
     (let key = takeWhile (\<lambda>c. c \<noteq> CHR ''='') kvpair; eq = dropWhile (\<lambda>c. c \<noteq> CHR ''='') kvpair
      in if key = [] \<and> eq \<noteq> [] then None
         else if eq \<noteq> [] then Some (key, tl eq)
         else Some (kvpair, []))"

lemma strtok_semi_shorter:
  assumes "strtok_semi s = Some (t, rest)"
  shows "length rest < length s"
proof -
  define s1 where "s1 = dropWhile (\<lambda>c. c = CHR '';'') s"
  define d where "d = dropWhile (\<lambda>c. c \<noteq> CHR '';'') s1"
  have "s1 \<noteq> []" "rest = drop 1 d"
    using assms unfolding strtok_semi_def s1_def [symmetric] Let_def d_def by (cases "s1 = []"; simp)+
  moreover have "length d \<le> length s1" "length s1 \<le> length s"
    unfolding d_def s1_def by (rule length_dropWhile_le)+
  moreover have "length s1 > 0" using \<open>s1 \<noteq> []\<close> by simp
  ultimately show ?thesis by (simp only: length_drop)
qed

function create_str_loop :: "(nat \<Rightarrow> bool) \<Rightarrow> string \<Rightarrow> (string, string) Hashmap \<Rightarrow> (string, string) Hashmap" where
  "create_str_loop grows s m =
     (case strtok_semi s of
        None \<Rightarrow> m
      | Some (kvpair, rest) \<Rightarrow>
          (case key_value kvpair of
             None \<Rightarrow> create_str_loop grows rest m
           | Some (key, value) \<Rightarrow>
               create_str_loop grows rest (snd (hashmapPut True (grows (length rest)) key (Some value) m))))"
  by pat_completeness auto
termination
  by (relation "measure (\<lambda>(_, s, _). length s)") (auto dest: strtok_semi_shorter)

declare create_str_loop.simps [simp del]

definition str_parms_create_str :: "bool \<Rightarrow> bool \<Rightarrow> bool \<Rightarrow> (nat \<Rightarrow> bool) \<Rightarrow> string \<Rightarrow> str_parms option option" where
  "str_parms_create_str mem mem' mem'' grows string =
     map_option (map_option (\<lambda>p. p\<lparr>sp_map := create_str_loop grows (c_str string) (sp_map p)\<rparr>))
       (str_parms_create mem mem' mem'')"

definition ENOMEM_no :: int where "ENOMEM_no = 12"
definition ENOENT_no :: int where "ENOENT_no = 2"
definition EINVAL_no :: int where "EINVAL_no = 22"

definition str_parms_add_str ::
  "bool \<Rightarrow> bool \<Rightarrow> bool \<Rightarrow> bool \<Rightarrow> string \<Rightarrow> string \<Rightarrow> str_parms \<Rightarrow> int \<times> str_parms" where
  "str_parms_add_str mem_key mem_val mem mem' key value p =
     (if \<not> mem_key \<or> \<not> mem_val then (- ENOMEM_no, p)
      else
        (case hashmapPut mem mem' (c_str key) (Some (c_str value)) (sp_map p) of
           ((old_val, nomem), m) \<Rightarrow> (if old_val = None \<and> nomem then - ENOMEM_no else 0, p\<lparr>sp_map := m\<rparr>)))"

definition str_parms_add_int ::
  "bool \<Rightarrow> bool \<Rightarrow> bool \<Rightarrow> bool \<Rightarrow> string \<Rightarrow> int \<Rightarrow> str_parms \<Rightarrow> int \<times> str_parms" where
  "str_parms_add_int mem_key mem_val mem mem' key value p =
     str_parms_add_str mem_key mem_val mem mem' key (take 11 (dec value)) p"

definition str_parms_has_key :: "string \<Rightarrow> str_parms \<Rightarrow> bool" where
  "str_parms_has_key key p \<longleftrightarrow> hashmapGet key (sp_map p) \<noteq> None"

text \<open>
  \<open>str_parms_get_str\<close>: the result, and the string \<open>strlcpy\<close> leaves in a buffer of \<open>len\<close> bytes, if it writes
  there at all.
\<close>

definition str_parms_get_str :: "string \<Rightarrow> nat \<Rightarrow> str_parms \<Rightarrow> int \<times> string option" where
  "str_parms_get_str key len p =
     (case hashmapGet key (sp_map p) of
        Some value \<Rightarrow> (int (length value), if len = 0 then None else Some (take (len - 1) value))
      | None \<Rightarrow> (- ENOENT_no, None))"

text \<open>\<open>str_parms_get_int\<close>: the result and \<open>*val\<close>, which is written even when the value is no number.\<close>

definition str_parms_get_int :: "string \<Rightarrow> str_parms \<Rightarrow> int \<times> int option" where
  "str_parms_get_int key p =
     (case hashmapGet key (sp_map p) of
        None \<Rightarrow> (- ENOENT_no, None)
      | Some value \<Rightarrow>
          (case strtoll 0 value of
             (v, _, rest) \<Rightarrow>
               (if value \<noteq> [] \<and> rest = [] then 0 else - EINVAL_no, Some (to_int32 v))))"

definition combine_strings :: "string \<Rightarrow> string option \<Rightarrow> string option \<Rightarrow> bool \<times> string option" where
  "combine_strings key value old_str =
     (True,
      Some ((case old_str of None \<Rightarrow> [] | Some s \<Rightarrow> s @ '';'') @ key @ ''='' @ (case value of None \<Rightarrow> [] | Some v \<Rightarrow> v)))"

definition str_parms_to_str :: "str_parms \<Rightarrow> string option" where
  "str_parms_to_str p =
     (if hashmapSize (sp_map p) > 0 then hashmapForEach combine_strings (sp_map p) None else Some [])"

section \<open>The textual form is faithful\<close>

text \<open>A table whose keys and values are text that the form can carry.\<close>

definition plain_key :: "string \<Rightarrow> bool" where
  "plain_key k \<longleftrightarrow> k \<noteq> [] \<and> NUL \<notin> set k \<and> CHR ''='' \<notin> set k \<and> CHR '';'' \<notin> set k"

definition plain_value :: "string \<Rightarrow> bool" where
  "plain_value v \<longleftrightarrow> NUL \<notin> set v \<and> CHR '';'' \<notin> set v"

definition plain_entry :: "(string, string) Entry \<Rightarrow> bool" where
  "plain_entry e \<longleftrightarrow> plain_key (e_key e) \<and> (case e_value e of None \<Rightarrow> False | Some v \<Rightarrow> plain_value v)"

definition sp_inv :: "str_parms \<Rightarrow> bool" where
  "sp_inv p \<longleftrightarrow> hm_inv (sp_map p) \<and> hm_hash (sp_map p) = str_hash_fn \<and> hm_equals (sp_map p) = str_eq
     \<and> list_all plain_entry (entries (sp_map p)) \<and> length (entries (sp_map p)) < 2 ^ 64"

lemma str_hash_ok: "hash_ok str_hash_fn str_eq"
  by (auto simp: hash_ok_def str_eq_def str_hash_fn_def intro!: equivpI reflpI sympI transpI)

definition pair_text :: "(string, string) Entry \<Rightarrow> string" where
  "pair_text e = e_key e @ ''='' @ the (e_value e)"

lemma combine_simps:
  "e_value e = Some v \<Longrightarrow> combine_strings (e_key e) (e_value e) (Some s) = (True, Some (s @ '';'' @ pair_text e))"
  "e_value e = Some v \<Longrightarrow> combine_strings (e_key e) (e_value e) None = (True, Some (pair_text e))"
  by (simp_all add: combine_strings_def pair_text_def)

lemma for_each_combine:
  assumes "list_all plain_entry es"
  shows "for_each combine_strings es (Some s) = Some (Join (s # map pair_text es) '';'')"
  using assms
proof (induction es arbitrary: s)
  case (Cons e es)
  then obtain v where v: "e_value e = Some v" by (auto simp: plain_entry_def split: option.splits)
  have "for_each combine_strings es (Some (s @ '';'' @ pair_text e)) = Some (Join ((s @ '';'' @ pair_text e) # map pair_text es) '';'')"
    using Cons by simp
  then show ?case using combine_simps(1) [OF v] by (simp add: Join_def)
qed (simp add: Join_def)

lemma unat_of_nat_u64: "n < 2 ^ 64 \<Longrightarrow> unat (of_nat n :: u64) = n"
  by (simp add: unat_of_nat)

lemma to_str_eq:
  assumes "sp_inv p"
  shows "str_parms_to_str p = Some (Join (map pair_text (entries (sp_map p))) '';'')"
proof (cases "entries (sp_map p)")
  case Nil
  then have "hm_size (sp_map p) = 0" using assms hm_invD(6) [of "sp_map p"] by (simp add: sp_inv_def)
  then show ?thesis using Nil by (simp add: str_parms_to_str_def hashmapSize_def Join_def)
next
  case (Cons e es)
  have "hm_size (sp_map p) = of_nat (length (e # es))" "length (e # es) < 2 ^ 64"
    using assms hm_invD(6) [of "sp_map p"] Cons by (simp_all add: sp_inv_def)
  then have "unat (hm_size (sp_map p)) = length (e # es)" by (simp only: unat_of_nat_u64)
  then have n: "hm_size (sp_map p) > 0" by (simp add: word_less_nat_alt)
  have pl: "plain_entry e" "list_all plain_entry es" using assms Cons by (simp_all add: sp_inv_def)
  then obtain v where v: "e_value e = Some v" by (auto simp: plain_entry_def split: option.splits)
  have "for_each combine_strings (e # es) None = for_each combine_strings es (Some (pair_text e))"
    using combine_simps(2) [OF v] by simp
  then show ?thesis
    using n for_each_combine [OF pl(2), of "pair_text e"] Cons
    by (simp add: str_parms_to_str_def hashmapSize_def hashmapForEach_def entries_def)
qed


lemma strtok_token:
  assumes "t \<noteq> []" "CHR '';'' \<notin> set t"
  shows "strtok_semi (t @ '';'' @ rest) = Some (t, rest)" "strtok_semi t = Some (t, [])"
proof -
  obtain c cs where t: "t = c # cs" using assms(1) by (cases t) auto
  have c: "c \<noteq> CHR '';''" using assms(2) t by auto
  have d: "dropWhile (\<lambda>c. c = CHR '';'') (t @ u) = t @ u" for u using t c by simp
  have tw: "takeWhile (\<lambda>c. c \<noteq> CHR '';'') (t @ CHR '';'' # rest) = t" "dropWhile (\<lambda>c. c \<noteq> CHR '';'') (t @ CHR '';'' # rest) = CHR '';'' # rest"
    "takeWhile (\<lambda>c. c \<noteq> CHR '';'') t = t" "dropWhile (\<lambda>c. c \<noteq> CHR '';'') t = []"
    using assms(2) by (auto simp: takeWhile_eq_all_conv takeWhile_tail dropWhile_append3 dropWhile_eq_Nil_conv)
  show "strtok_semi (t @ '';'' @ rest) = Some (t, rest)"
    using d [of "CHR '';'' # rest"] tw(1,2) assms(1) by (simp add: strtok_semi_def)
  show "strtok_semi t = Some (t, [])" using d [of "[]"] assms(1) by (simp add: strtok_semi_def tw(3,4) del: dropWhile_eq_Nil_conv)
qed

lemma key_value_pair:
  assumes "plain_entry e"
  shows "key_value (pair_text e) = Some (e_key e, the (e_value e))"
proof -
  have k: "CHR ''='' \<notin> set (e_key e)" "e_key e \<noteq> []" using assms by (auto simp: plain_entry_def plain_key_def)
  have "takeWhile (\<lambda>c. c \<noteq> CHR ''='') (pair_text e) = e_key e"
    "dropWhile (\<lambda>c. c \<noteq> CHR ''='') (pair_text e) = CHR ''='' # the (e_value e)"
    using k(1) unfolding pair_text_def by (auto simp: takeWhile_tail dropWhile_append3)
  then show ?thesis using k(2) by (simp add: key_value_def)
qed

lemma pair_text_token:
  assumes "plain_entry e"
  shows "pair_text e \<noteq> []" "CHR '';'' \<notin> set (pair_text e)" "NUL \<notin> set (pair_text e)"
  using assms by (auto simp: plain_entry_def plain_key_def plain_value_def pair_text_def NUL_def split: option.splits)

definition put_all :: "(string, string) Entry list \<Rightarrow> (string, string) dict \<Rightarrow> (string, string) dict" where
  "put_all es d = fold (\<lambda>e. dict_add str_eq (e_key e) (e_value e)) es d"

lemma put_rel:
  assumes "hm_rel eq m d"
  shows "hm_rel eq (snd (hashmapPut True mem' k v m)) (dict_add eq k v d)"
  using step_put [OF assms, of True mem' k v] by (simp split: prod.splits)

lemma create_str_loop_puts:
  assumes "list_all plain_entry es" "hm_rel str_eq m d"
  shows "hm_rel str_eq (create_str_loop grows (Join (map pair_text es) '';'') m) (put_all es d)"
  using assms
proof (induction es arbitrary: m d)
  case Nil
  then show ?case by (simp add: put_all_def Join_def create_str_loop.simps strtok_semi_def)
next
  case (Cons e es)
  have e: "plain_entry e" "list_all plain_entry es" using Cons.prems(1) by simp_all
  obtain v where v: "e_value e = Some v" using e(1) by (auto simp: plain_entry_def split: option.splits)
  define rest where "rest = (case es of [] \<Rightarrow> [] | _ \<Rightarrow> Join (map pair_text es) '';'')"
  have "strtok_semi (Join (map pair_text (e # es)) '';'') = Some (pair_text e, rest)"
    using strtok_token [OF pair_text_token(1,2) [OF e(1)]] by (cases es) (simp_all add: rest_def Join_Cons Join_single)
  then have c: "create_str_loop grows (Join (map pair_text (e # es)) '';'') m
      = create_str_loop grows rest (snd (hashmapPut True (grows (length rest)) (e_key e) (e_value e) m))"
    using key_value_pair [OF e(1)] v by (subst create_str_loop.simps) simp
  have r: "rest = Join (map pair_text es) '';''" by (cases es) (simp_all add: rest_def Join_def)
  show ?case
    using Cons.IH [OF e(2) put_rel [OF Cons.prems(2), of "grows (length rest)" "e_key e" "e_value e"]]
    unfolding c r by (simp add: put_all_def)
qed

lemma put_all_find:
  assumes "keys_unique str_eq (mset es)"
  shows "fst (put_all es d) k = (case List.find (\<lambda>e. str_eq (e_key e) k) es of Some e \<Rightarrow> Some (e_value e) | None \<Rightarrow> fst d k)"
  using assms
proof (induction es arbitrary: d)
  case (Cons e es)
  have u: "keys_unique str_eq (mset es)" using Cons.prems unique_remove by simp
  have "size (of_key str_eq k (mset (e # es))) \<le> 1" using Cons.prems by (simp only: keys_unique_def)
  then have "List.find (\<lambda>e. str_eq (e_key e) k) es = None" if "str_eq (e_key e) k"
    using that by (simp add: find_None_iff)
  then show ?case
    using Cons.IH [OF u, of "dict_add str_eq (e_key e) (e_value e) d"]
    by (auto simp: put_all_def dict_add_def split: option.splits)
qed (simp add: put_all_def)

lemma rel_abs: "hm_rel eq m d \<Longrightarrow> hashmapGet k m = Option.bind (fst d k) id"
  using hashmap.step [of eq m d "DGet k"] by simp

lemma c_str_Join:
  assumes "list_all plain_entry es"
  shows "c_str (Join (map pair_text es) '';'') = Join (map pair_text es) '';''"
proof -
  have "NUL \<notin> set (Join_rest (map pair_text xs) '';'')" if "list_all plain_entry xs" for xs
    using that pair_text_token(3) by (induction xs) (auto simp: NUL_def)
  then show ?thesis using assms pair_text_token(3) by (cases es) (auto simp: Join_def intro!: c_str_id)
qed

text \<open>
  Property C30. The textual form loses nothing: parsing what \<open>str_parms_to_str\<close> prints, for keys without
  \<open>=\<close> and \<open>;\<close> and values without \<open>;\<close>, gives a set of parameters that returns the same value for every
  key, in whatever order the tables hold them and whether or not the new table can grow.
\<close>

theorem str_parms_roundtrip:
  assumes "sp_inv p" "str_parms_to_str p = Some text"
  shows "\<exists>p'. str_parms_create_str True True True grows text = Some (Some p')
    \<and> (\<forall>key. hashmapGet key (sp_map p') = hashmapGet key (sp_map p))"
proof -
  define es where "es = entries (sp_map p)"
  have pl: "list_all plain_entry es" and inv: "hm_inv (sp_map p)" "hm_equals (sp_map p) = str_eq"
    using assms(1) by (simp_all add: sp_inv_def es_def)
  have t: "text = Join (map pair_text es) '';''" using assms to_str_eq by (simp add: es_def)
  have n: "bucket_count_loop 6 1 = Some 8" by (simp add: bucket_count_loop.simps)
  define m0 :: "(string, string) Hashmap" where
    "m0 = \<lparr>hm_buckets = replicate 8 [], hm_bucketCount = 8, hm_hash = str_hash_fn, hm_equals = str_eq, hm_size = 0\<rparr>"
  have m0: "hashmapCreate True True 5 str_hash_fn str_eq = Some (Some m0)"
    using n by (simp add: hashmapCreate_def m0_def calloc_ptrs_def Let_def)
  define m' where "m' = create_str_loop grows text m0"
  have r: "hm_rel str_eq m' (put_all es ((\<lambda>_. None), 0))"
    unfolding m'_def t by (rule create_str_loop_puts [OF pl create_rel [OF str_hash_ok m0]])
  have rp: "hm_rel str_eq (sp_map p) (hm_abs (sp_map p), length es)" using inv by (simp add: hm_rel_def es_def)
  have u: "keys_unique str_eq (mset es)" using hm_invD(5) [OF inv(1)] inv(2) by (simp add: es_def)
  have "fst (put_all es ((\<lambda>_. None), 0)) key = hm_abs (sp_map p) key" for key
    using put_all_find [OF u, of "((\<lambda>_. None), 0)" key] inv(2) by (simp add: hm_abs_def es_def split: option.splits)
  then have "hashmapGet key m' = hashmapGet key (sp_map p)" for key
    using rel_abs [OF r, of key] rel_abs [OF rp, of key] by simp
  then show ?thesis
    using m0 c_str_Join [OF pl] t by (simp add: str_parms_create_str_def str_parms_create_def m'_def)
qed


definition sp_example :: str_parms where
  "sp_example = \<lparr>sp_map = snd (hashmapPut True True ''a'' (Some ''1'')
     \<lparr>hm_buckets = replicate 8 [], hm_bucketCount = 8, hm_hash = str_hash_fn, hm_equals = str_eq, hm_size = 0\<rparr>)\<rparr>"

lemma sp_example_entries: "map (\<lambda>e. (e_key e, e_value e)) (entries (sp_map sp_example)) = [(''a'', Some ''1'')]"
  by code_simp

lemma sp_example_inv: "sp_inv sp_example"
proof -
  have n: "bucket_count_loop 6 1 = Some 8" by (simp add: bucket_count_loop.simps)
  define m0 :: "(string, string) Hashmap" where
    "m0 = \<lparr>hm_buckets = replicate 8 [], hm_bucketCount = 8, hm_hash = str_hash_fn, hm_equals = str_eq, hm_size = 0\<rparr>"
  have "hashmapCreate True True 5 str_hash_fn str_eq = Some (Some m0)"
    using n by (simp add: hashmapCreate_def m0_def calloc_ptrs_def Let_def)
  from put_rel [OF create_rel [OF str_hash_ok this], of True "''a''" "Some ''1''"]
  have r: "hm_inv (sp_map sp_example)" "hm_equals (sp_map sp_example) = str_eq"
    by (simp_all add: hm_rel_def sp_example_def m0_def)
  obtain e where e: "entries (sp_map sp_example) = [e]" "e_key e = ''a''" "e_value e = Some ''1''"
    using sp_example_entries by (auto simp: map_eq_Cons_conv)
  have "hm_hash (sp_map sp_example) = str_hash_fn"
    by (simp add: sp_example_def hashmapPut_def createEntry_def expandIfNecessary_def Let_def split: option.split)
  then show ?thesis
    using r e by (simp add: sp_inv_def plain_entry_def plain_key_def plain_value_def NUL_def)
qed

theorem str_parms_roundtrip_witness:
  "str_parms_to_str sp_example = Some ''a=1''
   \<and> (\<exists>p'. str_parms_create_str True True True (\<lambda>_. True) ''a=1'' = Some (Some p')
        \<and> hashmapGet ''a'' (sp_map p') = hashmapGet ''a'' (sp_map sp_example)
        \<and> hashmapGet ''b'' (sp_map p') = hashmapGet ''b'' (sp_map sp_example))"
proof -
  obtain e where e: "entries (sp_map sp_example) = [e]" "e_key e = ''a''" "e_value e = Some ''1''"
    using sp_example_entries by (auto simp: map_eq_Cons_conv)
  then have "str_parms_to_str sp_example = Some ''a=1''"
    using to_str_eq [OF sp_example_inv] by (simp add: Join_def pair_text_def)
  with str_parms_roundtrip [OF sp_example_inv this, of "\<lambda>_. True"] show ?thesis by blast
qed

end
