(* ===== verification/Jstring.thy ===== *)
theory Jstring
  imports Prelude
begin

text \<open>
  The conversions between Java-style UTF-16 and modified UTF-8 of \<open>libcutils/strdup16to8.c\<close> and
  \<open>strdup8to16.c\<close>. A UTF-8 text is the memory it stands in, up to and including the NUL that ends it, so a
  step past the end of the text is a step out of bounds; a destination is a buffer of a given number of
  elements. In the masks and shifts on a \<open>char\<close> its sign does not matter, so bytes are unsigned here.
\<close>

section \<open>UTF-16 to UTF-8\<close>

definition unit_length :: "u16 \<Rightarrow> u64" where
  "unit_length c = (if c > 0x07ff then 3 else if c > 0x7f \<or> c = 0 then 2 else 1)"

fun length_fast :: "u16 list \<Rightarrow> u64 \<Rightarrow> u64" where
  "length_fast [] utf8Len = utf8Len"
| "length_fast (c # cs) utf8Len = length_fast cs (utf8Len + unit_length c)"

definition SIZE_MAX :: u64 where "SIZE_MAX = 0xffffffffffffffff"

fun length_slow :: "u16 list \<Rightarrow> u64 \<Rightarrow> u64" where
  "length_slow [] utf8Len = (if utf8Len = SIZE_MAX then SIZE_MAX - 1 else utf8Len)"
| "length_slow (c # cs) utf8Len =
     (let utf8Cur = utf8Len; utf8Len = utf8Len + unit_length c
      in if utf8Len < utf8Cur then SIZE_MAX - 1 else length_slow cs utf8Len)"

text \<open>The first \<open>len\<close> elements of the string are the list.\<close>

definition strnlen16to8 :: "u16 list \<Rightarrow> u64" where
  "strnlen16to8 s =
     (if (of_nat (length s) :: u64) < (SIZE_MAX - 1) div 3 then length_fast s 0 else length_slow s 0)"

definition unit_bytes :: "u16 \<Rightarrow> u8 list" where
  "unit_bytes c =
     (let uic = (ucast c :: u32)
      in if uic > 0x07ff then
           [ucast (drop_bit 12 uic OR 0xe0), ucast ((drop_bit 6 uic AND 0x3f) OR 0x80), ucast ((uic AND 0x3f) OR 0x80)]
         else if uic > 0x7f \<or> uic = 0 then
           [ucast (drop_bit 6 uic OR 0xc0), ucast ((uic AND 0x3f) OR 0x80)]
         else [ucast uic])"

text \<open>\<open>strncpy16to8\<close> into a buffer of \<open>cap\<close> bytes. (The \<open>break\<close> in the source is never reached.)\<close>

fun strncpy16to8_loop :: "nat \<Rightarrow> u16 list \<Rightarrow> u8 list \<Rightarrow> u8 list res" where
  "strncpy16to8_loop cap [] out = (if length out < cap then Inr (out @ [0]) else Inl OutOfBounds)"
| "strncpy16to8_loop cap (c # cs) out =
     (if length out + length (unit_bytes c) \<le> cap then strncpy16to8_loop cap cs (out @ unit_bytes c)
      else Inl OutOfBounds)"

definition strncpy16to8 :: "nat \<Rightarrow> u16 list \<Rightarrow> u8 list res" where
  "strncpy16to8 cap s = strncpy16to8_loop cap s []"

definition strndup16to8 :: "bool \<Rightarrow> u16 list \<Rightarrow> u8 list option res" where
  "strndup16to8 mem s =
     (let len = strnlen16to8 s
      in if len \<ge> SIZE_MAX - 1 then Inr None
         else if \<not> mem then Inr None
         else rbind (strncpy16to8 (unat (len + 1)) s) (\<lambda>ret. Inr (Some ret)))"

section \<open>UTF-8 to UTF-16\<close>

definition UTF16_REPLACEMENT_CHAR :: u32 where "UTF16_REPLACEMENT_CHAR = 0xfffd"
definition UNICODE_UPPER_LIMIT :: u32 where "UNICODE_UPPER_LIMIT = 0x10fffd"

definition UTF8_SEQ_LENGTH :: "u8 \<Rightarrow> nat" where
  "UTF8_SEQ_LENGTH ch =
     unat (drop_bit (unat (drop_bit 3 (ucast ch :: u32) AND 0x1e)) (0xe5000000 :: u32) AND 3) + 1"

fun strlen8to16_loop :: "u8 list \<Rightarrow> nat \<Rightarrow> int \<Rightarrow> nat res" where
  "strlen8to16_loop [] len expected = Inl OutOfBounds"
| "strlen8to16_loop (ic # rest) len expected =
     (if ic = 0 then Inr len
      else if ic AND 0xc0 = 0x80 then
        strlen8to16_loop rest (if expected - 1 < 0 then len + 1 else len) (expected - 1)
      else
        (let expected' = int (UTF8_SEQ_LENGTH ic) - 1
         in strlen8to16_loop rest (if expected' = 3 then len + 2 else len + 1) expected'))"

definition strlen8to16 :: "u8 list \<Rightarrow> nat res" where
  "strlen8to16 utf8Str = strlen8to16_loop utf8Str 0 0"

definition leaderMask :: "nat \<Rightarrow> u32" where
  "leaderMask seq_len = (if seq_len = 1 then 0xffffffff else if seq_len = 2 then 0x1f else if seq_len = 3 then 0x0f else 0x07)"

fun extension_bytes :: "nat \<Rightarrow> u32 \<Rightarrow> u8 list \<Rightarrow> (u32 \<times> u8 list) res" where
  "extension_bytes 0 ret p = Inr (ret, p)"
| "extension_bytes (Suc i) ret [] = Inl OutOfBounds"
| "extension_bytes (Suc i) ret (c # p) =
     (if c = 0 then Inr (UTF16_REPLACEMENT_CHAR, c # p)
      else if c AND 0xc0 \<noteq> 0x80 then Inr (UTF16_REPLACEMENT_CHAR, c # p)
      else extension_bytes i (push_bit 6 ret OR (0x3f AND ucast c)) p)"

fun getUtf32FromUtf8 :: "u8 list \<Rightarrow> (u32 \<times> u8 list) res" where
  "getUtf32FromUtf8 [] = Inl OutOfBounds"
| "getUtf32FromUtf8 (c # p) =
     (if c AND 0xc0 = 0x80 then Inr (UTF16_REPLACEMENT_CHAR, p)
      else
        (let seq_len = UTF8_SEQ_LENGTH c; ret = ucast c AND leaderMask seq_len
         in if c = 0 then Inr (ret, c # p) else extension_bytes (seq_len - 1) ret p))"

definition code_units :: "u32 \<Rightarrow> u16 list" where
  "code_units ret =
     (if ret \<le> 0xffff then [ucast ret]
      else if ret \<le> UNICODE_UPPER_LIMIT
      then [ucast (0xd800 OR drop_bit 10 (ret - 0x10000)), ucast (0xdc00 OR ((ret - 0x10000) AND 0x3ff))]
      else [ucast UTF16_REPLACEMENT_CHAR])"

lemma extension_bytes_shorter: "extension_bytes i ret p = Inr (u, p') \<Longrightarrow> length p' \<le> length p"
  by (induction i ret p rule: extension_bytes.induct) (auto split: if_splits)

lemma getUtf32_shorter: "getUtf32FromUtf8 (c # p) = Inr (u, p') \<Longrightarrow> c \<noteq> 0 \<Longrightarrow> length p' \<le> length p"
  by (auto simp: Let_def dest: extension_bytes_shorter split: if_splits)

text \<open>\<open>strcpy8to16\<close> into a buffer of \<open>cap\<close> elements.\<close>

function strcpy8to16_loop :: "nat \<Rightarrow> u8 list \<Rightarrow> u16 list \<Rightarrow> u16 list res" where
  "strcpy8to16_loop cap [] dest = Inl OutOfBounds"
| "strcpy8to16_loop cap (c # p) dest =
     (if c = 0 then Inr dest
      else
        (case getUtf32FromUtf8 (c # p) of
           Inl e \<Rightarrow> Inl e
         | Inr (ret, p') \<Rightarrow>
             if length dest + length (code_units ret) \<le> cap
             then strcpy8to16_loop cap p' (dest @ code_units ret) else Inl OutOfBounds))"
  by pat_completeness auto
termination
  by (relation "measure (\<lambda>(_, p, _). length p)") (auto dest!: getUtf32_shorter simp del: getUtf32FromUtf8.simps)

declare strcpy8to16_loop.simps [simp del] getUtf32FromUtf8.simps [simp del]

definition strcpy8to16 :: "nat \<Rightarrow> u8 list \<Rightarrow> u16 list res" where
  "strcpy8to16 cap utf8Str = strcpy8to16_loop cap utf8Str []"

text \<open>\<open>malloc\<close> is taken to succeed for lengths that fit the address space.\<close>

definition strdup8to16 :: "u8 list \<Rightarrow> u16 list option res" where
  "strdup8to16 s =
     rbind (strlen8to16 s) (\<lambda>len.
     if len \<noteq> 0 \<and> (2 ^ 64 - 1) div len < 2 then Inr None
     else rbind (strcpy8to16 len s) (\<lambda>ret. Inr (Some ret)))"

text \<open>
  \<open>strcpylen8to16\<close> converts until it has passed \<open>length\<close> bytes. Each iteration writes at least one element,
  so on a buffer of a given size the loop ends, out of bounds if not before.
\<close>

lemma code_units_nonempty: "0 < length (code_units r)"
  by (simp add: code_units_def)

function strcpylen8to16_loop :: "nat \<Rightarrow> nat \<Rightarrow> u8 list \<Rightarrow> u16 list \<Rightarrow> u16 list res" where
  "strcpylen8to16_loop cap end p dest =
     (if length p \<le> end then Inr dest
      else
        (case getUtf32FromUtf8 p of
           Inl e \<Rightarrow> Inl e
         | Inr (ret, p') \<Rightarrow>
             if length dest + length (code_units ret) \<le> cap
             then strcpylen8to16_loop cap end p' (dest @ code_units ret) else Inl OutOfBounds))"
  by pat_completeness auto
termination
proof (relation "measure (\<lambda>(cap, _, _, dest). cap - length dest)")
  fix cap e :: nat and p p' :: "u8 list" and dest :: "u16 list" and x r
  assume "length dest + length (code_units r) \<le> cap"
  then show "((cap, e, p', dest @ code_units r), (cap, e, p, dest)) \<in> measure (\<lambda>(cap, _, _, dest). cap - length dest)"
    using code_units_nonempty [of r] by (simp del: length_greater_0_conv)
qed simp

declare strcpylen8to16_loop.simps [simp del]

definition strcpylen8to16 :: "nat \<Rightarrow> u8 list \<Rightarrow> nat \<Rightarrow> u16 list res" where
  "strcpylen8to16 cap utf8Str len = strcpylen8to16_loop cap (length utf8Str - len) utf8Str []"

section \<open>Bytes\<close>

text \<open>A property of all bytes is checked byte by byte.\<close>

lemma all_bytes:
  assumes "list_all (\<lambda>k. P (word_of_int k :: u8)) [0..255]"
  shows "P c"
proof -
  have "0 \<le> uint c" by (rule unsigned_greater_eq)
  moreover have "uint c < 2 ^ LENGTH(8)" by (rule unsigned_less)
  ultimately have "uint c \<in> set [0..255]" by simp
  then have "P (word_of_int (uint c))" using assms unfolding list_all_iff by blast
  then show ?thesis by simp
qed

lemma bit_field: "bit (push_bit a (mask l) :: int) n \<longleftrightarrow> a \<le> n \<and> n < a + l"
  by (auto simp: bit_push_bit_iff bit_mask_iff)

lemma bit_3f: "bit (0x3f :: int) n \<longleftrightarrow> 0 \<le> n \<and> n < 6"
  using bit_field [of 0 6 n] by (simp add: mask_eq_exp_minus_1 push_bit_eq_mult)

lemma bit_0f: "bit (0x0f :: int) n \<longleftrightarrow> 0 \<le> n \<and> n < 4"
  using bit_field [of 0 4 n] by (simp add: mask_eq_exp_minus_1 push_bit_eq_mult)

lemma bit_1f: "bit (0x1f :: int) n \<longleftrightarrow> 0 \<le> n \<and> n < 5"
  using bit_field [of 0 5 n] by (simp add: mask_eq_exp_minus_1 push_bit_eq_mult)

lemma bit_80: "bit (0x80 :: int) n \<longleftrightarrow> 7 \<le> n \<and> n < 8"
  using bit_field [of 7 1 n] by (simp add: mask_eq_exp_minus_1 push_bit_eq_mult)

lemma bit_c0: "bit (0xc0 :: int) n \<longleftrightarrow> 6 \<le> n \<and> n < 8"
  using bit_field [of 6 2 n] by (simp add: mask_eq_exp_minus_1 push_bit_eq_mult)

lemma bit_e0: "bit (0xe0 :: int) n \<longleftrightarrow> 5 \<le> n \<and> n < 8"
  using bit_field [of 5 3 n] by (simp add: mask_eq_exp_minus_1 push_bit_eq_mult)

lemma bit_f0: "bit (0xf0 :: int) n \<longleftrightarrow> 4 \<le> n \<and> n < 8"
  using bit_field [of 4 4 n] by (simp add: mask_eq_exp_minus_1 push_bit_eq_mult)

lemma bit_fc0: "bit (0xfc0 :: int) n \<longleftrightarrow> 6 \<le> n \<and> n < 12"
  using bit_field [of 6 6 n] by (simp add: mask_eq_exp_minus_1 push_bit_eq_mult)

lemma bit_ffff: "bit (0xffff :: int) n \<longleftrightarrow> n < 16"
  using bit_field [of 0 16 n] by (simp add: mask_eq_exp_minus_1)

lemmas byte_bits = bit_and_iff bit_or_iff bit_ucast_iff bit_push_bit_iff bit_drop_bit_eq
  bit_3f bit_0f bit_1f bit_80 bit_c0 bit_e0 bit_f0 bit_fc0

lemma lead_bytes:
  "(c AND 0xf0 = 0xe0 \<longrightarrow> UTF8_SEQ_LENGTH c = 3 \<and> c AND 0xc0 \<noteq> 0x80 \<and> c \<noteq> 0)
   \<and> (c AND 0xe0 = 0xc0 \<longrightarrow> UTF8_SEQ_LENGTH c = 2 \<and> c AND 0xc0 \<noteq> 0x80 \<and> c \<noteq> 0)
   \<and> (c < 0x80 \<longrightarrow> UTF8_SEQ_LENGTH c = 1 \<and> c AND 0xc0 \<noteq> 0x80)
   \<and> 1 \<le> UTF8_SEQ_LENGTH c \<and> UTF8_SEQ_LENGTH c \<le> 4
   \<and> (c AND 0xc0 = 0x80 \<longrightarrow> c \<noteq> 0)"
  by (rule all_bytes) code_simp

text \<open>The bytes of a unit, and what the decoder takes from them.\<close>

lemma extension_unit:
  "(ucast (((w :: u32) AND 0x3f) OR 0x80) :: u8) AND 0xc0 = 0x80"
  "0x3f AND ucast (ucast ((w AND 0x3f) OR 0x80) :: u8) = w AND 0x3f"
  by (rule bit_word_eqI, auto simp: byte_bits)+

lemma lead3:
  "(ucast (drop_bit 12 (ucast (c :: u16) :: u32) OR 0xe0) :: u8) AND 0xf0 = 0xe0"
  "ucast (ucast (drop_bit 12 (ucast c :: u32) OR 0xe0) :: u8) AND (0x0f :: u32) = drop_bit 12 (ucast c)"
  by (rule bit_word_eqI, auto simp: byte_bits dest: bit_imp_le_length)+

lemma join3:
  "push_bit 6 (push_bit 6 (drop_bit 12 (ucast (c :: u16) :: u32)) OR (drop_bit 6 (ucast c) AND 0x3f)) OR (ucast c AND 0x3f) = ucast c"
proof (rule bit_word_eqI)
  fix n assume "n < LENGTH(32)"
  show "bit (push_bit 6 (push_bit 6 (drop_bit 12 (ucast c :: u32)) OR (drop_bit 6 (ucast c) AND 0x3f)) OR (ucast c AND 0x3f)) n
      = bit (ucast c :: u32) n"
    by (cases "n < 12") (auto simp: byte_bits dest: bit_imp_le_length)
qed

lemma less_bits:
  fixes c :: "'a :: len word"
  assumes "unat c < 2 ^ k" "bit c n"
  shows "n < k"
proof (rule ccontr)
  assume "\<not> n < k"
  then have p: "(2 :: nat) ^ k \<le> 2 ^ n" by simp
  have "unat c div 2 ^ n = 0" using p assms(1) by (intro div_less) linarith
  moreover have "bit (unat c) n" using assms(2) by (simp add: bit_unsigned_iff bit_imp_le_length)
  ultimately show False by (simp add: bit_iff_odd)
qed

lemma lead2:
  assumes "(c :: u16) \<le> 0x7ff"
  shows "(ucast (drop_bit 6 (ucast c :: u32) OR 0xc0) :: u8) AND 0xe0 = 0xc0"
    "ucast (ucast (drop_bit 6 (ucast c :: u32) OR 0xc0) :: u8) AND (0x1f :: u32) = drop_bit 6 (ucast c)"
proof -
  have "unat c < 2 ^ 11" using assms by (simp add: word_le_nat_alt)
  then have b: "n < 11" if "bit c n" for n using less_bits [of c 11 n] that by simp
  show "(ucast (drop_bit 6 (ucast c :: u32) OR 0xc0) :: u8) AND 0xe0 = 0xc0"
    by (rule bit_word_eqI) (auto simp: byte_bits dest: b)
  show "ucast (ucast (drop_bit 6 (ucast c :: u32) OR 0xc0) :: u8) AND (0x1f :: u32) = drop_bit 6 (ucast c)"
    by (rule bit_word_eqI) (auto simp: byte_bits dest: b)
qed

lemma join2: "push_bit 6 (drop_bit 6 (w :: u32)) OR (w AND 0x3f) = w"
proof (rule bit_word_eqI)
  fix n assume "n < LENGTH(32)"
  then show "bit (push_bit 6 (drop_bit 6 w) OR (w AND 0x3f)) n = bit w n"
    by (cases "n < 6") (auto simp: byte_bits)
qed

lemma ucast_le: "(ucast (c :: u16) :: u32) \<le> 0xffff"
proof -
  have "unat c < 2 ^ LENGTH(16)" by (rule unsigned_less)
  then show ?thesis by (simp add: word_le_nat_alt unsigned_ucast_eq take_bit_nat_eq_self)
qed

lemma ucast_gr: "(n < unat c) = (of_nat n < (ucast (c :: u16) :: u32))" if "n < 65536"
proof -
  have "unat c < 2 ^ LENGTH(16)" by (rule unsigned_less)
  then show ?thesis using that by (simp add: word_less_nat_alt unsigned_ucast_eq take_bit_nat_eq_self unat_of_nat)
qed

lemma extension_step:
  "extension_bytes (Suc i) ret (ucast ((w AND 0x3f) OR 0x80) # p) = extension_bytes i (push_bit 6 ret OR (w AND 0x3f)) p"
proof -
  have "(ucast ((w AND 0x3f) OR 0x80) :: u8) \<noteq> 0"
    using extension_unit(1) [of w] by auto
  then show ?thesis using extension_unit [of w] by simp
qed

lemma decode3:
  assumes "c > 0x7ff"
  shows "getUtf32FromUtf8 (unit_bytes c @ p) = Inr (ucast c, p)"
proof -
  have "(ucast c :: u32) > 0x7ff" using assms ucast_gr [of "0x7ff" c] by (simp add: word_less_nat_alt)
  then have u: "unit_bytes c = [ucast (drop_bit 12 (ucast c :: u32) OR 0xe0),
      ucast ((drop_bit 6 (ucast c :: u32) AND 0x3f) OR 0x80), ucast (((ucast c :: u32) AND 0x3f) OR 0x80)]"
    by (simp add: unit_bytes_def Let_def)
  show ?thesis
    using lead_bytes [of "ucast (drop_bit 12 (ucast c :: u32) OR 0xe0)"] lead3 [of c]
    by (simp add: u getUtf32FromUtf8.simps leaderMask_def numeral_2_eq_2 extension_step join3 [simplified] del: extension_bytes.simps(3))
qed

lemma decode2:
  assumes "c \<le> 0x7ff" "c > 0x7f \<or> c = 0"
  shows "getUtf32FromUtf8 (unit_bytes c @ p) = Inr (ucast c, p)"
proof -
  have "\<not> (ucast c :: u32) > 0x7ff" "(ucast c :: u32) > 0x7f \<or> (ucast c :: u32) = 0"
    using assms ucast_gr [of "0x7ff" c] ucast_gr [of "0x7f" c] by (auto simp: word_less_nat_alt word_le_nat_alt)
  then have u: "unit_bytes c = [ucast (drop_bit 6 (ucast c :: u32) OR 0xc0), ucast (((ucast c :: u32) AND 0x3f) OR 0x80)]"
    by (simp add: unit_bytes_def Let_def)
  show ?thesis
    using lead_bytes [of "ucast (drop_bit 6 (ucast c :: u32) OR 0xc0)"] lead2 [OF assms(1)]
    by (simp add: u getUtf32FromUtf8.simps leaderMask_def extension_step join2 del: extension_bytes.simps(3))
qed

lemma small_byte:
  assumes "unat (c :: u16) < 128"
  shows "(ucast (ucast (ucast c :: u32) :: u8) :: u32) = ucast c" "(ucast (ucast c :: u32) :: u8) < 0x80"
proof -
  have c: "unat c < 2 ^ 7" using assms by simp
  have bits: "n < 7" if "bit c n" for n using less_bits [OF c that] .
  show e: "(ucast (ucast (ucast c :: u32) :: u8) :: u32) = ucast c"
    by (rule bit_word_eqI) (auto simp: bit_ucast_iff dest: bits)
  define b where "b = (ucast (ucast c :: u32) :: u8)"
  have "unat b < 2 ^ LENGTH(8)" by (rule unsigned_less)
  then have "unat (ucast b :: u32) = unat b" by (simp add: unsigned_ucast_eq take_bit_nat_eq_self)
  moreover have "unat (ucast c :: u32) = unat c" using assms by (simp add: unsigned_ucast_eq take_bit_nat_eq_self)
  ultimately have "unat b = unat c" using e by (simp add: b_def)
  then show "(ucast (ucast c :: u32) :: u8) < 0x80" using assms by (simp add: word_less_nat_alt b_def [symmetric])
qed

lemma decode1:
  assumes "c \<le> 0x7f" "c \<noteq> 0"
  shows "getUtf32FromUtf8 (unit_bytes c @ p) = Inr (ucast c, p)"
proof -
  have c: "unat c < 2 ^ 7" "unat c \<noteq> 0" using assms by (simp_all add: word_le_nat_alt unsigned_eq_0_iff)
  have n: "\<not> (ucast c :: u32) > 0x7ff" "\<not> (ucast c :: u32) > 0x7f" "(ucast c :: u32) \<noteq> 0"
    using c ucast_gr [of "0x7ff" c] ucast_gr [of "0x7f" c] ucast_gr [of 0 c] by auto
  have u: "unit_bytes c = [ucast (ucast c :: u32)]" using n by (simp add: unit_bytes_def Let_def)
  have "unat c < 128" using c(1) by simp
  note e = small_byte(1) [OF this] and l = small_byte(2) [OF this]
  have z: "(ucast (ucast c :: u32) :: u8) \<noteq> 0" using e n(3) by auto
  have "(0xffffffff :: u32) = - 1" by simp
  then have m: "x AND 0xffffffff = (x :: u32)" for x by (simp only: and.right_neutral)
  show ?thesis
    using lead_bytes [of "ucast (ucast c :: u32)"] l z by (simp add: u getUtf32FromUtf8.simps leaderMask_def e m)
qed

lemma decode_unit: "getUtf32FromUtf8 (unit_bytes c @ p) = Inr (ucast c, p)"
  using decode1 decode2 decode3 by (meson linorder_not_le)

section \<open>Nothing is lost\<close>

lemma hd_unit_bytes: "\<exists>b bs. unit_bytes c = b # bs \<and> b \<noteq> 0"
proof -
  obtain b bs where b: "unit_bytes c = b # bs"
    by (cases "unit_bytes c") (auto simp: unit_bytes_def Let_def split: if_splits)
  have "b \<noteq> 0"
  proof
    assume "b = 0"
    then have "getUtf32FromUtf8 (unit_bytes c @ [0]) = Inr (0, 0 # bs @ [0])"
      using b by (simp add: getUtf32FromUtf8.simps Let_def)
    then show False using decode_unit [of c "[0]"] by simp
  qed
  then show ?thesis using b by blast
qed

lemma code_units_ucast: "code_units (ucast (c :: u16)) = [c]"
proof -
  have "ucast (ucast c :: u32) = c" by (rule bit_word_eqI) (auto simp: bit_ucast_iff)
  then show ?thesis using ucast_le [of c] by (simp add: code_units_def)
qed

lemma strcpy_units:
  assumes "length dest + length s \<le> cap"
  shows "strcpy8to16_loop cap (concat (map unit_bytes s) @ [0]) dest = Inr (dest @ s)"
  using assms
proof (induction s arbitrary: dest)
  case Nil
  then show ?case by (simp add: strcpy8to16_loop.simps)
next
  case (Cons c s)
  obtain b bs where b: "unit_bytes c = b # bs" "b \<noteq> 0" using hd_unit_bytes by blast
  have "getUtf32FromUtf8 (b # bs @ concat (map unit_bytes s) @ [0]) = Inr (ucast c, concat (map unit_bytes s) @ [0])"
    using decode_unit [of c "concat (map unit_bytes s) @ [0]"] b by simp
  then show ?case using Cons b by (simp add: strcpy8to16_loop.simps code_units_ucast)
qed

lemma unit_length_bytes: "unat (unit_length c) = length (unit_bytes c)"
proof -
  have "(c > 0x7ff) = ((ucast c :: u32) > 0x7ff)" "(c > 0x7f) = ((ucast c :: u32) > 0x7f)" "(c = 0) = ((ucast c :: u32) = 0)"
    using ucast_gr [of "0x7ff" c] ucast_gr [of "0x7f" c] ucast_gr [of 0 c]
    by (auto simp: word_less_nat_alt unsigned_eq_0_iff)
  then show ?thesis by (simp add: unit_length_def unit_bytes_def Let_def)
qed

lemma unit_length_le: "length (unit_bytes c) \<le> 3"
  by (simp add: unit_bytes_def Let_def)

lemma bytes_le: "length (concat (map unit_bytes s)) \<le> 3 * length s"
proof (induction s)
  case (Cons c s)
  then show ?case using unit_length_le [of c] by simp
qed simp

lemma length_fast_bytes:
  assumes "unat n + length (concat (map unit_bytes s)) < 2 ^ 64"
  shows "unat (length_fast s n) = unat n + length (concat (map unit_bytes s))"
  using assms
proof (induction s arbitrary: n)
  case (Cons c s)
  have "unat (n + unit_length c) = unat n + length (unit_bytes c)"
    using Cons.prems by (simp add: unat_word_ariths unit_length_bytes)
  then show ?case using Cons.IH [of "n + unit_length c"] Cons.prems by simp
qed simp

lemma strncpy_bytes:
  assumes "length out + length (concat (map unit_bytes s)) < cap"
  shows "strncpy16to8_loop cap s out = Inr (out @ concat (map unit_bytes s) @ [0])"
  using assms by (induction s arbitrary: out) simp_all

section \<open>The buffer is large enough for every text\<close>

fun units_needed :: "u8 list \<Rightarrow> int \<Rightarrow> nat" where
  "units_needed [] e = 0"
| "units_needed (c # p) e =
     (if c = 0 then 0
      else if c AND 0xc0 = 0x80 then (if e - 1 < 0 then 1 else 0) + units_needed p (e - 1)
      else (if UTF8_SEQ_LENGTH c = 4 then 2 else 1) + units_needed p (int (UTF8_SEQ_LENGTH c) - 1))"

lemma strlen_units: "0 \<in> set p \<Longrightarrow> strlen8to16_loop p len e = Inr (len + units_needed p e)"
  by (induction p arbitrary: len e) (auto simp: Let_def)

definition starts_extension :: "u8 list \<Rightarrow> bool" where
  "starts_extension p \<longleftrightarrow> p \<noteq> [] \<and> hd p \<noteq> 0 \<and> hd p AND 0xc0 = 0x80"

lemma units_needed_lead: "\<not> starts_extension p \<Longrightarrow> units_needed p e = units_needed p e'"
  by (cases p) (auto simp: starts_extension_def)

lemma extension_needs:
  assumes "0 \<in> set p"
  shows "\<exists>u p' e. extension_bytes k ret p = Inr (u, p') \<and> 0 \<in> set p' \<and> units_needed p (int k) = units_needed p' e
    \<and> (e \<le> 0 \<or> \<not> starts_extension p')"
  using assms
proof (induction k ret p rule: extension_bytes.induct)
  case (3 i ret c p)
  show ?case
  proof (cases "c = 0 \<or> c AND 0xc0 \<noteq> 0x80")
    case True
    then show ?thesis using 3(2) by (intro exI [of _ UTF16_REPLACEMENT_CHAR] exI [of _ "c # p"] exI [of _ "int (Suc i)"])
      (auto simp: starts_extension_def)
  next
    case False
    then obtain u p' e where "extension_bytes i (push_bit 6 ret OR (0x3f AND ucast c)) p = Inr (u, p')" "0 \<in> set p'"
      "units_needed p (int i) = units_needed p' e" "e \<le> 0 \<or> \<not> starts_extension p'"
      using 3 by auto
    then show ?thesis using False by (intro exI [of _ u] exI [of _ p'] exI [of _ e]) simp
  qed
qed (auto intro!: exI [of _ 0])

lemma extension_bound:
  assumes "extension_bytes k ret p = Inr (u, p')" "\<forall>n. bit ret n \<longrightarrow> n < b" "b + 6 * k \<le> 16"
  shows "u \<le> 0xffff"
  using assms
proof (induction k ret p arbitrary: b rule: extension_bytes.induct)
  case (1 ret p)
  then have "bit u n \<longrightarrow> n < 16" for n using order_less_le_trans by fastforce
  then have "u = u AND 0xffff" by (intro bit_word_eqI) (auto simp: bit_and_iff bit_ffff)
  then show ?case using word_and_le1 [of u "0xffff"] by simp
next
  case (3 i ret c p)
  show ?case
  proof (cases "c = 0 \<or> c AND 0xc0 \<noteq> 0x80")
    case True
    then show ?thesis using 3(2) by (auto simp: UTF16_REPLACEMENT_CHAR_def split: if_splits)
  next
    case False
    have "\<forall>n. bit (push_bit 6 ret OR (0x3f AND ucast c)) n \<longrightarrow> n < b + 6"
      using 3(3) by (auto simp: byte_bits)
    then show ?thesis using 3(1) [of "b + 6"] 3(2,4) False by auto
  qed
qed simp

lemma code_units_length: "length (code_units u) \<le> 2" "u \<le> 0xffff \<Longrightarrow> length (code_units u) = 1"
  by (simp_all add: code_units_def)

lemma lead_units:
  assumes "c AND 0xc0 \<noteq> 0x80" "c \<noteq> 0" "getUtf32FromUtf8 (c # p) = Inr (u, p')"
  shows "length (code_units u) \<le> (if UTF8_SEQ_LENGTH c = 4 then 2 else 1)"
proof (cases "UTF8_SEQ_LENGTH c = 4")
  case False
  then consider "UTF8_SEQ_LENGTH c = 1" | "UTF8_SEQ_LENGTH c = 2" | "UTF8_SEQ_LENGTH c = 3"
    using lead_bytes [of c] by linarith
  then have "u \<le> 0xffff"
  proof cases
    case 1
    then have "extension_bytes 0 (ucast c AND leaderMask 1) p = Inr (u, p')"
      using assms by (simp add: getUtf32FromUtf8.simps Let_def)
    moreover have "\<forall>n. bit (ucast c AND leaderMask 1 :: u32) n \<longrightarrow> n < 8"
      by (auto simp: bit_and_iff bit_ucast_iff dest: bit_imp_le_length)
    ultimately show ?thesis by (rule extension_bound) simp
  next
    case 2
    then have "extension_bytes 1 (ucast c AND leaderMask 2) p = Inr (u, p')"
      using assms by (simp add: getUtf32FromUtf8.simps Let_def)
    moreover have "\<forall>n. bit (ucast c AND leaderMask 2 :: u32) n \<longrightarrow> n < 5" by (auto simp: leaderMask_def byte_bits)
    ultimately show ?thesis by (rule extension_bound) simp
  next
    case 3
    then have "extension_bytes 2 (ucast c AND leaderMask 3) p = Inr (u, p')"
      using assms by (simp add: getUtf32FromUtf8.simps Let_def)
    moreover have "\<forall>n. bit (ucast c AND leaderMask 3 :: u32) n \<longrightarrow> n < 4" by (auto simp: leaderMask_def byte_bits)
    ultimately show ?thesis by (rule extension_bound) simp
  qed
  then show ?thesis using code_units_length(2) by simp
qed (simp add: code_units_length(1))

lemma next_code:
  assumes "0 \<in> set (c # p)" "c \<noteq> 0" "e \<le> 0 \<or> \<not> starts_extension (c # p)"
  shows "\<exists>u p' e'. getUtf32FromUtf8 (c # p) = Inr (u, p') \<and> 0 \<in> set p' \<and> (e' \<le> 0 \<or> \<not> starts_extension p')
    \<and> length p' < length (c # p) \<and> length (code_units u) + units_needed p' e' \<le> units_needed (c # p) e"
proof (cases "c AND 0xc0 = 0x80")
  case True
  then have "e \<le> 0" using assms by (simp add: starts_extension_def)
  then show ?thesis
    using True assms
    by (intro exI [of _ UTF16_REPLACEMENT_CHAR] exI [of _ p] exI [of _ "e - 1"])
      (simp add: getUtf32FromUtf8.simps code_units_length(2) UTF16_REPLACEMENT_CHAR_def)
next
  case False
  define n where "n = UTF8_SEQ_LENGTH c - 1"
  have n: "int n = int (UTF8_SEQ_LENGTH c) - 1" using lead_bytes [of c] by (simp add: n_def)
  have "0 \<in> set p" using assms by simp
  from extension_needs [OF this, of n "ucast c AND leaderMask (UTF8_SEQ_LENGTH c)"] obtain u p' e' where
    u: "extension_bytes n (ucast c AND leaderMask (UTF8_SEQ_LENGTH c)) p = Inr (u, p')" "0 \<in> set p'"
      "units_needed p (int n) = units_needed p' e'" "e' \<le> 0 \<or> \<not> starts_extension p'" by blast
  have g: "getUtf32FromUtf8 (c # p) = Inr (u, p')" using False assms(2) u(1) by (simp add: getUtf32FromUtf8.simps Let_def n_def)
  show ?thesis
    using g u(2-4) lead_units [OF False assms(2) g] getUtf32_shorter [OF g assms(2)] False assms(2) n
    by (intro exI [of _ u] exI [of _ p'] exI [of _ e']) simp
qed

lemma strcpy_fits:
  assumes "0 \<in> set p" "e \<le> 0 \<or> \<not> starts_extension p" "length dest + units_needed p e \<le> cap"
  shows "\<exists>out. strcpy8to16_loop cap p dest = Inr (dest @ out) \<and> length out \<le> units_needed p e"
  using assms
proof (induction "length p" arbitrary: p dest e rule: less_induct)
  case less
  obtain c q where p: "p = c # q" using less.prems(1) by (cases p) auto
  show ?case
  proof (cases "c = 0")
    case True
    then show ?thesis by (simp add: p strcpy8to16_loop.simps)
  next
    case False
    obtain u p' e' where u: "getUtf32FromUtf8 p = Inr (u, p')" "0 \<in> set p'" "e' \<le> 0 \<or> \<not> starts_extension p'"
      "length p' < length p" "length (code_units u) + units_needed p' e' \<le> units_needed p e"
      using next_code [OF _ False, of q e] less.prems p by auto
    have "length (dest @ code_units u) + units_needed p' e' \<le> cap" using u(5) less.prems(3) by simp
    then obtain out where "strcpy8to16_loop cap p' (dest @ code_units u) = Inr ((dest @ code_units u) @ out)"
      "length out \<le> units_needed p' e'"
      using less.hyps [OF u(4,2,3)] by blast
    then show ?thesis using u(1,5) False less.prems(3) by (simp add: p strcpy8to16_loop.simps)
  qed
qed

lemma strnlen_bytes:
  assumes "length s < (2 ^ 64 - 2) div 3"
  shows "unat (strnlen16to8 s) = length (concat (map unit_bytes s))"
proof -
  have "3 * length s < 2 ^ 64" using assms by simp
  then have "length (concat (map unit_bytes s)) < 2 ^ 64" using bytes_le [of s] by linarith
  then have "unat (length_fast s 0) = length (concat (map unit_bytes s))" using length_fast_bytes [of 0 s] by simp
  moreover have "(of_nat (length s) :: u64) < (SIZE_MAX - 1) div 3"
    using assms by (simp add: word_less_nat_alt SIZE_MAX_def unat_of_nat)
  ultimately show ?thesis by (simp add: strnlen16to8_def)
qed

lemma unit_bytes_shape:
  "\<exists>b ws. unit_bytes c = b # map (\<lambda>w :: u32. ucast ((w AND 0x3f) OR 0x80)) ws \<and> Suc (length ws) = UTF8_SEQ_LENGTH b
     \<and> UTF8_SEQ_LENGTH b \<le> 3 \<and> b AND 0xc0 \<noteq> 0x80 \<and> b \<noteq> 0"
proof -
  have g: "(0x7ff < (ucast c :: u32)) = (0x7ff < c)" "(0x7f < (ucast c :: u32)) = (0x7f < c)" "((ucast c :: u32) = 0) = (c = 0)"
    using ucast_gr [of "0x7ff" c] ucast_gr [of "0x7f" c] ucast_gr [of 0 c]
    by (auto simp: word_less_nat_alt unsigned_eq_0_iff)
  consider "0x7ff < c" | "\<not> 0x7ff < c" "0x7f < c \<or> c = 0" | "\<not> 0x7f < c" "c \<noteq> 0" by blast
  then show ?thesis
  proof cases
    case 1
    then show ?thesis
      using lead_bytes [of "ucast (drop_bit 12 (ucast c :: u32) OR 0xe0)"] lead3(1) [of c] g
      by (intro exI [of _ "ucast (drop_bit 12 (ucast c :: u32) OR 0xe0)"] exI [of _ "[drop_bit 6 (ucast c), ucast c]"])
        (simp add: unit_bytes_def Let_def)
  next
    case 2
    then show ?thesis
      using lead_bytes [of "ucast (drop_bit 6 (ucast c :: u32) OR 0xc0)"] lead2(1) [of c] g
      by (intro exI [of _ "ucast (drop_bit 6 (ucast c :: u32) OR 0xc0)"] exI [of _ "[ucast c]"])
        (simp add: unit_bytes_def Let_def)
  next
    case 3
    obtain b bs where b: "unit_bytes c = b # bs" "b \<noteq> 0" using hd_unit_bytes by blast
    have "\<not> 0x7ff < c" using 3(1) by (simp add: word_less_nat_alt)
    then have u: "unit_bytes c = [ucast (ucast c :: u32)]" using 3 g by (simp add: unit_bytes_def Let_def)
    have "unat c < 128" using 3(1) by (simp add: word_less_nat_alt)
    then have "b < 0x80" using small_byte [of c] u b(1) by simp
    then show ?thesis using u b lead_bytes [of b] by (intro exI [of _ b] exI [of _ "[]"]) simp
  qed
qed

lemma units_of_extensions:
  "units_needed (map (\<lambda>w :: u32. ucast ((w AND 0x3f) OR 0x80)) ws @ p) (int (length ws)) = units_needed p 0"
proof (induction ws)
  case (Cons w ws)
  have "(ucast ((w AND 0x3f) OR 0x80) :: u8) \<noteq> 0" using extension_unit(1) [of w] by auto
  then show ?case using Cons extension_unit(1) [of w] by simp
qed simp

lemma units_of_unit: "units_needed (unit_bytes c @ p) e = Suc (units_needed p 0)"
proof -
  obtain b and ws :: "u32 list" where b: "unit_bytes c = b # map (\<lambda>w. ucast ((w AND 0x3f) OR 0x80)) ws"
    "Suc (length ws) = UTF8_SEQ_LENGTH b" "UTF8_SEQ_LENGTH b \<le> 3" "b AND 0xc0 \<noteq> 0x80" "b \<noteq> 0"
    using unit_bytes_shape by blast
  have "int (UTF8_SEQ_LENGTH b) - 1 = int (length ws)" using b(2) by linarith
  then show ?thesis using b(1,3-5) units_of_extensions [of ws p] by simp
qed

text \<open>
  Property C31. Conversion to modified UTF-8 and back is the identity on every sequence of 16-bit units,
  well-formed UTF-16 or not, with embedded zeros and unpaired surrogates: \<open>strndup16to8\<close> fills its buffer
  exactly, and \<open>strdup8to16\<close> of the result returns the units that went in.
\<close>

theorem jstring_roundtrip:
  assumes "length s < (2 ^ 64 - 2) div 3"
  shows "\<exists>t. strndup16to8 True s = Inr (Some t) \<and> strdup8to16 t = Inr (Some s)"
proof -
  define t where "t = concat (map unit_bytes s)"
  have l: "unat (strnlen16to8 s) = length t" using strnlen_bytes [OF assms] by (simp add: t_def)
  have "3 * length s < 2 ^ 64 - 2" using assms by simp
  then have b: "length t < 2 ^ 64 - 2" using bytes_le [of s] by (simp add: t_def)
  have "strnlen16to8 s < SIZE_MAX - 1" using l b by (simp add: word_less_nat_alt SIZE_MAX_def)
  moreover have "unat (strnlen16to8 s + 1) = Suc (length t)" using l b by (simp add: unat_word_ariths)
  ultimately have e: "strndup16to8 True s = Inr (Some (t @ [0]))"
    using strncpy_bytes [of "[]" s "Suc (length t)"] by (simp add: strndup16to8_def strncpy16to8_def Let_def t_def)
  have "units_needed (concat (map unit_bytes xs) @ [0]) e = length xs" for xs e
    by (induction xs arbitrary: e) (simp_all add: units_of_unit)
  then have "strlen8to16 (t @ [0]) = Inr (length s)" by (simp add: strlen8to16_def strlen_units t_def)
  moreover have "length s \<noteq> 0 \<Longrightarrow> \<not> (2 ^ 64 - 1) div length s < 2" 
    using assms div_le_mono2 [of "length s" "(2 ^ 64 - 2) div 3" "2 ^ 64 - 1"] by auto
  ultimately have "strdup8to16 (t @ [0]) = Inr (Some s)"
    using strcpy_units [of "[]" s "length s"] by (auto simp: strdup8to16_def strcpy8to16_def t_def)
  then show ?thesis using e by blast
qed



theorem jstring_roundtrip_witness:
  "\<exists>t. strndup16to8 True [0x41, 0, 0xd800, 0x20ac] = Inr (Some t) \<and> strdup8to16 t = Inr (Some [0x41, 0, 0xd800, 0x20ac])"
  by (rule jstring_roundtrip) simp


section \<open>A length with a zero in it\<close>

text \<open>
  \<open>getUtf32FromUtf8\<close> does not step over a NUL, so \<open>strcpylen8to16\<close>, which counts bytes instead of looking for
  one, writes zeros for ever once it meets a NUL: past the end of any buffer.
\<close>

theorem strcpylen8to16_overruns:
  "strcpylen8to16 cap (0 # rest) (Suc n) = Inl OutOfBounds"
proof -
  have g: "getUtf32FromUtf8 (0 # rest) = Inr (0, 0 # rest)" by (simp add: getUtf32FromUtf8.simps Let_def)
  have l: "length (code_units 0) = 1" by (simp add: code_units_def)
  have "strcpylen8to16_loop cap (length rest - n) (0 # rest) dest = Inl OutOfBounds" for dest
  proof (induction "cap - length dest" arbitrary: dest)
    case 0
    then show ?case using g l by (subst strcpylen8to16_loop.simps) simp
  next
    case (Suc k)
    have "k = cap - length (dest @ code_units 0)" using Suc(2) l by simp
    then have "strcpylen8to16_loop cap (length rest - n) (0 # rest) (dest @ code_units 0) = Inl OutOfBounds"
      by (rule Suc(1))
    then show ?case using g l by (subst strcpylen8to16_loop.simps) simp
  qed
  then show ?thesis by (simp add: strcpylen8to16_def)
qed

end
