(* ===== verification/RecordStream.thy ===== *)
theory RecordStream
  imports Os
begin

text \<open>
  The record reader of \<open>libcutils/record_stream.c\<close>: records with a four byte big-endian length, collected in
  one buffer from a descriptor that delivers the stream in pieces. Pointers into the buffer are offsets.
  The reader is shown to return every record of the stream, in order, for every way the stream is cut.
\<close>

section \<open>State and operations\<close>

definition HEADER_SIZE :: nat where "HEADER_SIZE = 4"

record RecordStream =
  rs_fd :: int
  rs_maxRecordLen :: nat
  rs_buffer :: bytes
  rs_unconsumed :: nat
  rs_read_end :: nat

definition record_stream_new :: "int \<Rightarrow> nat \<Rightarrow> RecordStream res" where
  "record_stream_new fd maxRecordLen =
     rbind (check_that (maxRecordLen \<le> 0xffff) ''maxRecordLen <= 0xffff'') (\<lambda>_.
     Inr \<lparr>rs_fd = fd, rs_maxRecordLen = maxRecordLen, rs_buffer = replicate (maxRecordLen + HEADER_SIZE) NUL,
          rs_unconsumed = 0, rs_read_end = 0\<rparr>)"

definition ntohl_at :: "bytes \<Rightarrow> nat" where
  "ntohl_at p = le_nat (rev (take 4 p))"

text \<open>\<open>getEndOfRecord\<close> on the offsets of the buffer \<open>b\<close>.\<close>

definition getEndOfRecord :: "bytes \<Rightarrow> nat \<Rightarrow> nat \<Rightarrow> nat option" where
  "getEndOfRecord b p_begin p_end =
     (if p_end < p_begin + HEADER_SIZE then None
      else
        (let len = ntohl_at (drop p_begin b); p_ret = p_begin + HEADER_SIZE + len
         in if p_end < p_ret then None else Some p_ret))"

definition getNextRecord :: "RecordStream \<Rightarrow> (bytes option) \<times> RecordStream" where
  "getNextRecord rs =
     (case getEndOfRecord (rs_buffer rs) (rs_unconsumed rs) (rs_read_end rs) of
        Some record_end \<Rightarrow>
          (let record_start = rs_unconsumed rs + HEADER_SIZE
           in (Some (take (record_end - record_start) (drop record_start (rs_buffer rs))),
               rs\<lparr>rs_unconsumed := record_end\<rparr>))
      | None \<Rightarrow> (None, rs))"

text \<open>Moving the remainder to the front of the buffer.\<close>

definition move_front :: "RecordStream \<Rightarrow> RecordStream" where
  "move_front rs =
     (if rs_unconsumed rs \<noteq> 0 then
        (let toMove = rs_read_end rs - rs_unconsumed rs
         in rs\<lparr>rs_buffer := take toMove (drop (rs_unconsumed rs) (rs_buffer rs)) @ drop toMove (rs_buffer rs),
               rs_read_end := toMove, rs_unconsumed := 0\<rparr>)
      else rs)"

datatype record_result = Record bytes | EndOfStream | ReadFailed errno

text \<open>Result \<open>0\<close> with a record or a null pointer, or \<open>-1\<close> with \<open>errno\<close>.\<close>

definition record_stream_get_next :: "RecordStream \<Rightarrow> os \<Rightarrow> (record_result \<times> RecordStream \<times> os) res" where
  "record_stream_get_next rs w =
     (case getNextRecord rs of
        (Some r, rs1) \<Rightarrow> Inr (Record r, rs1, w)
      | (None, _) \<Rightarrow>
          if rs_unconsumed rs = 0 \<and> rs_read_end rs = length (rs_buffer rs)
          then Inl (Abort ''max record length exceeded'')
          else
            (let rs1 = move_front rs
             in case adb_read (rs_fd rs) (length (rs_buffer rs1) - rs_read_end rs1) w of
                  (Inl e, w1) \<Rightarrow> Inr (ReadFailed e, rs1, w1)
                | (Inr bs, w1) \<Rightarrow>
                    if bs = [] then Inr (EndOfStream, rs1, w1)
                    else
                      (let rs2 = rs1\<lparr>rs_buffer := take (rs_read_end rs1) (rs_buffer rs1) @ bs
                                        @ drop (rs_read_end rs1 + length bs) (rs_buffer rs1),
                                     rs_read_end := rs_read_end rs1 + length bs\<rparr>
                       in case getNextRecord rs2 of
                            (Some r, rs3) \<Rightarrow> Inr (Record r, rs3, w1)
                          | (None, rs3) \<Rightarrow> Inr (ReadFailed EAGAIN, rs3, w1))))"

section \<open>The stream it reads\<close>

definition window :: "RecordStream \<Rightarrow> bytes" where
  "window rs = take (rs_read_end rs - rs_unconsumed rs) (drop (rs_unconsumed rs) (rs_buffer rs))"

definition rs_inv :: "RecordStream \<Rightarrow> bool" where
  "rs_inv rs \<longleftrightarrow> rs_unconsumed rs \<le> rs_read_end rs \<and> rs_read_end rs \<le> length (rs_buffer rs)
     \<and> length (rs_buffer rs) = rs_maxRecordLen rs + HEADER_SIZE"

text \<open>The first record of a stream, if all of it is there.\<close>

definition next_record :: "bytes \<Rightarrow> (bytes \<times> bytes) option" where
  "next_record s =
     (if length s < 4 \<or> length s < 4 + ntohl_at s then None
      else Some (take (ntohl_at s) (drop 4 s), drop (4 + ntohl_at s) s))"

lemma window_new: "record_stream_new fd n = Inr rs \<Longrightarrow> rs_inv rs \<and> window rs = [] \<and> rs_fd rs = fd \<and> rs_maxRecordLen rs = n"
  by (auto simp: record_stream_new_def rs_inv_def window_def)

lemma length_window: "rs_inv rs \<Longrightarrow> length (window rs) = rs_read_end rs - rs_unconsumed rs"
  by (auto simp: window_def rs_inv_def)

lemma ntohl_window:
  assumes "rs_inv rs" "4 \<le> length (window rs)"
  shows "ntohl_at (window rs) = ntohl_at (drop (rs_unconsumed rs) (rs_buffer rs))"
proof -
  have "4 \<le> rs_read_end rs - rs_unconsumed rs" using assms length_window by simp
  then show ?thesis by (simp add: ntohl_at_def window_def min_def)
qed

lemma getNextRecord_spec:
  assumes "rs_inv rs"
  shows "case next_record (window rs) of
      None \<Rightarrow> getNextRecord rs = (None, rs)
    | Some (r, rest) \<Rightarrow> \<exists>rs'. getNextRecord rs = (Some r, rs') \<and> rs_inv rs' \<and> window rs' = rest
        \<and> rs_fd rs' = rs_fd rs \<and> rs_maxRecordLen rs' = rs_maxRecordLen rs"
proof (cases "length (window rs) < 4 \<or> length (window rs) < 4 + ntohl_at (window rs)")
  case True
  then have "getEndOfRecord (rs_buffer rs) (rs_unconsumed rs) (rs_read_end rs) = None"
    using assms ntohl_window [OF assms] length_window [OF assms]
    by (cases "rs_read_end rs < rs_unconsumed rs + 4") (auto simp: getEndOfRecord_def HEADER_SIZE_def Let_def rs_inv_def)
  then show ?thesis using True by (simp add: next_record_def getNextRecord_def)
next
  case False
  define n where "n = ntohl_at (window rs)"
  have n: "rs_unconsumed rs + 4 + n \<le> rs_read_end rs" "n = ntohl_at (drop (rs_unconsumed rs) (rs_buffer rs))"
    using False assms ntohl_window [OF assms] length_window [OF assms] by (auto simp: n_def rs_inv_def)
  then have e: "getEndOfRecord (rs_buffer rs) (rs_unconsumed rs) (rs_read_end rs) = Some (rs_unconsumed rs + 4 + n)"
    by (simp add: getEndOfRecord_def HEADER_SIZE_def Let_def)
  define rs' where "rs' = rs\<lparr>rs_unconsumed := rs_unconsumed rs + 4 + n\<rparr>"
  have "getNextRecord rs = (Some (take n (drop 4 (window rs))), rs')"
    using e n(1) assms by (simp add: getNextRecord_def HEADER_SIZE_def Let_def rs'_def window_def drop_take take_take add.commute)
  moreover have "rs_inv rs'" using n(1) assms by (simp add: rs_inv_def rs'_def)
  moreover have "window rs' = drop (4 + n) (window rs)" using n(1) by (simp add: window_def rs'_def drop_take add.commute add.left_commute)
  ultimately show ?thesis using False by (simp add: next_record_def n_def rs'_def)
qed


lemma move_front_spec:
  assumes "rs_inv rs"
  shows "rs_inv (move_front rs) \<and> window (move_front rs) = window rs \<and> rs_unconsumed (move_front rs) = 0
    \<and> rs_fd (move_front rs) = rs_fd rs \<and> rs_maxRecordLen (move_front rs) = rs_maxRecordLen rs"
  using assms by (auto simp: move_front_def Let_def rs_inv_def window_def)

lemma next_record_append:
  assumes "next_record s = Some (r, rest)"
  shows "next_record (s @ t) = Some (r, rest @ t)"
proof -
  have l: "4 \<le> length s" "4 + ntohl_at s \<le> length s" using assms by (auto simp: next_record_def split: if_splits)
  have "ntohl_at (s @ t) = ntohl_at s" using l by (simp add: ntohl_at_def)
  then show ?thesis using assms l by (auto simp: next_record_def)
qed

text \<open>One call: the next record, or more of the stream in the window.\<close>

lemma get_next_spec:
  assumes inv: "rs_inv rs" and s: "next_record (window rs @ incoming w (rs_fd rs)) = Some (r, rest)"
    and max: "length r \<le> rs_maxRecordLen rs"
  shows "\<exists>x rs' w'. record_stream_get_next rs w = Inr (x, rs', w') \<and> rs_inv rs'
    \<and> rs_fd rs' = rs_fd rs \<and> rs_maxRecordLen rs' = rs_maxRecordLen rs
    \<and> length (incoming w' (rs_fd rs)) \<le> length (incoming w (rs_fd rs))
    \<and> (x = Record r \<and> window rs' @ incoming w' (rs_fd rs) = rest
       \<or> x = ReadFailed EAGAIN \<and> window rs' @ incoming w' (rs_fd rs) = window rs @ incoming w (rs_fd rs)
         \<and> length (incoming w' (rs_fd rs)) < length (incoming w (rs_fd rs)))"
proof (cases "next_record (window rs)")
  case (Some x)
  obtain r1 rest1 where x: "x = (r1, rest1)" by fastforce
  have "r1 = r \<and> rest1 @ incoming w (rs_fd rs) = rest"
    using next_record_append [OF Some [unfolded x], of "incoming w (rs_fd rs)"] s by simp
  then show ?thesis using getNextRecord_spec [OF inv] Some x by (auto simp: record_stream_get_next_def)
next
  case None
  define n where "n = ntohl_at (window rs @ incoming w (rs_fd rs))"
  have in_ne: "incoming w (rs_fd rs) \<noteq> []" using None s by auto
  have r: "length r = n" using s by (auto simp: next_record_def n_def split: if_splits)
  have "ntohl_at (window rs) = n" if "4 \<le> length (window rs)" using that by (simp add: n_def ntohl_at_def)
  then have short: "length (window rs) < rs_maxRecordLen rs + 4"
    using None r max by (cases "4 \<le> length (window rs)") (auto simp: next_record_def split: if_splits)
  note mf = move_front_spec [OF inv]
  define rs1 where "rs1 = move_front rs"
  have rs1: "rs_inv rs1" "window rs1 = window rs" "rs_unconsumed rs1 = 0" "rs_fd rs1 = rs_fd rs" "rs_maxRecordLen rs1 = rs_maxRecordLen rs"
    using mf by (simp_all add: rs1_def)
  have re: "rs_read_end rs1 = length (window rs)" using length_window [OF rs1(1)] rs1 by simp
  have full: "\<not> (rs_unconsumed rs = 0 \<and> rs_read_end rs = length (rs_buffer rs))"
    using short length_window [OF inv] inv by (auto simp: rs_inv_def HEADER_SIZE_def)
  have pos: "0 < length (rs_buffer rs1) - rs_read_end rs1" using re short rs1(1,5) by (simp add: rs_inv_def HEADER_SIZE_def)
  obtain bs w1 where bs: "adb_read (rs_fd rs) (length (rs_buffer rs1) - rs_read_end rs1) w = (Inr bs, w1)" "bs \<noteq> []"
    "length bs \<le> length (rs_buffer rs1) - rs_read_end rs1" "incoming w (rs_fd rs) = bs @ incoming w1 (rs_fd rs)"
    using adb_read_incoming [OF in_ne pos] by metis
  define rs2 where "rs2 = rs1\<lparr>rs_buffer := take (rs_read_end rs1) (rs_buffer rs1) @ bs
      @ drop (rs_read_end rs1 + length bs) (rs_buffer rs1), rs_read_end := rs_read_end rs1 + length bs\<rparr>"
  have rs2: "rs_inv rs2" "window rs2 = window rs @ bs" "rs_fd rs2 = rs_fd rs" "rs_maxRecordLen rs2 = rs_maxRecordLen rs"
  proof -
    have l: "length (take (rs_read_end rs1) (rs_buffer rs1)) = rs_read_end rs1" using rs1(1) by (auto simp: rs_inv_def)
    show "rs_inv rs2" using rs1(1) rs1(3) bs(3) l by (auto simp: rs_inv_def rs2_def)
    define a where "a = take (rs_read_end rs1) (rs_buffer rs1)"
    have "window rs1 = a" using rs1(3) by (simp add: window_def a_def)
    moreover have "window rs2 = a @ bs" using rs1(3) l by (simp add: window_def rs2_def a_def [symmetric])
    ultimately show "window rs2 = window rs @ bs" using rs1(2) by simp
  qed (use rs1 in \<open>simp_all add: rs2_def\<close>)
  show ?thesis
  proof (cases "next_record (window rs2)")
    case None2: None
    then have "record_stream_get_next rs w = Inr (ReadFailed EAGAIN, rs2, w1)"
      using None full bs(1,2) getNextRecord_spec [OF inv] getNextRecord_spec [OF rs2(1)]
      by (simp add: record_stream_get_next_def rs1_def [symmetric] rs2_def [symmetric] Let_def)
    then show ?thesis using rs2 bs(2,4) by simp
  next
    case (Some x)
    obtain r1 rest1 where x: "x = (r1, rest1)" by fastforce
    have "r1 = r \<and> rest1 @ incoming w1 (rs_fd rs) = rest"
      using next_record_append [OF Some [unfolded x], of "incoming w1 (rs_fd rs)"] s rs2(2) bs(4) by simp
    moreover obtain rs3 where "getNextRecord rs2 = (Some r1, rs3)" "rs_inv rs3" "window rs3 = rest1"
      "rs_fd rs3 = rs_fd rs2" "rs_maxRecordLen rs3 = rs_maxRecordLen rs2"
      using getNextRecord_spec [OF rs2(1)] Some x by auto
    ultimately show ?thesis
      using None full bs(1,2,4) getNextRecord_spec [OF inv] rs2
      by (simp add: record_stream_get_next_def rs1_def [symmetric] rs2_def [symmetric] Let_def)
  qed
qed


text \<open>A caller that repeats the call as long as it is told to.\<close>

fun read_record :: "nat \<Rightarrow> RecordStream \<Rightarrow> os \<Rightarrow> (record_result \<times> RecordStream \<times> os) res" where
  "read_record 0 rs w = Inl OutOfFuel"
| "read_record (Suc n) rs w =
     rbind (record_stream_get_next rs w) (\<lambda>(x, rs1, w1).
     if x = ReadFailed EAGAIN then read_record n rs1 w1 else Inr (x, rs1, w1))"

lemma read_record_next:
  assumes "rs_inv rs" "next_record (window rs @ incoming w (rs_fd rs)) = Some (r, rest)" "length r \<le> rs_maxRecordLen rs"
    "length (incoming w (rs_fd rs)) < n"
  shows "\<exists>rs' w'. read_record n rs w = Inr (Record r, rs', w') \<and> rs_inv rs' \<and> window rs' @ incoming w' (rs_fd rs) = rest
    \<and> rs_fd rs' = rs_fd rs \<and> rs_maxRecordLen rs' = rs_maxRecordLen rs \<and> length (incoming w' (rs_fd rs)) \<le> length (incoming w (rs_fd rs))"
  using assms
proof (induction n arbitrary: rs w)
  case (Suc n)
  obtain x rs1 w1 where g: "record_stream_get_next rs w = Inr (x, rs1, w1)" "rs_inv rs1" "rs_fd rs1 = rs_fd rs"
    "rs_maxRecordLen rs1 = rs_maxRecordLen rs"
    "x = Record r \<and> window rs1 @ incoming w1 (rs_fd rs) = rest
       \<or> x = ReadFailed EAGAIN \<and> window rs1 @ incoming w1 (rs_fd rs) = window rs @ incoming w (rs_fd rs)
         \<and> length (incoming w1 (rs_fd rs)) < length (incoming w (rs_fd rs))"
    "length (incoming w1 (rs_fd rs)) \<le> length (incoming w (rs_fd rs))"
    using get_next_spec [OF Suc.prems(1-3)] by auto
  from g(5) show ?case
  proof (elim disjE conjE)
    assume "x = ReadFailed EAGAIN" "window rs1 @ incoming w1 (rs_fd rs) = window rs @ incoming w (rs_fd rs)"
      "length (incoming w1 (rs_fd rs)) < length (incoming w (rs_fd rs))"
    then show ?thesis using g Suc.IH [of rs1 w1] Suc.prems by auto
  qed (use g in auto)
qed simp

text \<open>The stream a writer of the protocol produces.\<close>

definition record_bytes :: "bytes \<Rightarrow> bytes" where
  "record_bytes r = rev (le32 (of_nat (length r))) @ r"

lemma next_record_bytes:
  assumes "length r < 2 ^ 32"
  shows "next_record (record_bytes r @ s) = Some (r, s)"
proof -
  have "ntohl_at (record_bytes r @ s) = length r"
    using assms by (simp add: ntohl_at_def record_bytes_def unat_of_nat)
  then show ?thesis by (simp add: next_record_def record_bytes_def)
qed

fun read_records :: "nat \<Rightarrow> nat \<Rightarrow> RecordStream \<Rightarrow> os \<Rightarrow> bytes list res" where
  "read_records fuel 0 rs w = Inr []"
| "read_records fuel (Suc n) rs w =
     rbind (read_record fuel rs w) (\<lambda>(x, rs1, w1).
     case x of Record r \<Rightarrow> rbind (read_records fuel n rs1 w1) (\<lambda>rs. Inr (r # rs)) | _ \<Rightarrow> Inr [])"

lemma read_records_all:
  assumes "rs_inv rs" "window rs @ incoming w (rs_fd rs) = concat (map record_bytes ms) @ rest"
    "list_all (\<lambda>m. length m \<le> rs_maxRecordLen rs) ms" "rs_maxRecordLen rs \<le> 0xffff" "length (incoming w (rs_fd rs)) < fuel"
  shows "read_records fuel (length ms) rs w = Inr ms"
  using assms
proof (induction ms arbitrary: rs w)
  case (Cons m ms)
  have m: "length m \<le> rs_maxRecordLen rs" "list_all (\<lambda>m. length m \<le> rs_maxRecordLen rs) ms" using Cons.prems(3) by simp_all
  then have "next_record (window rs @ incoming w (rs_fd rs)) = Some (m, concat (map record_bytes ms) @ rest)"
    using Cons.prems(2,4) next_record_bytes [of m "concat (map record_bytes ms) @ rest"] by simp
  from read_record_next [OF Cons.prems(1) this m(1) Cons.prems(5)] obtain rs1 w1 where
    "read_record fuel rs w = Inr (Record m, rs1, w1)" "rs_inv rs1" "window rs1 @ incoming w1 (rs_fd rs) = concat (map record_bytes ms) @ rest"
    "rs_fd rs1 = rs_fd rs" "rs_maxRecordLen rs1 = rs_maxRecordLen rs" "length (incoming w1 (rs_fd rs)) \<le> length (incoming w (rs_fd rs))"
    by blast
  then show ?case using Cons.IH [of rs1 w1] Cons.prems(4,5) m(2) by simp
qed simp



end
