(* ===== verification/Usb.thy ===== *)
theory Usb
  imports TransportLocal
begin

text \<open>
  The USB host driver of Linux (\<open>client/usb_linux.cpp\<close>) and the packet layer above it (\<open>transport_usb.cpp\<close>):
  the search of the descriptors of a device for the adb interface, the list of known devices with its
  mark-and-sweep scan, bulk transfers, and packets over them. The directory tree of \<open>usbfs\<close> and the
  outcome of every bulk transfer are arguments. The choice between this driver and libusb
  (\<open>usb_dispatch.cpp\<close>) is the one of the native driver.
\<close>

section \<open>Descriptors\<close>

definition USB_DT_DEVICE :: nat where "USB_DT_DEVICE = 1"
definition USB_DT_CONFIG :: nat where "USB_DT_CONFIG = 2"
definition USB_DT_INTERFACE :: nat where "USB_DT_INTERFACE = 4"
definition USB_DT_ENDPOINT :: nat where "USB_DT_ENDPOINT = 5"
definition USB_DT_SS_ENDPOINT_COMP :: nat where "USB_DT_SS_ENDPOINT_COMP = 0x30"

lemmas usb_types = USB_DT_DEVICE_def USB_DT_CONFIG_def USB_DT_INTERFACE_def USB_DT_ENDPOINT_def USB_DT_SS_ENDPOINT_COMP_def

definition is_adb_interface :: "nat \<Rightarrow> nat \<Rightarrow> nat \<Rightarrow> bool" where
  "is_adb_interface usb_class usb_subclass usb_protocol \<longleftrightarrow> usb_class = 0xff \<and> usb_subclass = 0x42 \<and> usb_protocol = 1"

text \<open>The arguments with which \<open>find_usb_device\<close> calls back.\<close>

record usb_match =
  um_ep_in :: nat
  um_ep_out :: nat
  um_interface :: nat
  um_serial_index :: nat
  um_zero_mask :: u32
  um_max_packet_size :: nat

text \<open>A byte of the buffer \<open>devdesc\<close>, of which the kernel has filled a part.\<close>

definition desc_byte :: "bytes \<Rightarrow> nat \<Rightarrow> nat res" where
  "desc_byte b i = (if i < length b then Inr (code (b ! i)) else Inl OutOfBounds)"

definition desc_word :: "bytes \<Rightarrow> nat \<Rightarrow> nat res" where
  "desc_word b i = rbind (desc_byte b i) (\<lambda>lo. rbind (desc_byte b (i + 1)) (\<lambda>hi. Inr (lo + 256 * hi)))"

text \<open>How the loop over the descriptors goes on after an interface.\<close>

datatype desc_step = DescBreak | DescContinue nat | DescFound usb_match

definition skip_companion :: "bytes \<Rightarrow> nat \<Rightarrow> nat \<Rightarrow> nat res" where
  "skip_companion b desclength p =
     (if p + 2 \<le> desclength then
        rbind (desc_byte b p) (\<lambda>l.
        if l = 6 then rbind (desc_byte b (p + 1)) (\<lambda>t. Inr (if t = USB_DT_SS_ENDPOINT_COMP then p + 6 else p))
        else Inr p)
      else Inr p)"

definition is_endpoint :: "bytes \<Rightarrow> nat \<Rightarrow> bool res" where
  "is_endpoint b ep =
     rbind (desc_byte b ep) (\<lambda>l. if l \<noteq> 7 then Inr False
       else rbind (desc_byte b (ep + 1)) (\<lambda>t. Inr (t = USB_DT_ENDPOINT)))"

definition usb_endpoints :: "bytes \<Rightarrow> nat \<Rightarrow> nat \<Rightarrow> nat \<Rightarrow> desc_step res" where
  "usb_endpoints b desclength interface ep1 =
     rbind (skip_companion b desclength (ep1 + 7)) (\<lambda>ep2.
     rbind (skip_companion b desclength (ep2 + 7)) (\<lambda>p.
     if p > desclength then Inr DescBreak
     else
       rbind (is_endpoint b ep1) (\<lambda>ok1. if \<not> ok1 then Inr DescBreak else
       rbind (is_endpoint b ep2) (\<lambda>ok2. if \<not> ok2 then Inr DescBreak else
       rbind (desc_byte b (ep1 + 3)) (\<lambda>attr1.
       rbind (desc_byte b (ep2 + 3)) (\<lambda>attr2.
       if attr1 \<noteq> 2 \<or> attr2 \<noteq> 2 then Inr (DescContinue p)
       else
         rbind (desc_word b (ep1 + 4)) (\<lambda>wMaxPacketSize.
         rbind (desc_byte b (ep1 + 2)) (\<lambda>addr1.
         rbind (desc_byte b (ep2 + 2)) (\<lambda>addr2.
         rbind (desc_byte b (interface + 2)) (\<lambda>number.
         rbind (desc_byte b 16) (\<lambda>iSerialNumber.
         Inr (DescFound
           \<lparr>um_ep_in = (if addr1 \<ge> 0x80 then addr1 else addr2), um_ep_out = (if addr1 \<ge> 0x80 then addr2 else addr1),
            um_interface = number, um_serial_index = iSerialNumber,
            um_zero_mask = of_nat wMaxPacketSize - 1, um_max_packet_size = wMaxPacketSize\<rparr>))))))))))))"

definition usb_interface :: "bytes \<Rightarrow> nat \<Rightarrow> nat \<Rightarrow> nat \<Rightarrow> desc_step res" where
  "usb_interface b desclength interface len =
     (if len \<noteq> 9 then Inr DescBreak
      else
        rbind (desc_byte b (interface + 4)) (\<lambda>bNumEndpoints.
        if bNumEndpoints \<noteq> 2 then Inr (DescContinue (interface + len))
        else
          rbind (desc_byte b (interface + 5)) (\<lambda>cls.
          rbind (desc_byte b (interface + 6)) (\<lambda>sub.
          rbind (desc_byte b (interface + 7)) (\<lambda>prot.
          if is_adb_interface cls sub prot then usb_endpoints b desclength interface (interface + len)
          else Inr (DescContinue (interface + len)))))))"

text \<open>The loop. A descriptor of length zero that is no interface is met again for ever: then it is \<open>None\<close>.\<close>

partial_function (option) desc_loop :: "bytes \<Rightarrow> nat \<Rightarrow> nat \<Rightarrow> usb_match option res option" where
  "desc_loop b desclength bufptr =
     (if bufptr < desclength then
        (case rbind (desc_byte b bufptr) (\<lambda>len. rbind (desc_byte b (bufptr + 1)) (\<lambda>type. Inr (len, type))) of
           Inl e \<Rightarrow> Some (Inl e)
         | Inr (len, type) \<Rightarrow>
             if type = USB_DT_INTERFACE then
               (case usb_interface b desclength bufptr len of
                  Inl e \<Rightarrow> Some (Inl e)
                | Inr DescBreak \<Rightarrow> Some (Inr None)
                | Inr (DescFound m) \<Rightarrow> Some (Inr (Some m))
                | Inr (DescContinue p) \<Rightarrow> desc_loop b desclength p)
             else desc_loop b desclength (bufptr + len))
      else Some (Inr None))"

text \<open>
  The search of one device. A failed read gives a length of \<open>-1\<close>, with which the end of the buffer lies
  before its start and the loop is not entered.
\<close>

definition find_adb_interface :: "bytes \<Rightarrow> nat option \<Rightarrow> usb_match option res option" where
  "find_adb_interface b desclength =
     (case desclength of
        None \<Rightarrow> Some (Inr None)
      | Some n \<Rightarrow>
          if n < 18 + 9 then Some (Inr None)
          else if code (b ! 0) \<noteq> 18 \<or> code (b ! 1) \<noteq> USB_DT_DEVICE then Some (Inr None)
          else if code (b ! 18) \<noteq> 9 \<or> code (b ! 19) \<noteq> USB_DT_CONFIG then Some (Inr None)
          else desc_loop b n 27)"

section \<open>The known devices\<close>

record usb_handle =
  uh_path :: string
  uh_ep_in :: nat
  uh_ep_out :: nat
  uh_max_packet_size :: nat
  uh_zero_mask :: u32
  uh_writeable :: bool
  uh_dead :: bool
  uh_mark :: bool

text \<open>\<open>g_usb_handles\<close>, with the addresses of the handles, beside the state of the server.\<close>

record usb_host =
  ub_handles :: "(nat \<times> usb_handle) list"
  ub_next :: nat
  ub_adb :: adb

text \<open>
  What a device node gives when it is opened: for the scan (read only) with its descriptors and device
  path, and for use; and what stands in its serial number file.
\<close>

record usb_node =
  un_open :: bool
  un_desc :: bytes
  un_desclength :: "nat option"
  un_devpath :: "string option"
  un_open_rw :: bool
  un_open_ro :: bool
  un_claimed :: bool
  un_serial :: "string option"

fun mark_known :: "string \<Rightarrow> (nat \<times> usb_handle) list \<Rightarrow> bool \<times> (nat \<times> usb_handle) list" where
  "mark_known dev_name [] = (False, [])"
| "mark_known dev_name ((i, h) # hs) =
     (if uh_path h = dev_name then (True, (i, h\<lparr>uh_mark := True\<rparr>) # hs)
      else case mark_known dev_name hs of (r, hs') \<Rightarrow> (r, (i, h) # hs'))"

definition is_known_device :: "string \<Rightarrow> usb_host \<Rightarrow> bool \<times> usb_host" where
  "is_known_device dev_name s = (case mark_known dev_name (ub_handles s) of (r, hs) \<Rightarrow> (r, s\<lparr>ub_handles := hs\<rparr>))"

text \<open>\<open>usb_kick\<close>: the handle it leaves behind; the pending transfers it discards are not part of the state.\<close>

definition usb_kick :: "nat \<Rightarrow> usb_handle \<Rightarrow> adb \<Rightarrow> (usb_handle \<times> adb) res" where
  "usb_kick i h g =
     (if uh_dead h then Inr (h, g)
      else if uh_writeable h then Inr (h\<lparr>uh_dead := True\<rparr>, g)
      else rbind (unregister_usb_transport i g) (\<lambda>g1. Inr (h\<lparr>uh_dead := True\<rparr>, g1)))"

fun kick_disconnected :: "(nat \<times> usb_handle) list \<Rightarrow> adb \<Rightarrow> ((nat \<times> usb_handle) list \<times> adb) res" where
  "kick_disconnected [] g = Inr ([], g)"
| "kick_disconnected ((i, h) # hs) g =
     rbind (if \<not> uh_mark h then usb_kick i h g else Inr (h\<lparr>uh_mark := False\<rparr>, g)) (\<lambda>(h1, g1).
     rbind (kick_disconnected hs g1) (\<lambda>(hs1, g2). Inr ((i, h1) # hs1, g2)))"

definition kick_disconnected_devices :: "usb_host \<Rightarrow> usb_host res" where
  "kick_disconnected_devices s =
     rbind (kick_disconnected (ub_handles s) (ub_adb s)) (\<lambda>(hs, g). Inr (s\<lparr>ub_handles := hs, ub_adb := g\<rparr>))"

definition contains_non_digit :: "string \<Rightarrow> bool" where
  "contains_non_digit name \<longleftrightarrow> \<not> list_all isdigit (c_str name)"

text \<open>
  \<open>register_device\<close>. The serial number is read from a path made of the device path, also when there is
  none: then the pointer that is printed is invalid.
\<close>

definition register_device :: "string \<Rightarrow> usb_node \<Rightarrow> usb_match \<Rightarrow> usb_host \<Rightarrow> usb_host res" where
  "register_device dev_name node m s =
     (if list_ex (\<lambda>(i, h). uh_path h = dev_name) (ub_handles s) then Inr s
      else if \<not> un_open_rw node \<and> \<not> un_open_ro node then Inr s
      else if un_open_rw node \<and> \<not> un_claimed node then Inr s
      else
        (case un_devpath node of
           None \<Rightarrow> Inl NullDeref
         | Some dev_path \<Rightarrow>
             rbind (Trim (case un_serial node of None \<Rightarrow> [] | Some serial \<Rightarrow> serial)) (\<lambda>serial.
             (let h = \<lparr>uh_path = dev_name, uh_ep_in = um_ep_in m, uh_ep_out = um_ep_out m,
                       uh_max_packet_size = um_max_packet_size m, uh_zero_mask = um_zero_mask m,
                       uh_writeable = un_open_rw node, uh_dead = False, uh_mark = True\<rparr>
              in rbind (register_usb_transport (ub_next s) (Some serial) (Some dev_path) (uh_writeable h) (ub_adb s)) (\<lambda>g.
                 Inr (s\<lparr>ub_handles := ub_handles s @ [(ub_next s, h)], ub_next := Suc (ub_next s), ub_adb := g\<rparr>))))))"

definition usb_close :: "nat \<Rightarrow> usb_host \<Rightarrow> usb_host" where
  "usb_close i s = s\<lparr>ub_handles := filter (\<lambda>(j, _). j \<noteq> i) (ub_handles s)\<rparr>"

text \<open>One device node of a bus, a bus, and the whole tree.\<close>

definition scan_device :: "string \<Rightarrow> string \<Rightarrow> usb_node \<Rightarrow> usb_host \<Rightarrow> usb_host res option" where
  "scan_device bus_name name node s =
     (if contains_non_digit name then Some (Inr s)
      else
        (let dev_name = bus_name @ ''/'' @ name
         in case is_known_device dev_name s of
              (True, s1) \<Rightarrow> Some (Inr s1)
            | (False, s1) \<Rightarrow>
                if \<not> un_open node then Some (Inr s1)
                else case find_adb_interface (un_desc node) (un_desclength node) of
                       None \<Rightarrow> None
                     | Some (Inl e) \<Rightarrow> Some (Inl e)
                     | Some (Inr None) \<Rightarrow> Some (Inr s1)
                     | Some (Inr (Some m)) \<Rightarrow> Some (register_device dev_name node m s1)))"

fun scan_bus :: "string \<Rightarrow> (string \<times> usb_node) list \<Rightarrow> usb_host \<Rightarrow> usb_host res option" where
  "scan_bus bus_name [] s = Some (Inr s)"
| "scan_bus bus_name ((name, node) # ds) s =
     (case scan_device bus_name name node s of
        Some (Inr s1) \<Rightarrow> scan_bus bus_name ds s1
      | r \<Rightarrow> r)"

fun find_usb_device :: "string \<Rightarrow> (string \<times> (string \<times> usb_node) list option) list \<Rightarrow> usb_host \<Rightarrow> usb_host res option" where
  "find_usb_device base [] s = Some (Inr s)"
| "find_usb_device base ((bus, dir) # buses) s =
     (if contains_non_digit bus then find_usb_device base buses s
      else case dir of
             None \<Rightarrow> find_usb_device base buses s
           | Some ds \<Rightarrow>
               (case scan_bus (base @ ''/'' @ bus) ds s of
                  Some (Inr s1) \<Rightarrow> find_usb_device base buses s1
                | r \<Rightarrow> r))"

text \<open>A turn of \<open>device_poll_thread\<close>.\<close>

definition device_poll_turn :: "(string \<times> (string \<times> usb_node) list option) list \<Rightarrow> usb_host \<Rightarrow> usb_host res option" where
  "device_poll_turn tree s =
     (case find_usb_device ''/dev/bus/usb'' tree s of
        Some (Inr s1) \<Rightarrow> Some (kick_disconnected_devices s1)
      | r \<Rightarrow> r)"

section \<open>Bulk transfers\<close>

text \<open>
  The endpoints of a device as the kernel presents them: the outcomes of the coming reads and writes
  (no more reads: the device is gone; no more write outcomes: everything is taken), the transfers written,
  the sizes of the buffers offered for reading, and whether the last error of the reading thread was \<open>ETIMEDOUT\<close>,
  since \<open>usb_read\<close> looks at \<open>errno\<close> also after a transfer of no bytes.
\<close>

datatype bulk_in = BulkData bytes | BulkTimeout | BulkError
datatype bulk_out = BulkTaken nat | BulkRefused

record usb_pipe =
  up_in :: "bulk_in list"
  up_outcomes :: "bulk_out list"
  up_out :: "bytes list"
  up_requests :: "nat list"
  up_timedout :: bool

text \<open>A transfer that does not fit the buffer is an overflow, hence an error.\<close>

definition usb_bulk_read :: "usb_handle \<Rightarrow> nat \<Rightarrow> usb_pipe \<Rightarrow> bytes option \<times> usb_pipe" where
  "usb_bulk_read h len p =
     (if uh_dead h then (None, p\<lparr>up_timedout := False\<rparr>)
      else
        (let p1 = p\<lparr>up_requests := up_requests p @ [len]\<rparr>
         in case up_in p of
              [] \<Rightarrow> (None, p1\<lparr>up_timedout := False\<rparr>)
            | BulkTimeout # rest \<Rightarrow> (None, p1\<lparr>up_in := rest, up_timedout := True\<rparr>)
            | BulkError # rest \<Rightarrow> (None, p1\<lparr>up_in := rest, up_timedout := False\<rparr>)
            | BulkData bs # rest \<Rightarrow>
                if length bs > len then (None, p1\<lparr>up_in := rest, up_timedout := False\<rparr>)
                else (Some bs, p1\<lparr>up_in := rest\<rparr>)))"

definition usb_bulk_write :: "usb_handle \<Rightarrow> bytes \<Rightarrow> usb_pipe \<Rightarrow> nat option \<times> usb_pipe" where
  "usb_bulk_write h data p =
     (if uh_dead h then (None, p)
      else case up_outcomes p of
             [] \<Rightarrow> (Some (length data), p\<lparr>up_out := up_out p @ [data]\<rparr>)
           | BulkTaken n # rest \<Rightarrow>
               (Some (min n (length data)), p\<lparr>up_outcomes := rest, up_out := up_out p @ [take n data]\<rparr>)
           | BulkRefused # rest \<Rightarrow> (None, p\<lparr>up_outcomes := rest\<rparr>))"

definition usb_write :: "usb_handle \<Rightarrow> bytes \<Rightarrow> usb_pipe \<Rightarrow> int \<times> usb_pipe" where
  "usb_write h data p =
     (case usb_bulk_write h data p of
        (r, p1) \<Rightarrow>
          if r \<noteq> Some (length data) then (- 1, p1)
          else if uh_zero_mask h \<noteq> 0 \<and> (of_nat (length data) :: u32) AND uh_zero_mask h = 0 then
            (case usb_bulk_write h [] p1 of (r2, p2) \<Rightarrow> (if r2 = Some 0 then int (length data) else - 1, p2))
          else (int (length data), p1))"

text \<open>
  \<open>usb_read\<close> repeats a transfer that timed out, or that brought nothing while \<open>errno\<close> still says so.
\<close>

function usb_read :: "usb_handle \<Rightarrow> nat \<Rightarrow> usb_pipe \<Rightarrow> bytes option \<times> usb_pipe" where
  "usb_read h len p =
     (case usb_bulk_read h len p of
        (Some bs, p1) \<Rightarrow>
          if bs \<noteq> [] then (Some bs, p1)
          else if up_timedout p1 then usb_read h len p1 else (None, p1)
      | (None, p1) \<Rightarrow> if up_timedout p1 then usb_read h len p1 else (None, p1))"
  by pat_completeness auto
termination
  by (relation "measure (\<lambda>(_, _, p). length (up_in p))")
    (auto simp: usb_bulk_read_def Let_def split: if_splits list.splits bulk_in.splits)

declare usb_read.simps [simp del]

section \<open>Packets over USB\<close>

definition UsbReadMessage :: "usb_handle \<Rightarrow> usb_pipe \<Rightarrow> (amessage option \<times> usb_pipe) res" where
  "UsbReadMessage h p =
     (let usb_packet_size = uh_max_packet_size h
      in rbind (check_that (usb_packet_size \<ge> 24) ''usb_packet_size >= sizeof(*msg)'') (\<lambda>_.
         rbind (check_that (usb_packet_size < 4096) ''usb_packet_size < 4096ULL'') (\<lambda>_.
         case usb_read h usb_packet_size p of
           (Some bs, p1) \<Rightarrow> Inr (if length bs \<noteq> 24 then None else Some (amessage_of bs), p1)
         | (None, p1) \<Rightarrow> Inr (None, p1))))"

definition round_up :: "nat \<Rightarrow> nat \<Rightarrow> nat" where
  "round_up len usb_packet_size =
     (let rem_size = len mod usb_packet_size in if rem_size \<noteq> 0 then len + (usb_packet_size - rem_size) else len)"

text \<open>\<open>payload.resize(len)\<close> with what \<open>usb_read\<close> stores there, and \<open>payload.resize(rc)\<close>.\<close>

definition UsbReadPayload :: "usb_handle \<Rightarrow> amessage \<Rightarrow> usb_pipe \<Rightarrow> (Block option \<times> usb_pipe) res" where
  "UsbReadPayload h m p =
     (if unat (data_length m) > MAX_PAYLOAD then Inr (None, p)
      else
        (let len = round_up (unat (data_length m)) (uh_max_packet_size h)
         in rbind (Block_resize len Block_new) (\<lambda>b.
            case usb_read h len p of
              (None, p1) \<Rightarrow> Inr (None, p1)
            | (Some bs, p1) \<Rightarrow>
                rbind (Block_store 0 bs b) (\<lambda>b1.
                if length bs \<noteq> unat (data_length m) then Inr (None, p1)
                else rbind (Block_resize (length bs) b1) (\<lambda>b2. Inr (Some b2, p1))))))"

definition UsbConnection_Read :: "usb_handle \<Rightarrow> usb_pipe \<Rightarrow> (apacket option \<times> usb_pipe) res" where
  "UsbConnection_Read h p =
     rbind (UsbReadMessage h p) (\<lambda>(r, p1).
     case r of
       None \<Rightarrow> Inr (None, p1)
     | Some m \<Rightarrow>
         if data_length m \<noteq> 0 then
           rbind (UsbReadPayload h m p1) (\<lambda>(b, p2).
           Inr (map_option (\<lambda>b. \<lparr>msg = m, payload = b\<rparr>) b, p2))
         else Inr (Some \<lparr>msg = m, payload = Block_new\<rparr>, p1))"

definition UsbConnection_Write :: "usb_handle \<Rightarrow> apacket \<Rightarrow> usb_pipe \<Rightarrow> (bool \<times> usb_pipe) res" where
  "UsbConnection_Write h packet p =
     (case usb_write h (amessage_bytes (msg packet)) p of
        (r, p1) \<Rightarrow>
          if r \<noteq> 24 then Inr (False, p1)
          else if data_length (msg packet) \<noteq> 0 then
            (if unat (data_length (msg packet)) \<le> blk_size (payload packet) then
               (case usb_write h (take (unat (data_length (msg packet))) (Block_bytes (payload packet))) p1 of
                  (r2, p2) \<Rightarrow> Inr (r2 = int (unat (data_length (msg packet))), p2))
             else Inl OutOfBounds)
          else Inr (True, p1))"

section \<open>What is read is what was sent\<close>

lemma usb_read_data:
  assumes "\<not> uh_dead h" "up_in p = BulkData bs # rest" "bs \<noteq> []" "length bs \<le> len"
  shows "usb_read h len p = (Some bs, p\<lparr>up_in := rest, up_requests := up_requests p @ [len]\<rparr>)"
  using assms by (subst usb_read.simps) (simp add: usb_bulk_read_def Let_def)

lemma round_up_ge: "0 < k \<Longrightarrow> n \<le> round_up n k \<and> k dvd round_up n k"
proof -
  assume k: "0 < k"
  have "n + (k - n mod k) = n - n mod k + k" if "n mod k \<noteq> 0"
    using mod_less_divisor [OF k, of n] mod_less_eq_dividend [of n k] by linarith
  moreover have "k dvd n - n mod k + k" by (rule dvd_add [OF dvd_minus_mod dvd_refl])
  ultimately show ?thesis by (auto simp: round_up_def Let_def)
qed

text \<open>The transfers of a packet.\<close>

definition packet_transfers :: "apacket \<Rightarrow> bytes list" where
  "packet_transfers p = amessage_bytes (msg p) # (if blk_size (payload p) = 0 then [] else [Block_bytes (payload p)])"

lemma UsbReadPayload_ok:
  assumes h: "\<not> uh_dead h" "24 \<le> uh_max_packet_size h" and m: "unat (data_length m) = length bs" "bs \<noteq> []" "length bs \<le> MAX_PAYLOAD"
    and i: "up_in p = BulkData bs # rest"
  shows "\<exists>b. UsbReadPayload h m p = Inr (Some b, p\<lparr>up_in := rest,
      up_requests := up_requests p @ [round_up (length bs) (uh_max_packet_size h)]\<rparr>) \<and> Block_inv b \<and> Block_bytes b = bs"
proof -
  define len where "len = round_up (length bs) (uh_max_packet_size h)"
  have "length bs \<le> len" using round_up_ge [of "uh_max_packet_size h" "length bs"] h(2) by (simp add: len_def)
  moreover have "0 < length bs" using m(2) by simp
  ultimately have len: "length bs \<le> len" "len \<noteq> 0" by linarith+
  define d where "d = bs @ drop (length bs) (replicate len NUL)"
  have d: "d \<noteq> []" "length d = len" "take (length bs) d = bs" using len m(2) by (simp_all add: d_def)
  have st: "Block_store 0 bs (Block_of (replicate len NUL)) = Inr (Block_of d)"
    using len by (simp add: Block_store_of d_def)
  obtain b where b: "Block_resize (length bs) (Block_of d) = Inr b" "Block_inv b"
    "Block_bytes b = take (length bs) (Block_bytes (Block_of d))"
    using Block_resize_shrink [of "Block_of d" "length bs"] d len by auto
  show ?thesis
    using m len st b d(3) usb_read_data [OF h(1) i m(2) len(1)]
    by (simp add: UsbReadPayload_def Let_def len_def [symmetric] Block_resize_new)
qed

lemma UsbReadMessage_ok:
  assumes h: "\<not> uh_dead h" "24 \<le> uh_max_packet_size h" "uh_max_packet_size h < 4096"
    and i: "up_in p = BulkData (amessage_bytes m) # rest"
  shows "UsbReadMessage h p = Inr (Some m, p\<lparr>up_in := rest, up_requests := up_requests p @ [uh_max_packet_size h]\<rparr>)"
proof -
  have "amessage_bytes m \<noteq> []" using length_amessage_bytes [of m] by (auto simp del: length_amessage_bytes)
  from usb_read_data [OF h(1) i this, of "uh_max_packet_size h"] show ?thesis
    using h by (simp add: UsbReadMessage_def Let_def)
qed

lemma UsbConnection_Read_ok:
  assumes h: "\<not> uh_dead h" "24 \<le> uh_max_packet_size h" "uh_max_packet_size h < 4096" and q: "packet_ok q"
    and i: "up_in p = map BulkData (packet_transfers q) @ rest"
  shows "\<exists>b p'. UsbConnection_Read h p = Inr (Some \<lparr>msg = msg q, payload = b\<rparr>, p') \<and> Block_inv b
    \<and> Block_bytes b = Block_bytes (payload q) \<and> up_in p' = rest
    \<and> list_all (\<lambda>n. uh_max_packet_size h dvd n) (drop (length (up_requests p)) (up_requests p'))"
proof -
  have l: "length (Block_bytes (payload q)) = unat (data_length (msg q))" "unat (data_length (msg q)) = blk_size (payload q)"
    using q by (simp_all add: packet_ok_def)
  show ?thesis
  proof (cases "data_length (msg q) = 0")
    case True
    then have z: "blk_size (payload q) = 0" "Block_bytes (payload q) = []" using l by simp_all
    then show ?thesis
      using UsbReadMessage_ok [OF h, of p "msg q" rest] i True by (simp add: UsbConnection_Read_def packet_transfers_def Block_bytes_def Block_new_def Block_inv_def)
  next
    case False
    then have nz: "blk_size (payload q) \<noteq> 0" using l(2) by (metis unsigned_eq_0_iff)
    define bs where "bs = Block_bytes (payload q)"
    define p1 where "p1 = p\<lparr>up_in := BulkData bs # rest, up_requests := up_requests p @ [uh_max_packet_size h]\<rparr>"
    have m: "UsbReadMessage h p = Inr (Some (msg q), p1)"
      using UsbReadMessage_ok [OF h, of p "msg q" "BulkData bs # rest"] i nz by (simp add: packet_transfers_def bs_def p1_def)
    have bs: "unat (data_length (msg q)) = length bs" "bs \<noteq> []" "length bs \<le> MAX_PAYLOAD"
      using l nz q by (simp_all add: bs_def packet_ok_def) (metis length_0_conv l nz)
    obtain b where "UsbReadPayload h (msg q) p1 = Inr (Some b, p1\<lparr>up_in := rest,
        up_requests := up_requests p1 @ [round_up (length bs) (uh_max_packet_size h)]\<rparr>)" "Block_inv b" "Block_bytes b = bs"
      using UsbReadPayload_ok [OF h(1,2) bs, of p1 rest] by (auto simp: p1_def)
    then show ?thesis
      using m False round_up_ge [of "uh_max_packet_size h" "length bs"] h(2)
      by (simp add: UsbConnection_Read_def bs_def p1_def)
  qed
qed

lemma usb_write_ok:
  assumes "\<not> uh_dead h" "up_outcomes p = []"
  shows "\<exists>z. usb_write h data p = (int (length data), p\<lparr>up_out := up_out p @ data # z\<rparr>)
    \<and> z = (if uh_zero_mask h \<noteq> 0 \<and> (of_nat (length data) :: u32) AND uh_zero_mask h = 0 then [[]] else [])"
  using assms by (simp add: usb_write_def usb_bulk_write_def)

lemma UsbConnection_Write_ok:
  assumes h: "\<not> uh_dead h" and q: "packet_ok q" and o: "up_outcomes p = []"
  shows "\<exists>ts. UsbConnection_Write h q p = Inr (True, p\<lparr>up_out := up_out p @ ts\<rparr>)
    \<and> filter (\<lambda>t. t \<noteq> []) ts = packet_transfers q"
proof -
  have l: "length (Block_bytes (payload q)) = unat (data_length (msg q))" "unat (data_length (msg q)) = blk_size (payload q)"
    using q by (simp_all add: packet_ok_def)
  have ne: "amessage_bytes (msg q) \<noteq> []" using length_amessage_bytes [of "msg q"] by (auto simp del: length_amessage_bytes)
  obtain z1 where z1: "usb_write h (amessage_bytes (msg q)) p = (24, p\<lparr>up_out := up_out p @ amessage_bytes (msg q) # z1\<rparr>)"
    "filter (\<lambda>t. t \<noteq> []) z1 = []"
    using usb_write_ok [OF h o, of "amessage_bytes (msg q)"] by auto
  show ?thesis
  proof (cases "data_length (msg q) = 0")
    case True
    then show ?thesis using z1 l ne by (intro exI [of _ "amessage_bytes (msg q) # z1"])
      (simp add: UsbConnection_Write_def packet_transfers_def)
  next
    case False
    then have nz: "blk_size (payload q) \<noteq> 0" using l(2) by (metis unsigned_eq_0_iff)
    define bs where "bs = Block_bytes (payload q)"
    define p1 where "p1 = p\<lparr>up_out := up_out p @ amessage_bytes (msg q) # z1\<rparr>"
    obtain z2 where z2: "usb_write h bs p1 = (int (length bs), p1\<lparr>up_out := up_out p1 @ bs # z2\<rparr>)"
      "filter (\<lambda>t. t \<noteq> []) z2 = []"
      using usb_write_ok [OF h, of p1 bs] o by (auto simp: p1_def)
    have "bs \<noteq> []" using l nz by (auto simp: bs_def)
    then show ?thesis
      using z1 z2 False l nz ne
      by (intro exI [of _ "amessage_bytes (msg q) # z1 @ bs # z2"])
        (simp add: UsbConnection_Write_def packet_transfers_def bs_def [symmetric] p1_def)
  qed
qed



definition usb_example :: usb_handle where
  "usb_example = \<lparr>uh_path = ''/dev/bus/usb/001/002'', uh_ep_in = 0x81, uh_ep_out = 1, uh_max_packet_size = 512,
     uh_zero_mask = 511, uh_writeable = True, uh_dead = False, uh_mark = True\<rparr>"

definition usb_idle :: usb_pipe where
  "usb_idle = \<lparr>up_in = [], up_outcomes = [], up_out = [], up_requests = [], up_timedout = False\<rparr>"

definition usb_packet :: apacket where
  "usb_packet = \<lparr>msg = \<lparr>command = A_WRTE, arg0 = 1, arg1 = 2, data_length = 2, data_check = 0, magic = 0\<rparr>,
     payload = Block_of ''hi''\<rparr>"


section \<open>The search of the descriptors\<close>

lemma desc_byte_in: "i < length b \<Longrightarrow> desc_byte b i = Inr (code (b ! i))"
  by (simp add: desc_byte_def)

lemma skip_companion_safe:
  assumes "n \<le> length b"
  shows "\<exists>p'. skip_companion b n p = Inr p' \<and> p \<le> p'"
  using assms by (auto simp: skip_companion_def desc_byte_in)

lemma usb_endpoints_safe:
  assumes "n \<le> length b" "interface + 9 = ep1"
  shows "\<exists>s. usb_endpoints b n interface ep1 = Inr s"
proof -
  obtain ep2 where ep2: "skip_companion b n (ep1 + 7) = Inr ep2" "ep1 + 7 \<le> ep2" using skip_companion_safe [OF assms(1)] by blast
  obtain p where p: "skip_companion b n (ep2 + 7) = Inr p" "ep2 + 7 \<le> p" using skip_companion_safe [OF assms(1)] by blast
  show ?thesis
  proof (cases "p > n")
    case False
    then have "ep1 + 7 \<le> length b" "ep2 + 7 \<le> length b" "interface + 2 < length b" "16 < length b"
      using assms ep2(2) p(2) by simp_all
    then show ?thesis using False ep2(1) p(1)
      by (simp add: usb_endpoints_def is_endpoint_def desc_word_def desc_byte_in)
  qed (use ep2 p in \<open>simp add: usb_endpoints_def\<close>)
qed

lemma usb_interface_safe:
  assumes "n \<le> length b" "interface + 9 \<le> length b"
  shows "\<exists>s. usb_interface b n interface len = Inr s"
  using assms usb_endpoints_safe [OF assms(1), of interface "interface + 9"]
  by (auto simp: usb_interface_def desc_byte_in)

lemma desc_loop_safe:
  assumes "desc_loop b n p = Some r" "n + 9 \<le> length b"
  shows "\<exists>m. r = Inr m"
proof -
  have "n + 9 \<le> length b \<longrightarrow> (\<exists>m. r = Inr m)"
  proof (rule desc_loop.raw_induct [where P = "\<lambda>b n p r. n + 9 \<le> length b \<longrightarrow> (\<exists>m. r = Inr m)", OF _ assms(1)], intro impI)
    fix loop b n p r
    assume IH: "\<And>b n p r. loop b n p = Some r \<Longrightarrow> n + 9 \<le> length b \<longrightarrow> (\<exists>m. r = Inr m)"
      and s: "(if p < n then
         (case rbind (desc_byte b p) (\<lambda>len. rbind (desc_byte b (p + 1)) (\<lambda>type. Inr (len, type))) of
            Inl e \<Rightarrow> Some (Inl e)
          | Inr (len, type) \<Rightarrow>
              if type = USB_DT_INTERFACE then
                (case usb_interface b n p len of
                   Inl e \<Rightarrow> Some (Inl e)
                 | Inr DescBreak \<Rightarrow> Some (Inr None)
                 | Inr (DescFound m) \<Rightarrow> Some (Inr (Some m))
                 | Inr (DescContinue q) \<Rightarrow> loop b n q)
              else loop b n (p + len))
       else Some (Inr None)) = Some r" and l: "n + 9 \<le> length b"
    show "\<exists>m. r = Inr m"
    proof (cases "p < n")
      case True
      then have "p + 9 \<le> length b" using l by simp
      then obtain st where "usb_interface b n p (code (b ! p)) = Inr st"
        using l usb_interface_safe [of n b p "code (b ! p)"] by auto
      then show ?thesis
        using True s l IH by (auto simp: desc_byte_in split: if_splits desc_step.splits)
    qed (use s in auto)
  qed
  then show ?thesis using assms(2) by blast
qed

text \<open>
  Descriptors as devices send them: each starts with its length and its type.
\<close>

definition wf_desc :: "bytes \<Rightarrow> bool" where
  "wf_desc d \<longleftrightarrow> 2 \<le> length d \<and> code (d ! 0) = length d"

definition adb_interface :: "bytes \<Rightarrow> bool" where
  "adb_interface d \<longleftrightarrow> length d = 9 \<and> code (d ! 0) = 9 \<and> code (d ! 1) = USB_DT_INTERFACE \<and> code (d ! 4) = 2
     \<and> is_adb_interface (code (d ! 5)) (code (d ! 6)) (code (d ! 7))"

definition other_desc :: "bytes \<Rightarrow> bool" where
  "other_desc d \<longleftrightarrow> wf_desc d \<and> (if code (d ! 1) = USB_DT_INTERFACE then length d = 9 \<and> \<not> adb_interface d else True)"

definition bulk_endpoint :: "bytes \<Rightarrow> bool" where
  "bulk_endpoint d \<longleftrightarrow> length d = 7 \<and> code (d ! 0) = 7 \<and> code (d ! 1) = USB_DT_ENDPOINT \<and> code (d ! 3) = 2"

definition companion :: "bytes \<Rightarrow> bool" where
  "companion d \<longleftrightarrow> length d = 6 \<and> code (d ! 0) = 6 \<and> code (d ! 1) = USB_DT_SS_ENDPOINT_COMP"

lemma desc_byte_at: "i < length d \<Longrightarrow> desc_byte (pre @ d @ post) (length pre + i) = Inr (code (d ! i))"
  by (simp add: desc_byte_def nth_append)

lemma desc_loop_skip:
  assumes d: "other_desc d" and n: "length pre + length d \<le> n"
  shows "desc_loop (pre @ d @ post) n (length pre) = desc_loop (pre @ d @ post) n (length pre + length d)"
proof -
  define b where "b = pre @ d @ post"
  note at = desc_byte_at [of _ d pre post, folded b_def]
  have w: "2 \<le> length d" "code (d ! 0) = length d" using d by (simp_all add: other_desc_def wf_desc_def)
  have b0: "desc_byte b (length pre) = Inr (length d)" using at [of 0] w by fastforce
  have b1: "desc_byte b (Suc (length pre)) = Inr (code (d ! 1))" using at [of 1] w by simp
  show ?thesis
  proof (cases "code (d ! 1) = USB_DT_INTERFACE")
    case True
    then have l: "length d = 9" "\<not> adb_interface d" using d by (simp_all add: other_desc_def)
    have "usb_interface b n (length pre) 9 = Inr (DescContinue (length pre + 9))"
      using l True w at [of 4] at [of 5] at [of 6] at [of 7] by (auto simp: usb_interface_def adb_interface_def)
    then show ?thesis
      unfolding b_def [symmetric] using b0 b1 True l n by (subst desc_loop.simps) simp
  next
    case False
    then show ?thesis
      unfolding b_def [symmetric] using b0 b1 n w by (subst desc_loop.simps) simp
  qed
qed

lemma desc_loop_skips:
  assumes "list_all other_desc ds" "length pre + length (concat ds) \<le> n"
  shows "desc_loop (pre @ concat ds @ post) n (length pre) = desc_loop (pre @ concat ds @ post) n (length pre + length (concat ds))"
  using assms
proof (induction ds arbitrary: pre)
  case (Cons d ds)
  have "desc_loop (pre @ d @ concat ds @ post) n (length pre) = desc_loop (pre @ d @ concat ds @ post) n (length pre + length d)"
    using Cons.prems by (intro desc_loop_skip) simp_all
  also have "\<dots> = desc_loop ((pre @ d) @ concat ds @ post) n (length (pre @ d))" by simp
  also have "\<dots> = desc_loop ((pre @ d) @ concat ds @ post) n (length (pre @ d) + length (concat ds))"
    using Cons.prems by (intro Cons.IH) simp_all
  finally show ?case by (simp add: add.assoc)
qed simp


lemma companion_wf [simp]: "companion d \<Longrightarrow> wf_desc d"
  by (simp add: companion_def wf_desc_def)

text \<open>Behind the first endpoint an optional companion is skipped.\<close>

lemma skip_companion_opt:
  assumes "c = [] \<or> companion c" "length pre + length c + 2 \<le> n" "2 \<le> length rest" "\<not> (code (rest ! 0) = 6 \<and> code (rest ! 1) = USB_DT_SS_ENDPOINT_COMP)"
  shows "skip_companion (pre @ c @ rest) n (length pre) = Inr (length pre + length c)"
proof (cases "c = []")
  case True
  moreover have "rest \<noteq> []" using assms(3) by auto
  ultimately show ?thesis using assms desc_byte_at [of 0 rest pre "[]"] desc_byte_at [of 1 rest pre "[]"]
    by (auto simp: skip_companion_def)
next
  case False
  then have "companion c" using assms by simp
  then show ?thesis using assms desc_byte_at [of 0 c pre rest] desc_byte_at [of 1 c pre rest]
    by (auto simp: skip_companion_def companion_def)
qed

text \<open>Behind the second endpoint the next descriptor, whatever it is, ends within the bytes read.\<close>

lemma skip_companion_next:
  assumes "list_all wf_desc ms" "n = length pre + length (concat ms)"
  shows "\<exists>p. skip_companion (pre @ concat ms @ rest) n (length pre) = Inr p \<and> p \<le> n"
proof (cases ms)
  case (Cons m ms')
  then have m: "2 \<le> length m" "code (m ! 0) = length m" using assms by (simp_all add: wf_desc_def)
  have "desc_byte (pre @ m @ concat ms' @ rest) (length pre + i) = Inr (code (m ! i))" if "i < length m" for i
    using that by (rule desc_byte_at)
  from this [of 0] this [of 1]
  have "desc_byte (pre @ m @ concat ms' @ rest) (length pre) = Inr (length m)"
    "desc_byte (pre @ m @ concat ms' @ rest) (Suc (length pre)) = Inr (code (m ! 1))"
    using m by (fastforce simp: Suc_le_eq)+
  then show ?thesis using m assms Cons by (auto simp: skip_companion_def)
qed (use assms in \<open>simp add: skip_companion_def\<close>)

lemma desc_word_at: "i + 1 < length d \<Longrightarrow> desc_word (pre @ d @ post) (length pre + i) = Inr (code (d ! i) + 256 * code (d ! (i + 1)))"
  using desc_byte_at [of i d pre post] desc_byte_at [of "i + 1" d pre post] by (simp add: desc_word_def add.assoc)

lemma bulk_endpoint_read:
  assumes "bulk_endpoint e" "b = pre @ e @ post"
  shows "is_endpoint b (length pre) = Inr True" "desc_byte b (length pre + 3) = Inr 2"
    "desc_byte b (length pre + 2) = Inr (code (e ! 2))" "desc_word b (length pre + 4) = Inr (code (e ! 4) + 256 * code (e ! 5))"
  using assms desc_byte_at [of 0 e pre post] desc_byte_at [of 1 e pre post] desc_byte_at [of 2 e pre post]
    desc_byte_at [of 3 e pre post] desc_word_at [of 4 e pre post]
  by (auto simp: bulk_endpoint_def is_endpoint_def)

definition endpoints_match :: "nat \<Rightarrow> bytes \<Rightarrow> bytes \<Rightarrow> bytes \<Rightarrow> usb_match" where
  "endpoints_match serial_index i e1 e2 =
     (let size = code (e1 ! 4) + 256 * code (e1 ! 5); first_in = code (e1 ! 2) \<ge> 0x80
      in \<lparr>um_ep_in = code ((if first_in then e1 else e2) ! 2), um_ep_out = code ((if first_in then e2 else e1) ! 2),
          um_interface = code (i ! 2), um_serial_index = serial_index,
          um_zero_mask = of_nat size - 1, um_max_packet_size = size\<rparr>)"

lemma usb_interface_found:
  assumes i: "adb_interface i" and e: "bulk_endpoint e1" "bulk_endpoint e2" and c: "c = [] \<or> companion c"
    and ms: "list_all wf_desc ms" and pre: "17 \<le> length pre"
    and b: "b = pre @ i @ e1 @ c @ e2 @ concat ms @ rest" and n: "n = length b - length rest"
  shows "usb_interface b n (length pre) 9 = Inr (DescFound (endpoints_match (code (pre ! 16)) i e1 e2))"
proof -
  have l: "length i = 9" "length e1 = 7" "length e2 = 7" "code (e2 ! 0) = 7" using i e by (simp_all add: adb_interface_def bulk_endpoint_def)
  have at: "desc_byte b (length pre + k) = Inr (code (i ! k))" if "k < 9" for k
    using desc_byte_at [of k i pre] that l(1) by (simp add: b)
  have "skip_companion ((pre @ i @ e1) @ c @ e2 @ concat ms @ rest) n (length (pre @ i @ e1)) = Inr (length (pre @ i @ e1) + length c)"
    using c l by (intro skip_companion_opt) (simp_all add: n b nth_append)
  then have s1: "skip_companion b n (length pre + 16) = Inr (length pre + 16 + length c)" using l by (simp add: b)
  obtain p where "skip_companion ((pre @ i @ e1 @ c @ e2) @ concat ms @ rest) n (length (pre @ i @ e1 @ c @ e2)) = Inr p" "p \<le> n"
    using skip_companion_next [OF ms, of n "pre @ i @ e1 @ c @ e2" rest] by (auto simp: n b)
  then have s2: "skip_companion b n (length pre + 23 + length c) = Inr p" "p \<le> n" using l by (simp_all add: b algebra_simps)
  note r1 = bulk_endpoint_read [OF e(1), of b "pre @ i" "c @ e2 @ concat ms @ rest"]
  note r2 = bulk_endpoint_read [OF e(2), of b "pre @ i @ e1 @ c" "concat ms @ rest"]
  have s16: "desc_byte b 16 = Inr (code (pre ! 16))" using pre by (simp add: desc_byte_def b nth_append)
  have "usb_endpoints b n (length pre) (length pre + 9) = Inr (DescFound (endpoints_match (code (pre ! 16)) i e1 e2))"
    using s1 s2 r1 r2 s16 at [of 2] l
    by (simp add: usb_endpoints_def endpoints_match_def Let_def b algebra_simps)
  then show ?thesis using at [of 4] at [of 5] at [of 6] at [of 7] i by (simp add: usb_interface_def adb_interface_def)
qed


definition usb_example_desc :: bytes where
  "usb_example_desc = map char_of
     [18, 1, 0, 2, 0, 0, 0, 64, 0xd1, 0x18, 0xe7, 0x4e, 0, 4, 1, 2, 3, 1,
      9, 2, 46, 0, 2, 1, 0, 0x80, 250,
      9, 4, 0, 0, 0, 6, 1, 1, 5,
      9, 4, 1, 0, 2, 0xff, 0x42, 1, 6,  7, 5, 0x81, 2, 0, 2, 0,  7, 5, 1, 2, 0, 2, 0,
      5, 11, 0, 1, 7 :: nat]"

text \<open>
  Property C35. The search of the descriptors of a device finds the adb interface wherever it stands: behind
  any number of other well-formed descriptors, with or without a SuperSpeed companion behind the first
  endpoint, before any well-formed rest. The result has the addresses of the two bulk endpoints by
  direction, and the packet size and the zero mask of the first.
\<close>

theorem usb_interface_search:
  assumes dev: "length dev = 18" "code (dev ! 0) = 18" "code (dev ! 1) = USB_DT_DEVICE"
    and cfg: "length cfg = 9" "code (cfg ! 0) = 9" "code (cfg ! 1) = USB_DT_CONFIG"
    and ds: "list_all other_desc ds" and i: "adb_interface i" and e: "bulk_endpoint e1" "bulk_endpoint e2"
    and c: "c = [] \<or> companion c" and ms: "list_all wf_desc ms"
    and b: "b = (dev @ cfg @ concat ds @ i @ e1 @ c @ e2 @ concat ms) @ rest" and n: "n = length b - length rest"
  shows "find_adb_interface b (Some n) = Some (Inr (Some (endpoints_match (code (dev ! 16)) i e1 e2)))"
proof -
  define pre where "pre = dev @ cfg @ concat ds"
  have "desc_loop ((dev @ cfg) @ concat ds @ (i @ e1 @ c @ e2 @ concat ms @ rest)) n (length (dev @ cfg))
      = desc_loop ((dev @ cfg) @ concat ds @ (i @ e1 @ c @ e2 @ concat ms @ rest)) n (length (dev @ cfg) + length (concat ds))"
    using ds by (intro desc_loop_skips) (simp_all add: n b)
  then have l: "desc_loop b n 27 = desc_loop b n (length pre)" using dev cfg by (simp add: b pre_def)
  have ii: "length i = 9" "code (i ! 0) = 9" "code (i ! 1) = USB_DT_INTERFACE" using i by (simp_all add: adb_interface_def)
  have at: "desc_byte b (length pre) = Inr 9" "desc_byte b (Suc (length pre)) = Inr USB_DT_INTERFACE"
    using desc_byte_at [of 0 i pre] desc_byte_at [of 1 i pre] ii by (auto simp: b pre_def)
  have f: "usb_interface b n (length pre) 9 = Inr (DescFound (endpoints_match (code (pre ! 16)) i e1 e2))"
    using dev by (intro usb_interface_found [OF i e c ms _ _ n]) (simp_all add: b pre_def)
  have "desc_loop b n (length pre) = Some (Inr (Some (endpoints_match (code (pre ! 16)) i e1 e2)))"
    using at f ii by (subst desc_loop.simps) (simp add: n b pre_def)
  moreover have "pre ! 16 = dev ! 16" "b ! 0 = dev ! 0" "b ! 1 = dev ! 1" "b ! 18 = cfg ! 0" "b ! 19 = cfg ! 1"
    using dev cfg by (simp_all add: pre_def b nth_append)
  ultimately show ?thesis using l dev cfg ii by (simp add: find_adb_interface_def n b)
qed

theorem usb_interface_search_witness:
  "find_adb_interface (usb_example_desc @ replicate 4032 (CHR 0x00)) (Some 64) = Some (Inr (Some
     \<lparr>um_ep_in = 0x81, um_ep_out = 1, um_interface = 1, um_serial_index = 3, um_zero_mask = 511, um_max_packet_size = 512\<rparr>))"
proof -
  define dev where "dev = map char_of [18, 1, 0, 2, 0, 0, 0, 64, 0xd1, 0x18, 0xe7, 0x4e, 0, 4, 1, 2, 3, 1 :: nat]"
  define cfg where "cfg = map char_of [9, 2, 46, 0, 2, 1, 0, 0x80, 250 :: nat]"
  define other where "other = map char_of [9, 4, 0, 0, 0, 6, 1, 1, 5 :: nat]"
  define i where "i = map char_of [9, 4, 1, 0, 2, 0xff, 0x42, 1, 6 :: nat]"
  define e1 where "e1 = map char_of [7, 5, 0x81, 2, 0, 2, 0 :: nat]"
  define e2 where "e2 = map char_of [7, 5, 1, 2, 0, 2, 0 :: nat]"
  define m where "m = map char_of [5, 11, 0, 1, 7 :: nat]"
  note defs = dev_def cfg_def other_def i_def e1_def e2_def m_def usb_types
  have b: "usb_example_desc = dev @ cfg @ concat [other] @ i @ e1 @ [] @ e2 @ concat [m]"
    by (simp add: usb_example_desc_def defs)
  have "length dev = 18" "code (dev ! 0) = 18" "code (dev ! 1) = USB_DT_DEVICE"
    "length cfg = 9" "code (cfg ! 0) = 9" "code (cfg ! 1) = USB_DT_CONFIG" by (simp_all add: defs)
  moreover have "list_all other_desc [other]" "adb_interface i" "bulk_endpoint e1" "bulk_endpoint e2" "list_all wf_desc [m]"
    by (simp_all add: defs other_desc_def adb_interface_def wf_desc_def bulk_endpoint_def is_adb_interface_def)
  moreover have "(64 :: nat) = length (usb_example_desc @ rest) - length rest" for rest by (simp add: usb_example_desc_def)
  moreover have "endpoints_match (code (dev ! 16)) i e1 e2
    = \<lparr>um_ep_in = 0x81, um_ep_out = 1, um_interface = 1, um_serial_index = 3, um_zero_mask = 511, um_max_packet_size = 512\<rparr>"
    by (simp add: endpoints_match_def defs)
  moreover have "usb_example_desc @ rest = (dev @ cfg @ concat [other] @ i @ e1 @ [] @ e2 @ concat [m]) @ rest" for rest
    using b by simp
  ultimately show ?thesis
    using usb_interface_search [of dev cfg "[other]" i e1 e2 "[]" "[m]" "usb_example_desc @ replicate 4032 (CHR 0x00)" "replicate 4032 (CHR 0x00)" 64]
    by metis
qed



text \<open>A descriptor of length zero is met again and again.\<close>

lemma desc_loop_zero:
  assumes "p < n" "desc_byte b p = Inr 0" "desc_byte b (p + 1) = Inr t" "t \<noteq> USB_DT_INTERFACE"
  shows "desc_loop b n p = None"
proof (rule ccontr)
  assume "desc_loop b n p \<noteq> None"
  then obtain r where r: "desc_loop b n p = Some r" by blast
  have "\<not> (p < n \<and> desc_byte b p = Inr 0 \<and> desc_byte b (p + 1) = Inr t \<and> t \<noteq> USB_DT_INTERFACE)"
    by (rule desc_loop.raw_induct [where P = "\<lambda>b n p r. \<not> (p < n \<and> desc_byte b p = Inr 0 \<and> desc_byte b (p + 1) = Inr t \<and> t \<noteq> USB_DT_INTERFACE)", OF _ r])
      (auto split: if_splits)
  then show False using assms by blast
qed


section \<open>The scan\<close>

text \<open>The device names a scan meets, and what a scan that met them does to the list of handles.\<close>

definition bus_devices :: "string \<Rightarrow> (string \<times> usb_node) list \<Rightarrow> string set" where
  "bus_devices bus_name ds = {bus_name @ ''/'' @ name | name node. (name, node) \<in> set ds \<and> \<not> contains_non_digit name}"

fun tree_devices :: "string \<Rightarrow> (string \<times> (string \<times> usb_node) list option) list \<Rightarrow> string set" where
  "tree_devices base [] = {}"
| "tree_devices base ((bus, dir) # buses) =
     (if contains_non_digit bus then {} else case dir of None \<Rightarrow> {} | Some ds \<Rightarrow> bus_devices (base @ ''/'' @ bus) ds)
     \<union> tree_devices base buses"

definition seen :: "string set \<Rightarrow> nat \<times> usb_handle \<Rightarrow> nat \<times> usb_handle" where
  "seen D x = (fst x, if uh_path (snd x) \<in> D then (snd x)\<lparr>uh_mark := True\<rparr> else snd x)"

definition fresh_handle :: "string set \<Rightarrow> nat \<times> usb_handle \<Rightarrow> bool" where
  "fresh_handle D x \<longleftrightarrow> uh_path (snd x) \<in> D \<and> uh_mark (snd x) \<and> \<not> uh_dead (snd x)"

definition scanned :: "string set \<Rightarrow> usb_host \<Rightarrow> usb_host \<Rightarrow> bool" where
  "scanned D s s' \<longleftrightarrow> (\<exists>new. ub_handles s' = map (seen D) (ub_handles s) @ new \<and> list_all (fresh_handle D) new)"

definition handle_paths :: "usb_host \<Rightarrow> string list" where
  "handle_paths s = map (\<lambda>x. uh_path (snd x)) (ub_handles s)"

lemma seen_path [simp]: "uh_path (snd (seen D x)) = uh_path (snd x)"
  by (simp add: seen_def)

lemma seen_seen: "seen D2 (seen D1 x) = seen (D1 \<union> D2) x"
  by (simp add: seen_def)

lemma seen_fresh: "fresh_handle D1 x \<Longrightarrow> seen D2 x = x"
  by (cases x) (simp add: seen_def fresh_handle_def)

lemma seen_empty [simp]: "seen {} x = x"
  by (simp add: seen_def)

lemma scanned_refl: "scanned {} s s"
  by (simp add: scanned_def cong: map_cong)

lemma scanned_trans:
  assumes "scanned D1 s s1" "scanned D2 s1 s2"
  shows "scanned (D1 \<union> D2) s s2"
proof -
  from assms obtain n1 n2 where n: "ub_handles s1 = map (seen D1) (ub_handles s) @ n1" "list_all (fresh_handle D1) n1"
    "ub_handles s2 = map (seen D2) (ub_handles s1) @ n2" "list_all (fresh_handle D2) n2"
    unfolding scanned_def by blast
  have "map (seen D2) n1 = n1" using n(2) by (intro map_idI) (auto simp: list_all_iff seen_fresh)
  then have "ub_handles s2 = map (seen (D1 \<union> D2)) (ub_handles s) @ n1 @ n2" using n by (simp add: seen_seen)
  moreover have "list_all (fresh_handle (D1 \<union> D2)) (n1 @ n2)" using n by (auto simp: list_all_iff fresh_handle_def)
  ultimately show ?thesis unfolding scanned_def by blast
qed

lemma mark_known_seen:
  "distinct (map (\<lambda>x. uh_path (snd x)) hs) \<Longrightarrow>
    mark_known d hs = (d \<in> (\<lambda>x. uh_path (snd x)) ` set hs, map (seen {d}) hs)"
proof (induction d hs rule: mark_known.induct)
  case (2 d i h hs)
  have "map (seen {d}) hs = hs" if "uh_path h = d"
    using that 2(2) by (intro map_idI) (force simp: seen_def)
  then show ?case using 2 by (auto simp: seen_def [of _ "(i, h)"] split: prod.splits)
qed simp

lemma is_known_device_scanned:
  assumes "distinct (handle_paths s)" "is_known_device d s = (r, s1)"
  shows "scanned {d} s s1" "r \<longleftrightarrow> d \<in> set (handle_paths s)" "handle_paths s1 = handle_paths s"
  using assms mark_known_seen [of "ub_handles s" d]
  by (auto simp: is_known_device_def handle_paths_def scanned_def comp_def)

lemma register_device_scanned:
  assumes "register_device d node m s = Inr s1" "d \<notin> set (handle_paths s)" "scanned {d} s0 s"
    and "distinct (handle_paths s)"
  shows "scanned {d} s0 s1 \<and> distinct (handle_paths s1)"
proof -
  from assms(3) obtain new where new: "ub_handles s = map (seen {d}) (ub_handles s0) @ new" "list_all (fresh_handle {d}) new"
    unfolding scanned_def by blast
  have "s1 = s \<or> (\<exists>x. ub_handles s1 = ub_handles s @ [x] \<and> fresh_handle {d} x)"
    using assms(1)
    by (auto simp: register_device_def Let_def fresh_handle_def elim!: rbind_InrE split: if_splits option.splits)
  then show ?thesis
  proof
    assume "\<exists>x. ub_handles s1 = ub_handles s @ [x] \<and> fresh_handle {d} x"
    then obtain x where x: "ub_handles s1 = ub_handles s @ [x]" "fresh_handle {d} x" by blast
    then have "ub_handles s1 = map (seen {d}) (ub_handles s0) @ new @ [x]" "list_all (fresh_handle {d}) (new @ [x])"
      using new by simp_all
    moreover have "distinct (handle_paths s1)"
      using x assms(2,4) by (simp add: handle_paths_def fresh_handle_def)
    ultimately show ?thesis unfolding scanned_def by blast
  qed (use assms in simp)
qed

lemma scan_device_scanned:
  assumes "scan_device bus_name name node s = Some (Inr s1)" "distinct (handle_paths s)"
  shows "scanned (if contains_non_digit name then {} else {bus_name @ ''/'' @ name}) s s1 \<and> distinct (handle_paths s1)"
proof (cases "contains_non_digit name")
  case True
  then show ?thesis using assms scanned_refl [of s] by (simp add: scan_device_def)
next
  case False
  define d where "d = bus_name @ ''/'' @ name"
  obtain r s2 where k: "is_known_device d s = (r, s2)" by fastforce
  note kd = is_known_device_scanned [OF assms(2) k]
  have "s1 = s2 \<or> (\<not> r \<and> (\<exists>m. register_device d node m s2 = Inr s1))"
    using assms(1) False k
    by (auto simp: scan_device_def Let_def d_def split: bool.splits if_splits option.splits sum.splits)
  then show ?thesis
  proof
    assume "\<not> r \<and> (\<exists>m. register_device d node m s2 = Inr s1)"
    then obtain m where "register_device d node m s2 = Inr s1" "d \<notin> set (handle_paths s2)" using kd by auto
    then show ?thesis using register_device_scanned kd assms(2) False by (simp add: d_def)
  qed (use kd assms(2) False in \<open>simp add: d_def\<close>)
qed

lemma scan_bus_scanned:
  "scan_bus bus_name ds s = Some (Inr s1) \<Longrightarrow> distinct (handle_paths s) \<Longrightarrow>
    scanned (bus_devices bus_name ds) s s1 \<and> distinct (handle_paths s1)"
proof (induction bus_name ds s rule: scan_bus.induct)
  case (1 bus_name s)
  then show ?case using scanned_refl [of s] by (simp add: bus_devices_def)
next
  case (2 bus_name name node ds s)
  then obtain s2 where s2: "scan_device bus_name name node s = Some (Inr s2)" "scan_bus bus_name ds s2 = Some (Inr s1)"
    by (auto split: option.splits sum.splits)
  note sd = scan_device_scanned [OF s2(1) 2(3)]
  have IH: "scanned (bus_devices bus_name ds) s2 s1 \<and> distinct (handle_paths s1)"
    using 2(1) [OF s2(1) refl s2(2)] sd by blast
  have "bus_devices bus_name ((name, node) # ds)
      = (if contains_non_digit name then {} else {bus_name @ ''/'' @ name}) \<union> bus_devices bus_name ds"
    by (auto simp: bus_devices_def)
  then show ?case using scanned_trans [OF conjunct1 [OF sd] conjunct1 [OF IH]] IH by simp
qed

lemma find_usb_device_scanned:
  "find_usb_device base tree s = Some (Inr s1) \<Longrightarrow> distinct (handle_paths s) \<Longrightarrow>
    scanned (tree_devices base tree) s s1 \<and> distinct (handle_paths s1)"
proof (induction base tree s rule: find_usb_device.induct)
  case (1 base s)
  then show ?case using scanned_refl [of s] by simp
next
  case (2 base bus dir buses s)
  show ?case
  proof (cases "contains_non_digit bus \<or> dir = None")
    case True
    then show ?thesis using 2 by (auto split: option.splits)
  next
    case False
    then obtain ds where ds: "\<not> contains_non_digit bus" "dir = Some ds" by blast
    then obtain s2 where s2: "scan_bus (base @ ''/'' @ bus) ds s = Some (Inr s2)" "find_usb_device base buses s2 = Some (Inr s1)"
      using 2(4) by (auto split: option.splits sum.splits)
    have "scanned (tree_devices base buses) s2 s1 \<and> distinct (handle_paths s1)"
      using 2(3) [OF ds s2(1) refl s2(2)] scan_bus_scanned [OF s2(1) 2(5)] by blast
    then show ?thesis using scanned_trans [OF conjunct1 [OF scan_bus_scanned [OF s2(1) 2(5)]]] ds by simp
  qed
qed

text \<open>The sweep: what is marked stays, and loses its mark; what is not marked is dead.\<close>

definition swept :: "nat \<times> usb_handle \<Rightarrow> nat \<times> usb_handle" where
  "swept x = (fst x, if uh_mark (snd x) then (snd x)\<lparr>uh_mark := False\<rparr> else (snd x)\<lparr>uh_dead := True\<rparr>)"

lemma usb_kick_dead: "usb_kick i h g = Inr (h1, g1) \<Longrightarrow> h1 = h\<lparr>uh_dead := True\<rparr>"
  by (cases h) (auto simp: usb_kick_def elim!: rbind_InrE split: if_splits)

lemma kick_disconnected_swept:
  "kick_disconnected hs g = Inr (hs1, g1) \<Longrightarrow> hs1 = map swept hs"
proof (induction hs arbitrary: g hs1)
  case (Cons x hs)
  obtain i h where x: "x = (i, h)" by fastforce
  from Cons.prems obtain h1 g2 hs2 where
    "(if \<not> uh_mark h then usb_kick i h g else Inr (h\<lparr>uh_mark := False\<rparr>, g)) = Inr (h1, g2)"
    "kick_disconnected hs g2 = Inr (hs2, g1)" "hs1 = (i, h1) # hs2"
    by (auto simp: x elim!: rbind_InrE)
  then show ?case using Cons.IH usb_kick_dead by (auto simp: x swept_def split: if_splits)
qed simp

text \<open>
  Property C37. A turn of the thread that polls for devices is a mark-and-sweep over the known handles. It
  starts and ends with no mark set and every device known at most once. A known device whose node is
  still in the tree is untouched; one whose node is gone is dead afterwards; every handle that was added
  is alive and belongs to a node of the tree.
\<close>

theorem device_poll_mark_and_sweep:
  assumes "device_poll_turn tree s = Some (Inr s')" "distinct (handle_paths s)"
    and "list_all (\<lambda>x. \<not> uh_mark (snd x)) (ub_handles s)"
  defines "D \<equiv> tree_devices ''/dev/bus/usb'' tree"
  shows "distinct (handle_paths s') \<and> list_all (\<lambda>x. \<not> uh_mark (snd x)) (ub_handles s')
    \<and> (\<exists>new. ub_handles s' = map (\<lambda>x. if uh_path (snd x) \<in> D then x else (fst x, (snd x)\<lparr>uh_dead := True\<rparr>)) (ub_handles s) @ new
           \<and> list_all (\<lambda>x. uh_path (snd x) \<in> D \<and> \<not> uh_dead (snd x)) new)"
proof (intro conjI)
  from assms(1) obtain s1 where s1: "find_usb_device ''/dev/bus/usb'' tree s = Some (Inr s1)" "kick_disconnected_devices s1 = Inr s'"
    by (auto simp: device_poll_turn_def split: option.splits sum.splits)
  then have h: "ub_handles s' = map swept (ub_handles s1)"
    using kick_disconnected_swept by (fastforce simp: kick_disconnected_devices_def elim!: rbind_InrE)
  from find_usb_device_scanned [OF s1(1) assms(2)] obtain new where
    new: "ub_handles s1 = map (seen D) (ub_handles s) @ new" "list_all (fresh_handle D) new" "distinct (handle_paths s1)"
    unfolding scanned_def D_def by blast
  have p: "uh_path (snd (swept x)) = uh_path (snd x)" "\<not> uh_mark (snd (swept x))" for x by (simp_all add: swept_def)
  show "distinct (handle_paths s')" using new(3) by (simp add: handle_paths_def h p comp_def)
  show "list_all (\<lambda>x. \<not> uh_mark (snd x)) (ub_handles s')" by (simp add: h p list_all_iff)
  have "swept (seen D x) = (if uh_path (snd x) \<in> D then x else (fst x, (snd x)\<lparr>uh_dead := True\<rparr>))"
    if "x \<in> set (ub_handles s)" for x
  proof -
    have "\<not> uh_mark (snd x)" using that assms(3) by (auto simp: list_all_iff)
    then have "(snd x)\<lparr>uh_mark := False\<rparr> = snd x" by (cases "snd x") simp
    then show ?thesis using \<open>\<not> uh_mark (snd x)\<close> by (simp add: swept_def seen_def prod_eq_iff)
  qed
  moreover have "list_all (\<lambda>x. uh_path (snd x) \<in> D \<and> \<not> uh_dead (snd x)) (map swept new)"
    using new(2) by (auto simp: list_all_iff fresh_handle_def swept_def)
  ultimately show "\<exists>new. ub_handles s' = map (\<lambda>x. if uh_path (snd x) \<in> D then x else (fst x, (snd x)\<lparr>uh_dead := True\<rparr>)) (ub_handles s) @ new
           \<and> list_all (\<lambda>x. uh_path (snd x) \<in> D \<and> \<not> uh_dead (snd x)) new"
    by (intro exI [of _ "map swept new"]) (simp add: h new(1))
qed

definition usb_two_known :: usb_host where
  "usb_two_known = \<lparr>ub_handles = [(1, usb_example\<lparr>uh_mark := False\<rparr>),
     (2, usb_example\<lparr>uh_path := ''/dev/bus/usb/001/003'', uh_mark := False\<rparr>)],
     ub_next = 3, ub_adb = adb_init os_init\<rparr>"

definition usb_one_left :: "(string \<times> (string \<times> usb_node) list option) list" where
  "usb_one_left = [(''001'', Some [(''002'', \<lparr>un_open = True, un_desc = usb_example_desc, un_desclength = Some 64,
     un_devpath = Some ''usb:1-1'', un_open_rw = True, un_open_ro = True, un_claimed = True, un_serial = None\<rparr>)])]"

theorem device_poll_mark_and_sweep_witness:
  "\<exists>s'. device_poll_turn usb_one_left usb_two_known = Some (Inr s') \<and>
     map (\<lambda>x. (fst x, uh_dead (snd x))) (ub_handles s') = [(1, False), (2, True)] \<and>
     list_all (\<lambda>x. \<not> uh_mark (snd x)) (ub_handles s')"
proof -
  have "\<exists>s'. device_poll_turn usb_one_left usb_two_known = Some (Inr s') \<and> length (ub_handles s') = 2"
    by (simp add: usb_one_left_def usb_two_known_def device_poll_turn_def usb_example_def contains_non_digit_def isdigit_def
      scan_device_def c_str_def is_known_device_def kick_disconnected_devices_def usb_kick_def NUL_def)
  then obtain s' where s': "device_poll_turn usb_one_left usb_two_known = Some (Inr s')" "length (ub_handles s') = 2" by blast
  have "distinct (handle_paths usb_two_known)" "list_all (\<lambda>x. \<not> uh_mark (snd x)) (ub_handles usb_two_known)"
    by (simp_all add: usb_two_known_def handle_paths_def usb_example_def)
  moreover have "''/dev/bus/usb/001/002'' \<in> tree_devices ''/dev/bus/usb'' usb_one_left"
    "''/dev/bus/usb/001/003'' \<notin> tree_devices ''/dev/bus/usb'' usb_one_left"
    by (simp_all add: usb_one_left_def bus_devices_def contains_non_digit_def isdigit_def c_str_def NUL_def)
  ultimately obtain new where
    "ub_handles s' = [(1, usb_example\<lparr>uh_mark := False\<rparr>),
       (2, usb_example\<lparr>uh_path := ''/dev/bus/usb/001/003'', uh_mark := False, uh_dead := True\<rparr>)] @ new"
    "list_all (\<lambda>x. \<not> uh_mark (snd x)) (ub_handles s')"
    using device_poll_mark_and_sweep [OF s'(1)] by (auto simp: usb_two_known_def usb_example_def)
  then show ?thesis using s' by (intro exI [of _ s']) (simp add: usb_example_def)
qed

end
