(* ===== verification/FileSys.thy ===== *)
theory FileSys
  imports Os Base_Strings "HOL-Library.AList"
begin

text \<open>
  Files. A model of the file system calls that the transfer of files uses (path resolution with
  symbolic links, \<open>stat\<close>, \<open>open\<close>, \<open>mkdir\<close>, \<open>unlink\<close>, \<open>symlink\<close>, \<open>utime\<close>, reading and writing), the path
  functions of \<open>lib/base/file.cpp\<close>, \<open>mkdirs\<close> of \<open>adb_utils.cpp\<close> and the error numbers on the wire
  (\<open>sysdeps/errno.cpp\<close>). Every call may also fail with an error number that the operating system
  chooses: a function of the state, over which the theorems quantify.
\<close>

unbundle bit_operations_syntax

section \<open>The kernel\<close>

definition S_IFMT :: u32 where "S_IFMT = 0xF000"
definition S_IFREG :: u32 where "S_IFREG = 0x8000"
definition S_IFDIR :: u32 where "S_IFDIR = 0x4000"
definition S_IFLNK :: u32 where "S_IFLNK = 0xA000"
definition S_IFBLK :: u32 where "S_IFBLK = 0x6000"
definition S_IFCHR :: u32 where "S_IFCHR = 0x2000"

lemmas mode_types = S_IFMT_def S_IFREG_def S_IFDIR_def S_IFLNK_def S_IFBLK_def S_IFCHR_def

definition S_ISREG :: "u32 \<Rightarrow> bool" where "S_ISREG m \<longleftrightarrow> m AND S_IFMT = S_IFREG"
definition S_ISDIR :: "u32 \<Rightarrow> bool" where "S_ISDIR m \<longleftrightarrow> m AND S_IFMT = S_IFDIR"
definition S_ISLNK :: "u32 \<Rightarrow> bool" where "S_ISLNK m \<longleftrightarrow> m AND S_IFMT = S_IFLNK"
definition S_ISBLK :: "u32 \<Rightarrow> bool" where "S_ISBLK m \<longleftrightarrow> m AND S_IFMT = S_IFBLK"
definition S_ISCHR :: "u32 \<Rightarrow> bool" where "S_ISCHR m \<longleftrightarrow> m AND S_IFMT = S_IFCHR"

lemmas mode_tests = S_ISREG_def S_ISDIR_def S_ISLNK_def S_ISBLK_def S_ISCHR_def

text \<open>An inode, with the contents of a file or the target of a link.\<close>

record inode =
  in_dev :: u64
  in_ino :: u64
  in_mode :: u32
  in_nlink :: u32
  in_uid :: u32
  in_gid :: u32
  in_data :: bytes
  in_atime :: int
  in_mtime :: int
  in_ctime :: int

definition inode_new :: "u32 \<Rightarrow> bytes \<Rightarrow> int \<Rightarrow> inode" where
  "inode_new mode data now =
     \<lparr>in_dev = 0, in_ino = 0, in_mode = mode, in_nlink = 1, in_uid = 0, in_gid = 0, in_data = data,
      in_atime = now, in_mtime = now, in_ctime = now\<rparr>"

datatype fs_call =
    StatCall | OpenCall | CreateCall | ReadCall | WriteCall | MkdirCall | UnlinkCall | SymlinkCall
  | ReadlinkCall | ReaddirCall | ChownCall | UtimeCall | ChmodCall

text \<open>
  A file system: the nodes below the root by their components, in the order in which directories list
  them, the working directory, the file mode mask, the clock, and the calls that fail.
\<close>

record fsys =
  fs_nodes :: "(string list \<times> inode) list"
  fs_cwd :: "string list"
  fs_umask :: u32
  fs_now :: int
  fs_fault :: "fs_call \<Rightarrow> string \<Rightarrow> errno option"

definition node_at :: "(string list \<times> inode) list \<Rightarrow> string list \<Rightarrow> inode option" where
  "node_at ns k = (if k = [] then Some (inode_new S_IFDIR [] 0) else map_of ns k)"

text \<open>The components of a path; a path that ends in a slash names a directory.\<close>

definition path_comps :: "string \<Rightarrow> string list" where
  "path_comps p =
     filter (\<lambda>c. c \<noteq> []) (split_on (\<lambda>c. c = CHR ''/'') p) @ (if p \<noteq> [] \<and> last p = CHR ''/'' then [''.''] else [])"

text \<open>
  The walk along the components, through at most \<open>n\<close> symbolic links. The last component need not exist;
  a link there is followed when the call asks for it.
\<close>

function walk :: "nat \<Rightarrow> (string list \<times> inode) list \<Rightarrow> bool \<Rightarrow> string list \<Rightarrow> string list \<Rightarrow> errno + string list" where
  "walk n ns follow cur [] = Inr cur"
| "walk n ns follow cur (c # cs) =
     (if c = ''.'' then walk n ns follow cur cs
      else if c = ''..'' then walk n ns follow (butlast cur) cs
      else case map_of ns (cur @ [c]) of
             None \<Rightarrow> if cs = [] then Inr (cur @ [c]) else Inl ENOENT
           | Some x \<Rightarrow>
               if S_ISLNK (in_mode x) \<and> (cs \<noteq> [] \<or> follow) then
                 (case n of
                    0 \<Rightarrow> Inl ELOOP
                  | Suc m \<Rightarrow> walk m ns follow (if take 1 (in_data x) = ''/'' then [] else cur) (path_comps (in_data x) @ cs))
               else if cs = [] then Inr (cur @ [c])
               else if S_ISDIR (in_mode x) then walk n ns follow (cur @ [c]) cs
               else Inl ENOTDIR)"
  by pat_completeness auto
termination
  by (relation "measures [\<lambda>(n, _). n, \<lambda>(_, _, _, _, cs). length cs]") auto

definition MAXSYMLINKS :: nat where "MAXSYMLINKS = 40"

definition resolve :: "bool \<Rightarrow> string \<Rightarrow> fsys \<Rightarrow> errno + string list" where
  "resolve follow p fs =
     (if p = [] then Inl ENOENT
      else walk MAXSYMLINKS (fs_nodes fs) follow (if hd p = CHR ''/'' then [] else fs_cwd fs) (path_comps p))"

definition lookup_node :: "fs_call \<Rightarrow> bool \<Rightarrow> string \<Rightarrow> fsys \<Rightarrow> errno + string list \<times> inode" where
  "lookup_node call follow p fs =
     (case fs_fault fs call p of
        Some e \<Rightarrow> Inl e
      | None \<Rightarrow>
          (case resolve follow p fs of
             Inl e \<Rightarrow> Inl e
           | Inr k \<Rightarrow> (case node_at (fs_nodes fs) k of None \<Rightarrow> Inl ENOENT | Some x \<Rightarrow> Inr (k, x))))"

definition fs_stat :: "string \<Rightarrow> fsys \<Rightarrow> errno + inode" where
  "fs_stat p fs = map_sum id snd (lookup_node StatCall True p fs)"

definition fs_lstat :: "string \<Rightarrow> fsys \<Rightarrow> errno + inode" where
  "fs_lstat p fs = map_sum id snd (lookup_node StatCall False p fs)"

definition fs_readlink :: "string \<Rightarrow> fsys \<Rightarrow> errno + bytes" where
  "fs_readlink p fs =
     (case lookup_node ReadlinkCall False p fs of
        Inl e \<Rightarrow> Inl e
      | Inr (k, x) \<Rightarrow> if S_ISLNK (in_mode x) then Inr (in_data x) else Inl EINVAL)"

definition set_node :: "string list \<Rightarrow> inode \<Rightarrow> fsys \<Rightarrow> fsys" where
  "set_node k x fs = fs\<lparr>fs_nodes := AList.update k x (fs_nodes fs)\<rparr>"

text \<open>
  A call that creates the last component of a path: \<open>mkdir\<close>, \<open>symlink\<close>, and \<open>open\<close> with \<open>O_CREAT | O_EXCL\<close>,
  none of which follows a link there.
\<close>

definition create_node :: "fs_call \<Rightarrow> string \<Rightarrow> inode \<Rightarrow> fsys \<Rightarrow> (errno + string list) \<times> fsys" where
  "create_node call p x fs =
     (case fs_fault fs call p of
        Some e \<Rightarrow> (Inl e, fs)
      | None \<Rightarrow>
          (case resolve False p fs of
             Inl e \<Rightarrow> (Inl e, fs)
           | Inr k \<Rightarrow>
               if node_at (fs_nodes fs) k \<noteq> None then (Inl EEXIST, fs)
               else if (case node_at (fs_nodes fs) (butlast k) of None \<Rightarrow> True | Some d \<Rightarrow> \<not> S_ISDIR (in_mode d))
               then (Inl ENOENT, fs)
               else (Inr k, set_node k x fs)))"

definition perm_bits :: "u32 \<Rightarrow> u32" where
  "perm_bits mode = mode AND 0xFFF"

definition adb_mkdir :: "string \<Rightarrow> u32 \<Rightarrow> fsys \<Rightarrow> (errno + string list) \<times> fsys" where
  "adb_mkdir p mode fs =
     create_node MkdirCall p (inode_new (S_IFDIR OR (perm_bits mode AND NOT (fs_umask fs))) [] (fs_now fs)) fs"

definition PATH_MAX :: nat where "PATH_MAX = 4096"

definition fs_symlink :: "bytes \<Rightarrow> string \<Rightarrow> fsys \<Rightarrow> (errno + string list) \<times> fsys" where
  "fs_symlink target p fs =
     (if target = [] then (Inl ENOENT, fs)
      else if length target \<ge> PATH_MAX then (Inl ENAMETOOLONG, fs)
      else create_node SymlinkCall p (inode_new (S_IFLNK OR 0x1FF) target (fs_now fs)) fs)"

definition adb_unlink :: "string \<Rightarrow> fsys \<Rightarrow> (errno + unit) \<times> fsys" where
  "adb_unlink p fs =
     (case lookup_node UnlinkCall False p fs of
        Inl e \<Rightarrow> (Inl e, fs)
      | Inr (k, x) \<Rightarrow>
          if S_ISDIR (in_mode x) then (Inl EISDIR, fs)
          else (Inr (), fs\<lparr>fs_nodes := AList.delete k (fs_nodes fs)\<rparr>))"

text \<open>
  Open files: the node and the offset. \<open>open_excl\<close> is \<open>O_WRONLY | O_CREAT | O_EXCL\<close>, \<open>open_write\<close> is
  \<open>O_WRONLY\<close>, \<open>adb_creat\<close> is \<open>O_WRONLY | O_CREAT | O_TRUNC\<close>.
\<close>

type_synonym ofile = "string list \<times> nat"

definition open_excl :: "string \<Rightarrow> u32 \<Rightarrow> fsys \<Rightarrow> (errno + ofile) \<times> fsys" where
  "open_excl p mode fs =
     (case create_node CreateCall p (inode_new (S_IFREG OR (perm_bits mode AND NOT (fs_umask fs))) [] (fs_now fs)) fs of
        (Inl e, fs1) \<Rightarrow> (Inl e, fs1) | (Inr k, fs1) \<Rightarrow> (Inr (k, 0), fs1))"

definition open_node :: "string \<Rightarrow> fsys \<Rightarrow> errno + ofile" where
  "open_node p fs = map_sum id (\<lambda>(k, _). (k, 0)) (lookup_node OpenCall True p fs)"

definition open_write :: "string \<Rightarrow> fsys \<Rightarrow> errno + ofile" where
  "open_write p fs =
     (case lookup_node OpenCall True p fs of
        Inl e \<Rightarrow> Inl e
      | Inr (k, x) \<Rightarrow> if S_ISDIR (in_mode x) then Inl EISDIR else Inr (k, 0))"

definition adb_creat :: "string \<Rightarrow> u32 \<Rightarrow> fsys \<Rightarrow> (errno + ofile) \<times> fsys" where
  "adb_creat p mode fs =
     (case open_write p fs of
        Inr (k, _) \<Rightarrow>
          (case map_of (fs_nodes fs) k of
             None \<Rightarrow> (Inl ENOENT, fs)
           | Some x \<Rightarrow> (Inr (k, 0), set_node k (x\<lparr>in_data := []\<rparr>) fs))
      | Inl e \<Rightarrow> if e = ENOENT then open_excl p mode fs else (Inl e, fs))"

text \<open>A read of at most \<open>len\<close> bytes. A write puts the bytes at the offset, over what is there.\<close>

definition file_read :: "string \<Rightarrow> ofile \<Rightarrow> nat \<Rightarrow> fsys \<Rightarrow> errno + bytes \<times> ofile" where
  "file_read p f len fs =
     (case fs_fault fs ReadCall p of
        Some e \<Rightarrow> Inl e
      | None \<Rightarrow>
          (case node_at (fs_nodes fs) (fst f) of
             None \<Rightarrow> Inl EIO
           | Some x \<Rightarrow>
               if S_ISDIR (in_mode x) then Inl EISDIR
               else (let bs = take len (drop (snd f) (in_data x)) in Inr (bs, (fst f, snd f + length bs)))))"

definition file_left :: "ofile \<Rightarrow> fsys \<Rightarrow> nat" where
  "file_left f fs = (case node_at (fs_nodes fs) (fst f) of None \<Rightarrow> 0 | Some x \<Rightarrow> length (in_data x) - snd f)"

lemma file_read_left: "file_read p f len fs = Inr (bs, f1) \<Longrightarrow> bs \<noteq> [] \<Longrightarrow> file_left f1 fs < file_left f fs"
  by (auto simp: file_read_def file_left_def Let_def split: option.splits if_splits)

definition file_write :: "string \<Rightarrow> ofile \<Rightarrow> bytes \<Rightarrow> fsys \<Rightarrow> (errno + ofile) \<times> fsys" where
  "file_write p f bs fs =
     (case fs_fault fs WriteCall p of
        Some e \<Rightarrow> (Inl e, fs)
      | None \<Rightarrow>
          (case map_of (fs_nodes fs) (fst f) of
             None \<Rightarrow> (Inl EIO, fs)
           | Some x \<Rightarrow>
               (Inr (fst f, snd f + length bs),
                set_node (fst f) (x\<lparr>in_data := take (snd f) (in_data x) @ bs @ drop (snd f + length bs) (in_data x)\<rparr>) fs)))"

definition fs_fchmod :: "string \<Rightarrow> ofile \<Rightarrow> u32 \<Rightarrow> fsys \<Rightarrow> (errno + unit) \<times> fsys" where
  "fs_fchmod p f mode fs =
     (case fs_fault fs ChmodCall p of
        Some e \<Rightarrow> (Inl e, fs)
      | None \<Rightarrow>
          (case map_of (fs_nodes fs) (fst f) of
             None \<Rightarrow> (Inl EIO, fs)
           | Some x \<Rightarrow> (Inr (), set_node (fst f) (x\<lparr>in_mode := (in_mode x AND S_IFMT) OR perm_bits mode\<rparr>) fs)))"

definition fs_update :: "fs_call \<Rightarrow> (inode \<Rightarrow> inode) \<Rightarrow> string \<Rightarrow> fsys \<Rightarrow> (errno + unit) \<times> fsys" where
  "fs_update call f p fs =
     (case lookup_node call True p fs of
        Inl e \<Rightarrow> (Inl e, fs)
      | Inr (k, x) \<Rightarrow> (Inr (), if k = [] then fs else set_node k (f x) fs))"

definition fs_utime :: "string \<Rightarrow> int \<Rightarrow> fsys \<Rightarrow> (errno + unit) \<times> fsys" where
  "fs_utime p time = fs_update UtimeCall (\<lambda>x. x\<lparr>in_atime := time, in_mtime := time\<rparr>) p"

definition fs_chmod :: "string \<Rightarrow> u32 \<Rightarrow> fsys \<Rightarrow> (errno + unit) \<times> fsys" where
  "fs_chmod p mode = fs_update ChmodCall (\<lambda>x. x\<lparr>in_mode := (in_mode x AND S_IFMT) OR perm_bits mode\<rparr>) p"

text \<open>A directory lists itself, its parent, and the nodes below it.\<close>

definition dir_names :: "(string list \<times> inode) list \<Rightarrow> string list \<Rightarrow> string list" where
  "dir_names ns k = ''.'' # ''..'' # map (\<lambda>x. last (fst x)) (filter (\<lambda>x. fst x \<noteq> [] \<and> butlast (fst x) = k) ns)"

definition fs_readdir :: "string \<Rightarrow> fsys \<Rightarrow> errno + string list" where
  "fs_readdir p fs =
     (case lookup_node ReaddirCall True p fs of
        Inl e \<Rightarrow> Inl e
      | Inr (k, x) \<Rightarrow> if S_ISDIR (in_mode x) then Inr (dir_names (fs_nodes fs) k) else Inl ENOTDIR)"

section \<open>\<open>sysdeps/errno.cpp\<close>\<close>

definition errno_numbers :: "(errno \<times> int) list" where
  "errno_numbers =
     [(EACCES, 13), (EEXIST, 17), (EFAULT, 14), (EFBIG, 27), (EINTR, 4), (EINVAL, 22), (EIO, 5), (EISDIR, 21),
      (ELOOP, 40), (EMFILE, 24), (ENAMETOOLONG, 36), (ENFILE, 23), (ENOENT, 2), (ENOMEM, 12), (ENOSPC, 28),
      (ENOTDIR, 20), (EOVERFLOW, 75), (EPERM, 1), (EROFS, 30), (ETXTBSY, 26),
      (E_OK, 0), (EAGAIN, 11), (EPIPE, 32), (ECONNRESET, 104), (EMSGSIZE, 90), (ENOTSUP, 95), (ENOPROTOOPT, 92)]"

definition errno_number :: "errno \<Rightarrow> int" where
  "errno_number e = (case map_of errno_numbers e of None \<Rightarrow> 0 | Some n \<Rightarrow> n)"

definition errno_of :: "int \<Rightarrow> errno" where
  "errno_of n = (case map_of (map prod.swap errno_numbers) n of None \<Rightarrow> EIO | Some e \<Rightarrow> e)"

text \<open>The map from the numbers of the host to those on the wire, which on Linux are the same.\<close>

definition host_to_wire :: "(int \<times> int) list" where
  "host_to_wire = map (\<lambda>(e, n). (errno_number e, n)) (take 20 errno_numbers)"

definition errno_to_wire :: "int \<Rightarrow> int" where
  "errno_to_wire error = (case map_of host_to_wire error of None \<Rightarrow> 5 | Some n \<Rightarrow> n)"

definition errno_from_wire :: "int \<Rightarrow> int" where
  "errno_from_wire error = (case map_of host_to_wire error of None \<Rightarrow> errno_number EIO | Some n \<Rightarrow> n)"

section \<open>\<open>lib/base/file.cpp\<close>\<close>

text \<open>
  The filename of a \<open>std::filesystem::path\<close> is what follows the last slash. \<open>stem\<close> is the filename without
  its extension, the part from the last period on, if that is not its first character.
\<close>

definition path_filename :: "string \<Rightarrow> string" where
  "path_filename p = rev (takeWhile (\<lambda>c. c \<noteq> CHR ''/'') (rev p))"

definition path_stem :: "string \<Rightarrow> string" where
  "path_stem p =
     (let f = path_filename p; before = rev (drop 1 (dropWhile (\<lambda>c. c \<noteq> CHR ''.'') (rev f)))
      in if f = ''.'' \<or> f = ''..'' \<or> CHR ''.'' \<notin> set f \<or> before = [] then f else before)"

definition Basename :: "string \<Rightarrow> string" where
  "Basename p = path_stem p"

definition Dirname :: "string \<Rightarrow> string" where
  "Dirname p = rev (dropWhile (\<lambda>c. c \<noteq> CHR ''/'') (rev p))"

text \<open>\<open>ReadFileToString\<close> reads pieces of \<open>BUFSIZ\<close> bytes until one is empty.\<close>

definition BUFSIZ :: nat where "BUFSIZ = 8192"

function ReadFdToString :: "string \<Rightarrow> ofile \<Rightarrow> bytes \<Rightarrow> fsys \<Rightarrow> errno + bytes" where
  "ReadFdToString p f content fs =
     (case file_read p f BUFSIZ fs of
        Inl e \<Rightarrow> Inl e
      | Inr (bs, f1) \<Rightarrow> if bs = [] then Inr content else ReadFdToString p f1 (content @ bs) fs)"
  by pat_completeness auto
termination
  by (relation "measure (\<lambda>(p, f, content, fs). file_left f fs)") (auto dest: file_read_left)

declare ReadFdToString.simps [simp del]

definition ReadFileToString :: "string \<Rightarrow> fsys \<Rightarrow> errno + bytes" where
  "ReadFileToString p fs =
     (case open_node p fs of Inl e \<Rightarrow> Inl e | Inr f \<Rightarrow> ReadFdToString p f [] fs)"

section \<open>\<open>adb_utils.cpp\<close>\<close>

definition directory_exists :: "string \<Rightarrow> fsys \<Rightarrow> bool" where
  "directory_exists p fs \<longleftrightarrow> (case fs_stat p fs of Inl e \<Rightarrow> False | Inr x \<Rightarrow> True)"

text \<open>
  \<open>mkdirs\<close>: the outcome, with \<open>errno\<close> when it is \<open>false\<close>.
\<close>

function mkdirs :: "string \<Rightarrow> fsys \<Rightarrow> (errno + unit) \<times> fsys" where
  "mkdirs p fs =
     (if directory_exists p fs then (Inr (), fs)
      else if Dirname p = p then (Inl ENOENT, fs)
      else
        (case mkdirs (Dirname p) fs of
           (Inl e, fs1) \<Rightarrow> (Inl e, fs1)
         | (Inr _, fs1) \<Rightarrow>
             (case adb_mkdir p 0x1FD fs1 of
                (Inl e, fs2) \<Rightarrow> if directory_exists p fs2 then (Inr (), fs2) else (Inl e, fs2)
              | (Inr _, fs2) \<Rightarrow> (Inr (), fs2))))"
  by pat_completeness auto
termination
proof (relation "measure (\<lambda>(p, fs). length p)")
  fix p :: string and fs :: fsys
  assume "Dirname p \<noteq> p"
  moreover have "\<exists>xs. p = Dirname p @ xs"
    unfolding Dirname_def by (metis rev_append rev_rev_ident takeWhile_dropWhile_id)
  ultimately show "((Dirname p, fs), (p, fs)) \<in> measure (\<lambda>(p, fs). length p)"
    by (metis (no_types, lifting) append_Nil2 case_prod_conv in_measure length_append length_greater_0_conv less_add_same_cancel1)
qed simp

end
