(* ===== verification/FileSync.thy ===== *)
theory FileSync
  imports AdbIo FileSys
begin

text \<open>
  The file synchronisation protocol (\<open>file_sync_protocol.h\<close>) and its service in the daemon
  (\<open>daemon/file_sync_service.cpp\<close>), in the build that is not for Android: owners and capabilities are left
  alone, and no security log is written. The state is the connection to the client and the file system
  of the device.
\<close>

section \<open>Messages\<close>

definition MKID :: "string \<Rightarrow> u32" where
  "MKID s = of_nat (le_nat s)"

definition ID_LSTAT_V1 :: u32 where "ID_LSTAT_V1 = MKID ''STAT''"
definition ID_STAT_V2 :: u32 where "ID_STAT_V2 = MKID ''STA2''"
definition ID_LSTAT_V2 :: u32 where "ID_LSTAT_V2 = MKID ''LST2''"
definition ID_LIST :: u32 where "ID_LIST = MKID ''LIST''"
definition ID_SEND :: u32 where "ID_SEND = MKID ''SEND''"
definition ID_RECV :: u32 where "ID_RECV = MKID ''RECV''"
definition ID_DENT :: u32 where "ID_DENT = MKID ''DENT''"
definition ID_DONE :: u32 where "ID_DONE = MKID ''DONE''"
definition ID_DATA :: u32 where "ID_DATA = MKID ''DATA''"
definition ID_OKAY :: u32 where "ID_OKAY = MKID ''OKAY''"
definition ID_FAIL :: u32 where "ID_FAIL = MKID ''FAIL''"
definition ID_QUIT :: u32 where "ID_QUIT = MKID ''QUIT''"

lemmas sync_ids = ID_LSTAT_V1_def ID_STAT_V2_def ID_LSTAT_V2_def ID_LIST_def ID_SEND_def ID_RECV_def ID_DENT_def
  ID_DONE_def ID_DATA_def ID_OKAY_def ID_FAIL_def ID_QUIT_def MKID_def

definition SYNC_DATA_MAX :: nat where "SYNC_DATA_MAX = 64 * 1024"

text \<open>A request, and the \<open>data\<close> and \<open>status\<close> variants of \<open>syncmsg\<close>, are two words.\<close>

definition sync_msg :: "u32 \<Rightarrow> u32 \<Rightarrow> bytes" where
  "sync_msg mid len = le32 mid @ le32 len"

definition msg_id :: "bytes \<Rightarrow> u32" where "msg_id bs = of_le32 bs"
definition msg_size :: "bytes \<Rightarrow> u32" where "msg_size bs = of_le32 (drop 4 bs)"

definition le64 :: "u64 \<Rightarrow> bytes" where
  "le64 w = le32 (ucast w) @ le32 (ucast (drop_bit 32 w))"

definition of_le64 :: "bytes \<Rightarrow> u64" where
  "of_le64 bs = ucast (of_le32 bs) OR push_bit 32 (ucast (of_le32 (drop 4 bs)))"

text \<open>The variants \<open>stat_v1\<close>, \<open>stat_v2\<close> and \<open>dent\<close>.\<close>

definition stat_v1_bytes :: "u32 \<Rightarrow> u32 \<Rightarrow> u32 \<Rightarrow> bytes" where
  "stat_v1_bytes mode len time = le32 ID_LSTAT_V1 @ le32 mode @ le32 len @ le32 time"

definition stat_v2_bytes :: "u32 \<Rightarrow> u32 \<Rightarrow> inode \<Rightarrow> bytes" where
  "stat_v2_bytes mid error x =
     le32 mid @ le32 error @ le64 (in_dev x) @ le64 (in_ino x) @ le32 (in_mode x) @ le32 (in_nlink x)
     @ le32 (in_uid x) @ le32 (in_gid x) @ le64 (of_nat (length (in_data x)))
     @ le64 (of_int (in_atime x)) @ le64 (of_int (in_mtime x)) @ le64 (of_int (in_ctime x))"

definition dent_bytes :: "u32 \<Rightarrow> u32 \<Rightarrow> u32 \<Rightarrow> u32 \<Rightarrow> u32 \<Rightarrow> bytes" where
  "dent_bytes mid mode len time namelen = le32 mid @ le32 mode @ le32 len @ le32 time @ le32 namelen"

section \<open>The service\<close>

text \<open>The buffer of \<open>SYNC_DATA_MAX\<close> bytes lives as long as the connection and keeps what was read into it.\<close>

record daemon =
  dm_os :: os
  dm_fs :: fsys
  dm_buffer :: bytes

definition daemon_new :: "os \<Rightarrow> fsys \<Rightarrow> daemon" where
  "daemon_new w fs = \<lparr>dm_os = w, dm_fs = fs, dm_buffer = replicate SYNC_DATA_MAX NUL\<rparr>"

definition fill_buffer :: "bytes \<Rightarrow> daemon \<Rightarrow> daemon" where
  "fill_buffer bs d = d\<lparr>dm_buffer := bs @ drop (length bs) (dm_buffer d)\<rparr>"

definition dm_write :: "int \<Rightarrow> bytes \<Rightarrow> daemon \<Rightarrow> bool \<times> daemon" where
  "dm_write s bs d = (case WriteFdExactly s bs (dm_os d) of (r, w) \<Rightarrow> (r = Inr (), d\<lparr>dm_os := w\<rparr>))"

definition dm_read :: "int \<Rightarrow> nat \<Rightarrow> daemon \<Rightarrow> bytes option \<times> daemon" where
  "dm_read s len d =
     (case ReadFdExactly s len (dm_os d) of
        (Inl e, w) \<Rightarrow> (None, d\<lparr>dm_os := w\<rparr>) | (Inr bs, w) \<Rightarrow> (Some bs, d\<lparr>dm_os := w\<rparr>))"

definition SendSyncFail :: "int \<Rightarrow> string \<Rightarrow> daemon \<Rightarrow> bool \<times> daemon" where
  "SendSyncFail s reason d =
     (case dm_write s (sync_msg ID_FAIL (of_nat (length reason))) d of
        (False, d1) \<Rightarrow> (False, d1) | (True, d1) \<Rightarrow> dm_write s reason d1)"

definition SendSyncFailErrno :: "int \<Rightarrow> string \<Rightarrow> errno \<Rightarrow> daemon \<Rightarrow> bool \<times> daemon" where
  "SendSyncFailErrno s reason e d = SendSyncFail s (reason @ '': '' @ strerror e) d"

text \<open>
  \<open>secure_mkdirs\<close>, with the value of \<open>errno\<close> when it is \<open>false\<close>. A path that is not absolute leaves \<open>errno\<close>
  as the failed \<open>open\<close> before the call set it.
\<close>

fun mkdir_components :: "string \<Rightarrow> string list \<Rightarrow> fsys \<Rightarrow> (errno + unit) \<times> fsys" where
  "mkdir_components partial [] fs = (Inr (), fs)"
| "mkdir_components partial (c # cs) fs =
     (if c = [] then mkdir_components partial cs fs
      else
        (let partial1 = (if partial = [] \<or> last partial \<noteq> CHR ''/'' then partial @ ''/'' else partial) @ c
         in case adb_mkdir partial1 0x1FD fs of
              (Inl e, fs1) \<Rightarrow> if e \<noteq> EEXIST then (Inl e, fs1) else mkdir_components partial1 cs fs1
            | (Inr _, fs1) \<Rightarrow>
                (case fs_fault fs1 ChownCall partial1 of
                   Some e \<Rightarrow> (Inl e, fs1)
                 | None \<Rightarrow> mkdir_components partial1 cs fs1)))"

definition secure_mkdirs :: "string \<Rightarrow> fsys \<Rightarrow> (errno + unit) \<times> fsys" where
  "secure_mkdirs path fs =
     (if take 1 path \<noteq> ''/'' then (Inl ENOENT, fs)
      else mkdir_components [] (split_on (\<lambda>c. c = CHR ''/'') path) fs)"

definition do_lstat_v1 :: "int \<Rightarrow> string \<Rightarrow> daemon \<Rightarrow> bool \<times> daemon" where
  "do_lstat_v1 s path d =
     dm_write s
       (case fs_lstat path (dm_fs d) of
          Inl e \<Rightarrow> stat_v1_bytes 0 0 0
        | Inr x \<Rightarrow> stat_v1_bytes (in_mode x) (of_nat (length (in_data x))) (of_int (in_mtime x))) d"

definition inode_zero :: inode where
  "inode_zero = \<lparr>in_dev = 0, in_ino = 0, in_mode = 0, in_nlink = 0, in_uid = 0, in_gid = 0, in_data = [],
     in_atime = 0, in_mtime = 0, in_ctime = 0\<rparr>"

definition do_stat_v2 :: "int \<Rightarrow> u32 \<Rightarrow> string \<Rightarrow> daemon \<Rightarrow> bool \<times> daemon" where
  "do_stat_v2 s mid path d =
     dm_write s
       (case (if mid = ID_STAT_V2 then fs_stat else fs_lstat) path (dm_fs d) of
          Inl e \<Rightarrow> stat_v2_bytes mid (of_int (errno_to_wire (errno_number e))) inode_zero
        | Inr x \<Rightarrow> stat_v2_bytes mid 0 x) d"

fun list_entries :: "int \<Rightarrow> string \<Rightarrow> string list \<Rightarrow> daemon \<Rightarrow> bool \<times> daemon" where
  "list_entries s path [] d = (True, d)"
| "list_entries s path (name # names) d =
     (case fs_lstat (path @ ''/'' @ name) (dm_fs d) of
        Inl e \<Rightarrow> list_entries s path names d
      | Inr x \<Rightarrow>
          (case dm_write s (dent_bytes ID_DENT (in_mode x) (of_nat (length (in_data x))) (of_int (in_mtime x))
                              (of_nat (length name))) d of
             (False, d1) \<Rightarrow> (False, d1)
           | (True, d1) \<Rightarrow>
               (case dm_write s name d1 of
                  (False, d2) \<Rightarrow> (False, d2)
                | (True, d2) \<Rightarrow> list_entries s path names d2)))"

definition do_list :: "int \<Rightarrow> string \<Rightarrow> daemon \<Rightarrow> bool \<times> daemon" where
  "do_list s path d =
     (case (case fs_readdir path (dm_fs d) of Inl e \<Rightarrow> (True, d) | Inr names \<Rightarrow> list_entries s path names d) of
        (False, d1) \<Rightarrow> (False, d1)
      | (True, d1) \<Rightarrow> dm_write s (dent_bytes ID_DONE 0 0 0 0) d1)"

text \<open>What is left of the script of a descriptor: every read that brings bytes makes it smaller.\<close>

definition script_left :: "os \<Rightarrow> int \<Rightarrow> nat" where
  "script_left w fd = (\<Sum>r\<leftarrow>os_reads w fd. case r of RData bs \<Rightarrow> Suc (length bs) | _ \<Rightarrow> 1)"

lemma adb_read_left:
  assumes "adb_read fd len w = (Inr bs, w')" "bs \<noteq> []"
  shows "script_left w' fd < script_left w fd"
  using assms by (auto simp: adb_read_def script_left_def split: list.splits read_result.splits if_splits)

lemma ReadFdExactly_left:
  "ReadFdExactly fd len w = (Inr bs, w') \<Longrightarrow> script_left w' fd \<le> script_left w fd \<and> (len \<noteq> 0 \<longrightarrow> script_left w' fd < script_left w fd)"
proof (induction fd len w arbitrary: bs w' rule: ReadFdExactly.induct)
  case (1 fd len w)
  show ?case
  proof (cases "len = 0")
    case False
    then obtain b w1 rest where r: "adb_read fd len w = (Inr b, w1)" "b \<noteq> []"
        "ReadFdExactly fd (len - length b) w1 = (Inr rest, w')"
      using 1(2) by (subst (asm) ReadFdExactly.simps) (auto split: prod.splits sum.splits if_splits)
    then show ?thesis using 1(1) [OF False r(1) [symmetric] refl r(2) r(3)] adb_read_left [OF r(1,2)] by simp
  qed (use 1 in \<open>simp add: ReadFdExactly.simps\<close>)
qed

lemma dm_read_left:
  assumes "dm_read s len d = (Some bs, d')"
  shows "script_left (dm_os d') s \<le> script_left (dm_os d) s" "len \<noteq> 0 \<Longrightarrow> script_left (dm_os d') s < script_left (dm_os d) s"
  using assms ReadFdExactly_left [of s len "dm_os d"] by (auto simp: dm_read_def split: prod.splits sum.splits)

lemma dm_reads_left:
  assumes "(Some m, d1) = dm_read s 8 d" "(Some bs, d2) = dm_read s len d1"
  shows "script_left (dm_os d2) s < script_left (dm_os d) s"
  using dm_read_left(2) [OF assms(1) [symmetric]] dm_read_left(1) [OF assms(2) [symmetric]] by simp

lemma fill_buffer_frame [simp]: "dm_os (fill_buffer bs d) = dm_os d" "dm_fs (fill_buffer bs d) = dm_fs d"
  by (simp_all add: fill_buffer_def)

text \<open>
  The loop that stores the data of \<open>ID_SEND\<close>, and the one that throws the rest away after a failure. The
  first ends with the time stamp of \<open>ID_DONE\<close>, or at one of the labels \<open>fail\<close> and \<open>abort\<close>.
\<close>

datatype upload = Upload_done u32 | Upload_fail | Upload_abort

function upload_loop :: "int \<Rightarrow> string \<Rightarrow> ofile \<Rightarrow> daemon \<Rightarrow> upload \<times> daemon" where
  "upload_loop s path f d =
     (case dm_read s 8 d of
        (None, d1) \<Rightarrow> (Upload_fail, d1)
      | (Some m, d1) \<Rightarrow>
          if msg_id m \<noteq> ID_DATA then
            (if msg_id m = ID_DONE then (Upload_done (msg_size m), d1)
             else (Upload_abort, snd (SendSyncFail s ''invalid data message'' d1)))
          else if unat (msg_size m) > SYNC_DATA_MAX then
            (Upload_abort, snd (SendSyncFail s ''oversize data message'' d1))
          else
            (case dm_read s (unat (msg_size m)) d1 of
               (None, d2) \<Rightarrow> (Upload_abort, d2)
             | (Some bs, d2) \<Rightarrow>
                 (let d3 = fill_buffer bs d2
                  in case file_write path f bs (dm_fs d3) of
                       (Inl e, fs) \<Rightarrow> (Upload_fail, snd (SendSyncFailErrno s ''write failed'' e (d3\<lparr>dm_fs := fs\<rparr>)))
                     | (Inr f1, fs) \<Rightarrow> upload_loop s path f1 (d3\<lparr>dm_fs := fs\<rparr>))))"
  by pat_completeness auto
termination
  by (relation "measure (\<lambda>(s, path, f, d). script_left (dm_os d) s)") (auto dest: dm_reads_left)

function drain_loop :: "int \<Rightarrow> daemon \<Rightarrow> daemon" where
  "drain_loop s d =
     (case dm_read s 8 d of
        (None, d1) \<Rightarrow> d1
      | (Some m, d1) \<Rightarrow>
          if msg_id m = ID_DONE then d1
          else if msg_id m \<noteq> ID_DATA then d1
          else if unat (msg_size m) > SYNC_DATA_MAX then d1
          else
            (case dm_read s (unat (msg_size m)) d1 of
               (None, d2) \<Rightarrow> d2
             | (Some bs, d2) \<Rightarrow> drain_loop s (fill_buffer bs d2)))"
  by pat_completeness auto
termination
  by (relation "measure (\<lambda>(s, d). script_left (dm_os d) s)") (auto dest: dm_reads_left)

declare upload_loop.simps [simp del] drain_loop.simps [simp del]

text \<open>
  \<open>handle_send_file\<close>: opening, the change of owner and mode, the data, and the answer. The file is opened
  as a new one, in a new directory if there is none, or else as the one that exists.
\<close>

definition open_upload :: "string \<Rightarrow> u32 \<Rightarrow> fsys \<Rightarrow> (string \<times> errno + ofile) \<times> fsys" where
  "open_upload path mode fs =
     (case open_excl path mode fs of
        (r1, fs1) \<Rightarrow>
          (case (if r1 = Inl ENOENT then
                   (case secure_mkdirs (Dirname path) fs1 of
                      (Inl e, fs2) \<Rightarrow> (Inl (''secure_mkdirs failed'', e), fs2)
                    | (Inr _, fs2) \<Rightarrow> (case open_excl path mode fs2 of (r2, fs3) \<Rightarrow> (Inr r2, fs3)))
                 else (Inr r1, fs1)) of
             (Inl failed, fs4) \<Rightarrow> (Inl failed, fs4)
           | (Inr r, fs4) \<Rightarrow>
               (case (if r = Inl EEXIST then open_write path fs4 else r) of
                  Inl e \<Rightarrow> (Inl (''couldn't create file'', e), fs4)
                | Inr f \<Rightarrow>
                    (case fs_fault fs4 ChownCall path of
                       Some e \<Rightarrow> (Inl (''fchown failed'', e), fs4)
                     | None \<Rightarrow> (Inr f, snd (fs_fchmod path f mode fs4))))))"

definition abort_upload :: "string \<Rightarrow> bool \<Rightarrow> daemon \<Rightarrow> bool \<times> daemon" where
  "abort_upload path do_unlink d =
     (False, if do_unlink then d\<lparr>dm_fs := snd (adb_unlink path (dm_fs d))\<rparr> else d)"

definition handle_send_file :: "int \<Rightarrow> string \<Rightarrow> u32 \<Rightarrow> bool \<Rightarrow> daemon \<Rightarrow> bool \<times> daemon" where
  "handle_send_file s path mode do_unlink d =
     (case open_upload path mode (dm_fs d) of
        (Inl (reason, e), fs) \<Rightarrow>
          abort_upload path do_unlink (drain_loop s (snd (SendSyncFailErrno s reason e (d\<lparr>dm_fs := fs\<rparr>))))
      | (Inr f, fs) \<Rightarrow>
          (case upload_loop s path f (d\<lparr>dm_fs := fs\<rparr>) of
             (Upload_fail, d1) \<Rightarrow> abort_upload path do_unlink (drain_loop s d1)
           | (Upload_abort, d1) \<Rightarrow> abort_upload path do_unlink d1
           | (Upload_done timestamp, d1) \<Rightarrow>
               dm_write s (sync_msg ID_OKAY 0) (d1\<lparr>dm_fs := snd (fs_utime path (uint timestamp) (dm_fs d1))\<rparr>)))"

definition handle_send_link :: "int \<Rightarrow> string \<Rightarrow> daemon \<Rightarrow> bool \<times> daemon" where
  "handle_send_link s path d =
     (case dm_read s 8 d of
        (None, d1) \<Rightarrow> (False, d1)
      | (Some m, d1) \<Rightarrow>
          if msg_id m \<noteq> ID_DATA then (False, snd (SendSyncFail s ''invalid data message: expected ID_DATA'' d1))
          else if unat (msg_size m) > SYNC_DATA_MAX then (False, snd (SendSyncFail s ''oversize data message'' d1))
          else
            (case dm_read s (unat (msg_size m)) d1 of
               (None, d2) \<Rightarrow> (False, d2)
             | (Some bs, d2) \<Rightarrow>
                 (let d3 = fill_buffer bs d2; target = c_str (dm_buffer d3)
                  in case fs_symlink target path (dm_fs d3) of
                       (r1, fs1) \<Rightarrow>
                         (case (if r1 = Inl ENOENT then
                                  (case secure_mkdirs (Dirname path) fs1 of
                                     (Inl e, fs2) \<Rightarrow> (Inl (''secure_mkdirs failed'', e), fs2)
                                   | (Inr _, fs2) \<Rightarrow>
                                       (case fs_symlink target path fs2 of
                                          (Inl e, fs3) \<Rightarrow> (Inl (''symlink failed'', e), fs3)
                                        | (Inr k, fs3) \<Rightarrow> (Inr k, fs3)))
                                else (case r1 of Inl e \<Rightarrow> (Inl (''symlink failed'', e), fs1) | Inr k \<Rightarrow> (Inr k, fs1))) of
                            (Inl (reason, e), fs4) \<Rightarrow> (False, snd (SendSyncFailErrno s reason e (d3\<lparr>dm_fs := fs4\<rparr>)))
                          | (Inr _, fs4) \<Rightarrow>
                              (case dm_read s 8 (d3\<lparr>dm_fs := fs4\<rparr>) of
                                 (None, d5) \<Rightarrow> (False, d5)
                               | (Some m2, d5) \<Rightarrow>
                                   if msg_id m2 = ID_DONE then dm_write s (sync_msg ID_OKAY 0) d5
                                   else (False, snd (SendSyncFail s ''invalid data message: expected ID_DONE'' d5)))))))"

text \<open>The permissions of a new file: those of its owner for everyone.\<close>

definition spread_mode :: "u32 \<Rightarrow> u32" where
  "spread_mode mode =
     (let m0 = mode AND 0x1FF; m1 = m0 OR (drop_bit 3 m0 AND 0x38) in m1 OR (drop_bit 3 m1 AND 0x07))"

definition do_send :: "int \<Rightarrow> string \<Rightarrow> daemon \<Rightarrow> bool \<times> daemon" where
  "do_send s spec d =
     (if CHR '','' \<notin> set spec then (False, snd (SendSyncFail s ''missing , in ID_SEND'' d))
      else
        (let tail = rev (takeWhile (\<lambda>c. c \<noteq> CHR '','') (rev spec));
             path = take (length spec - length tail - 1) spec
         in case strtoul 0 tail of
              (value, overflow, rest) \<Rightarrow>
                if overflow then (False, snd (SendSyncFail s ''bad mode'' d))
                else
                  (let mode = of_nat value;
                       do_unlink = (case fs_lstat path (dm_fs d) of
                                      Inl e \<Rightarrow> True | Inr x \<Rightarrow> S_ISREG (in_mode x) \<or> S_ISLNK (in_mode x));
                       d1 = (if do_unlink then d\<lparr>dm_fs := snd (adb_unlink path (dm_fs d))\<rparr> else d)
                   in if S_ISLNK mode then handle_send_link s path d1
                      else handle_send_file s path (spread_mode mode) do_unlink d1)))"

function recv_loop :: "fsys \<Rightarrow> int \<Rightarrow> string \<Rightarrow> ofile \<Rightarrow> daemon \<Rightarrow> bool \<times> daemon" where
  "recv_loop fs s path f d =
     (case file_read path f (SYNC_DATA_MAX - 8) fs of
        Inl e \<Rightarrow> (False, snd (SendSyncFailErrno s ''read failed'' e d))
      | Inr (bs, f1) \<Rightarrow>
          if bs = [] then dm_write s (sync_msg ID_DONE 0) d
          else
            (case dm_write s (sync_msg ID_DATA (of_nat (length bs))) (fill_buffer bs d) of
               (False, d1) \<Rightarrow> (False, d1)
             | (True, d1) \<Rightarrow>
                 (case dm_write s bs d1 of
                    (False, d2) \<Rightarrow> (False, d2)
                  | (True, d2) \<Rightarrow> recv_loop fs s path f1 d2)))"
  by pat_completeness auto
termination
  by (relation "measure (\<lambda>(fs, s, path, f, d). file_left f fs)") (auto dest: file_read_left)

declare recv_loop.simps [simp del]

definition do_recv :: "int \<Rightarrow> string \<Rightarrow> daemon \<Rightarrow> bool \<times> daemon" where
  "do_recv s path d =
     (case open_node path (dm_fs d) of
        Inl e \<Rightarrow> (False, snd (SendSyncFailErrno s ''open failed'' e d))
      | Inr f \<Rightarrow> recv_loop (dm_fs d) s path f d)"

definition handle_sync_command :: "int \<Rightarrow> daemon \<Rightarrow> bool \<times> daemon" where
  "handle_sync_command fd d =
     (case dm_read fd 8 d of
        (None, d1) \<Rightarrow> (False, snd (SendSyncFail fd ''command read failure'' d1))
      | (Some m, d1) \<Rightarrow>
          if unat (msg_size m) > 1024 then (False, snd (SendSyncFail fd ''path too long'' d1))
          else
            (case dm_read fd (unat (msg_size m)) d1 of
               (None, d2) \<Rightarrow> (False, snd (SendSyncFail fd ''filename read failure'' d2))
             | (Some bs, d2) \<Rightarrow>
                 (let name = c_str bs; mid = msg_id m
                  in if mid = ID_LSTAT_V1 then do_lstat_v1 fd name d2
                     else if mid = ID_LSTAT_V2 \<or> mid = ID_STAT_V2 then do_stat_v2 fd mid name d2
                     else if mid = ID_LIST then do_list fd name d2
                     else if mid = ID_SEND then do_send fd name d2
                     else if mid = ID_RECV then do_recv fd name d2
                     else if mid = ID_QUIT then (False, d2)
                     else (False, snd (SendSyncFail fd (''unknown command '' @ pad0 8 (digits 16 (unat mid))) d2)))))"

end
