(* ===== verification/FileSyncClient.thy ===== *)
theory FileSyncClient
  imports FileSync AdbUtils
begin

text \<open>
  The client of the file synchronisation protocol (\<open>client/file_sync_client.cpp\<close>): requests, the transfer
  of single files both ways, listings and \<open>stat\<close>, and the commands push, pull and sync that are made of
  them. The state is the connection with its ledgers and the lines it printed, and the local file
  system. What \<open>poll\<close> reports between two pieces of a large file, and the text of the transfer rate, which
  depends on the clock, are lists in the state.
\<close>

section \<open>State\<close>

record TransferLedger =
  files_transferred :: u64
  files_skipped :: u64
  bytes_transferred :: u64
  bytes_expected :: u64
  expect_multiple_files :: bool

definition ledger_Reset :: "TransferLedger \<Rightarrow> TransferLedger" where
  "ledger_Reset l = l\<lparr>files_transferred := 0, files_skipped := 0, bytes_transferred := 0, bytes_expected := 0\<rparr>"

definition ledger_eq :: "TransferLedger \<Rightarrow> TransferLedger \<Rightarrow> bool" where
  "ledger_eq a b \<longleftrightarrow> files_transferred a = files_transferred b \<and> files_skipped a = files_skipped b
     \<and> bytes_transferred a = bytes_transferred b"

datatype line = InfoLine string | WarningLine string | ErrorLine string | KeepInfoLine

record client =
  sc_fd :: int
  sc_max :: nat
  sc_expect_done :: bool
  sc_features :: "string list"
  sc_have_stat_v2 :: bool
  sc_global :: TransferLedger
  sc_current :: TransferLedger
  sc_lines :: "line list"
  cl_errno :: errno
  cl_polls :: "(errno + bool) list"
  cl_rates :: "string list"
  cl_os :: os
  cl_fs :: fsys

text \<open>\<open>struct stat\<close>, as far as the client fills it in.\<close>

record stat =
  st_dev :: u64
  st_ino :: u64
  st_mode :: u32
  st_nlink :: u32
  st_uid :: u32
  st_gid :: u32
  st_size :: int
  st_atime :: int
  st_mtime :: int
  st_ctime :: int

definition stat_of :: "inode \<Rightarrow> stat" where
  "stat_of x =
     \<lparr>st_dev = in_dev x, st_ino = in_ino x, st_mode = in_mode x, st_nlink = in_nlink x, st_uid = in_uid x,
      st_gid = in_gid x, st_size = int (length (in_data x)), st_atime = in_atime x, st_mtime = in_mtime x,
      st_ctime = in_ctime x\<rparr>"

definition stat_zero :: stat where
  "stat_zero = \<lparr>st_dev = 0, st_ino = 0, st_mode = 0, st_nlink = 0, st_uid = 0, st_gid = 0, st_size = 0,
     st_atime = 0, st_mtime = 0, st_ctime = 0\<rparr>"

definition print_line :: "line \<Rightarrow> client \<Rightarrow> client" where
  "print_line l c = c\<lparr>sc_lines := sc_lines c @ [l]\<rparr>"

definition sc_Error :: "string \<Rightarrow> client \<Rightarrow> client" where
  "sc_Error text c = print_line (ErrorLine (''adb: error: '' @ text)) c"

definition sc_Warning :: "string \<Rightarrow> client \<Rightarrow> client" where
  "sc_Warning text c = print_line (WarningLine (''adb: warning: '' @ text)) c"

section \<open>Ledgers\<close>

definition RecordBytesTransferred :: "nat \<Rightarrow> client \<Rightarrow> client" where
  "RecordBytesTransferred n c =
     c\<lparr>sc_current := (sc_current c)\<lparr>bytes_transferred := bytes_transferred (sc_current c) + of_nat n\<rparr>,
       sc_global := (sc_global c)\<lparr>bytes_transferred := bytes_transferred (sc_global c) + of_nat n\<rparr>\<rparr>"

definition RecordFilesTransferred :: "nat \<Rightarrow> client \<Rightarrow> client" where
  "RecordFilesTransferred n c =
     c\<lparr>sc_current := (sc_current c)\<lparr>files_transferred := files_transferred (sc_current c) + of_nat n\<rparr>,
       sc_global := (sc_global c)\<lparr>files_transferred := files_transferred (sc_global c) + of_nat n\<rparr>\<rparr>"

definition RecordFilesSkipped :: "nat \<Rightarrow> client \<Rightarrow> client" where
  "RecordFilesSkipped n c =
     c\<lparr>sc_current := (sc_current c)\<lparr>files_skipped := files_skipped (sc_current c) + of_nat n\<rparr>,
       sc_global := (sc_global c)\<lparr>files_skipped := files_skipped (sc_global c) + of_nat n\<rparr>\<rparr>"

definition NewTransfer :: "client \<Rightarrow> client" where
  "NewTransfer c = c\<lparr>sc_current := ledger_Reset (sc_current c)\<rparr>"

definition SetExpectedTotalBytes :: "u64 \<Rightarrow> client \<Rightarrow> client" where
  "SetExpectedTotalBytes n c =
     c\<lparr>sc_current := (sc_current c)\<lparr>bytes_expected := n, expect_multiple_files := False\<rparr>\<rparr>"

text \<open>The progress line of a ledger.\<close>

definition pad4 :: "string \<Rightarrow> string" where
  "pad4 s = replicate (4 - length s) (CHR '' '') @ s"

definition overall_percentage_str :: "TransferLedger \<Rightarrow> string" where
  "overall_percentage_str l =
     (if bytes_expected l \<noteq> 0 \<and> bytes_transferred l \<le> bytes_expected l then
        (let percentage = uint (bytes_transferred l * 100 div bytes_expected l) :: int
         in if to_int32 percentage \<le> 100 then take 4 (dec (to_int32 percentage) @ ''%'') else ''?'')
      else ''?'')"

definition progress_text :: "TransferLedger \<Rightarrow> string \<Rightarrow> u64 \<Rightarrow> u64 \<Rightarrow> string" where
  "progress_text l file copied tot =
     ''['' @ pad4 (overall_percentage_str l) @ ''] '' @ c_str file
     @ (if copied > tot \<or> tot = 0 then '': '' @ dec (sint copied) @ ''/?''
        else if expect_multiple_files l then '': '' @ dec (to_int32 (uint (copied * 100 div tot))) @ ''%''
        else [])"

definition ReportProgress :: "string \<Rightarrow> u64 \<Rightarrow> u64 \<Rightarrow> client \<Rightarrow> client" where
  "ReportProgress file copied tot c = print_line (InfoLine (progress_text (sc_current c) file copied tot)) c"

definition plural :: "u64 \<Rightarrow> string" where
  "plural n = dec (uint n) @ '' file'' @ (if n = 1 then [] else ''s'')"

definition rate_text :: "TransferLedger \<Rightarrow> string \<Rightarrow> bool \<Rightarrow> string \<Rightarrow> string" where
  "rate_text l name push rate =
     (if name \<noteq> [] then name @ '': '' else []) @ plural (files_transferred l) @ '' ''
     @ (if push then ''pushed'' else ''pulled'') @ ''.''
     @ (if files_skipped l > 0 then '' '' @ plural (files_skipped l) @ '' skipped.'' else [])
     @ (if bytes_transferred l = 0 then [] else rate)"

definition print_rate :: "TransferLedger \<Rightarrow> string \<Rightarrow> bool \<Rightarrow> client \<Rightarrow> client" where
  "print_rate l name push c =
     (case cl_rates c of
        [] \<Rightarrow> print_line KeepInfoLine (print_line (InfoLine (rate_text l name push [])) c)
      | r # rs \<Rightarrow> print_line KeepInfoLine (print_line (InfoLine (rate_text l name push r)) (c\<lparr>cl_rates := rs\<rparr>)))"

definition ReportTransferRate :: "string \<Rightarrow> bool \<Rightarrow> client \<Rightarrow> client" where
  "ReportTransferRate file push c = print_rate (sc_current c) file push c"

definition ReportOverallTransferRate :: "bool \<Rightarrow> client \<Rightarrow> client" where
  "ReportOverallTransferRate push c =
     (if \<not> ledger_eq (sc_current c) (sc_global c) then print_rate (sc_global c) [] push c else c)"

section \<open>Requests\<close>

definition cl_read :: "nat \<Rightarrow> client \<Rightarrow> bytes option \<times> client" where
  "cl_read len c =
     (case ReadFdExactly (sc_fd c) len (cl_os c) of
        (Inl e, w) \<Rightarrow> (None, c\<lparr>cl_os := w, cl_errno := e\<rparr>) | (Inr bs, w) \<Rightarrow> (Some bs, c\<lparr>cl_os := w\<rparr>))"

definition ReceivedError :: "client \<Rightarrow> bool \<times> client" where
  "ReceivedError c =
     (case cl_polls c of
        [] \<Rightarrow> (False, c)
      | Inl e # ps \<Rightarrow> (True, sc_Error (''failed to poll: '' @ strerror e) (c\<lparr>cl_polls := ps\<rparr>))
      | Inr r # ps \<Rightarrow> (r, c\<lparr>cl_polls := ps\<rparr>))"

definition SendRequest :: "u32 \<Rightarrow> string \<Rightarrow> client \<Rightarrow> bool \<times> client" where
  "SendRequest mid path_and_mode c =
     (let path = c_str path_and_mode
      in if length path > 1024 then
           (False, (sc_Error (''SendRequest failed: path too long: '' @ dec (int (length path))) c)\<lparr>cl_errno := ENAMETOOLONG\<rparr>)
         else
           (case WriteFdExactly (sc_fd c) (sync_msg mid (of_nat (length path)) @ path) (cl_os c) of
              (Inl e, w) \<Rightarrow> (False, c\<lparr>cl_os := w, cl_errno := e\<rparr>)
            | (Inr _, w) \<Rightarrow> (True, c\<lparr>cl_os := w\<rparr>)))"

definition SendStat :: "string \<Rightarrow> client \<Rightarrow> bool \<times> client" where
  "SendStat path c =
     (if \<not> sc_have_stat_v2 c then (False, c\<lparr>cl_errno := ENOTSUP\<rparr>) else SendRequest ID_STAT_V2 path c)"

definition SendLstat :: "string \<Rightarrow> client \<Rightarrow> bool \<times> client" where
  "SendLstat path c = SendRequest (if sc_have_stat_v2 c then ID_LSTAT_V2 else ID_LSTAT_V1) path c"

definition word_at :: "nat \<Rightarrow> bytes \<Rightarrow> u32" where "word_at i m = of_le32 (drop i m)"
definition dword_at :: "nat \<Rightarrow> bytes \<Rightarrow> u64" where "dword_at i m = of_le64 (drop i m)"

text \<open>\<open>FinishStat\<close>: the answer, or \<open>None\<close> with \<open>errno\<close>. A wrong or missing answer ends the program.\<close>

definition stat_v2_of :: "bytes \<Rightarrow> stat" where
  "stat_v2_of m =
     \<lparr>st_dev = dword_at 8 m, st_ino = dword_at 16 m, st_mode = word_at 24 m, st_nlink = word_at 28 m,
      st_uid = word_at 32 m, st_gid = word_at 36 m, st_size = sint (dword_at 40 m),
      st_atime = sint (dword_at 48 m), st_mtime = sint (dword_at 56 m), st_ctime = sint (dword_at 64 m)\<rparr>"

definition FinishStat :: "client \<Rightarrow> (stat option \<times> client) res" where
  "FinishStat c =
     (if sc_have_stat_v2 c then
        (case cl_read 72 c of
           (None, c1) \<Rightarrow> Inl (Exit (- 1))
         | (Some m, c1) \<Rightarrow>
             if word_at 0 m \<noteq> ID_LSTAT_V2 \<and> word_at 0 m \<noteq> ID_STAT_V2 then Inl (Exit (- 1))
             else if word_at 4 m \<noteq> 0 then
               Inr (None, c1\<lparr>cl_errno := errno_of (errno_from_wire (sint (word_at 4 m)))\<rparr>)
             else Inr (Some (stat_v2_of m), c1))
      else
        (case cl_read 16 c of
           (None, c1) \<Rightarrow> Inl (Exit (- 1))
         | (Some m, c1) \<Rightarrow>
             if word_at 0 m \<noteq> ID_LSTAT_V1 then Inl (Exit (- 1))
             else if word_at 4 m = 0 \<and> word_at 8 m = 0 \<and> word_at 12 m = 0 then
               Inr (None, c1\<lparr>cl_errno := ENOPROTOOPT\<rparr>)
             else
               Inr (Some (stat_zero\<lparr>st_mode := word_at 4 m, st_size := uint (word_at 8 m),
                            st_mtime := uint (word_at 12 m), st_ctime := uint (word_at 12 m)\<rparr>), c1)))"

definition sync_stat :: "string \<Rightarrow> client \<Rightarrow> (stat option \<times> client) res" where
  "sync_stat path c = (case SendStat path c of (False, c1) \<Rightarrow> Inr (None, c1) | (True, c1) \<Rightarrow> FinishStat c1)"

definition sync_lstat :: "string \<Rightarrow> client \<Rightarrow> (stat option \<times> client) res" where
  "sync_lstat path c = (case SendLstat path c of (False, c1) \<Rightarrow> Inr (None, c1) | (True, c1) \<Rightarrow> FinishStat c1)"

definition sync_stat_fallback :: "string \<Rightarrow> client \<Rightarrow> (stat option \<times> client) res" where
  "sync_stat_fallback path c =
     rbind (sync_stat path c) (\<lambda>(r, c1).
     if r \<noteq> None then Inr (r, c1)
     else if cl_errno c1 \<noteq> ENOTSUP then Inr (None, c1)
     else
       rbind (sync_lstat path c1) (\<lambda>(r2, c2).
       case r2 of
         None \<Rightarrow> Inr (None, c2)
       | Some st \<Rightarrow>
           if S_ISLNK (st_mode st) then
             rbind (sync_lstat (path @ ''/'') c2) (\<lambda>(r3, c3).
             Inr (Some (st\<lparr>st_size := 0,
               st_mode := (st_mode st AND NOT S_IFMT) OR (if r3 \<noteq> None then S_IFDIR else S_IFREG)\<rparr>), c3))
           else Inr (Some st, c2)))"

section \<open>Single files\<close>

text \<open>
  \<open>WriteOrDie\<close>: a write that fails ends the program, after it has printed what the other side may have
  said about the reason.
\<close>

definition WriteOrDie :: "bytes \<Rightarrow> client \<Rightarrow> client res" where
  "WriteOrDie data c =
     (case WriteFdExactly (sc_fd c) data (cl_os c) of
        (Inl e, w) \<Rightarrow> Inl (Exit 1) | (Inr _, w) \<Rightarrow> Inr (c\<lparr>cl_os := w\<rparr>))"

definition copy_failed :: "string \<Rightarrow> string \<Rightarrow> string \<Rightarrow> client \<Rightarrow> client" where
  "copy_failed from to text c =
     sc_Error (''failed to copy '' @ quoted from @ '' to '' @ quoted to @ text) c"

text \<open>
  \<open>ReportCopyFailure\<close>. The buffer for the reason has \<open>msglen + 1\<close> bytes in 32 bits; with the largest
  \<open>msglen\<close> it is empty.
\<close>

definition ReportCopyFailure :: "string \<Rightarrow> string \<Rightarrow> u32 \<Rightarrow> client \<Rightarrow> client res" where
  "ReportCopyFailure from to msglen c =
     (if msglen + 1 = 0 then Inl OutOfBounds
      else
        (case cl_read (unat msglen) c of
           (None, c1) \<Rightarrow> Inr (copy_failed from to (''; failed to read reason (!): '' @ strerror (cl_errno c1)) c1)
         | (Some bs, c1) \<Rightarrow> Inr (copy_failed from to ('': remote '' @ c_str bs) c1)))"

definition CopyDone :: "string \<Rightarrow> string \<Rightarrow> client \<Rightarrow> (bool \<times> client) res" where
  "CopyDone from to c =
     (case cl_read 8 c of
        (None, c1) \<Rightarrow> Inr (False, copy_failed from to '': couldn't read from device'' c1)
      | (Some m, c1) \<Rightarrow>
          if msg_id m = ID_OKAY then
            (if sc_expect_done c1 then Inr (True, RecordFilesTransferred 1 (c1\<lparr>sc_expect_done := False\<rparr>))
             else Inr (True, copy_failed from to '': received premature success'' c1))
          else if msg_id m \<noteq> ID_FAIL then
            Inr (False, copy_failed from to ('': unknown reason '' @ dec (sint (msg_id m))) c1)
          else rbind (ReportCopyFailure from to (msg_size m) c1) (\<lambda>c2. Inr (False, c2)))"

definition SendSmallFile :: "string \<Rightarrow> string \<Rightarrow> u32 \<Rightarrow> bytes \<Rightarrow> client \<Rightarrow> (bool \<times> client) res" where
  "SendSmallFile path_and_mode rpath mtime data c =
     (let path = c_str path_and_mode
      in if length path > 1024 then
           Inr (False, (sc_Error (''SendSmallFile failed: path too long: '' @ dec (int (length path))) c)\<lparr>cl_errno := ENAMETOOLONG\<rparr>)
         else
           rbind (WriteOrDie (sync_msg ID_SEND (of_nat (length path)) @ path
                              @ sync_msg ID_DATA (of_nat (length data)) @ data @ sync_msg ID_DONE mtime) c) (\<lambda>c1.
           Inr (True, ReportProgress rpath (of_nat (length data)) (of_nat (length data))
                        (RecordBytesTransferred (length data) (c1\<lparr>sc_expect_done := True\<rparr>)))))"

text \<open>The loop over the pieces of a large file; it is left early when the other side has something to say.\<close>

function large_loop :: "fsys \<Rightarrow> string \<Rightarrow> string \<Rightarrow> ofile \<Rightarrow> u64 \<Rightarrow> u64 \<Rightarrow> client \<Rightarrow> (bool \<times> client) res" where
  "large_loop fs lpath rpath f copied tot c =
     (case file_read lpath f (sc_max c - 8) fs of
        Inl e \<Rightarrow> Inr (False, sc_Error (''reading '' @ quoted lpath @ '' locally failed: '' @ strerror e) c)
      | Inr (bs, f1) \<Rightarrow>
          if bs = [] then Inr (True, c)
          else
            rbind (WriteOrDie (sync_msg ID_DATA (of_nat (length bs)) @ bs) c) (\<lambda>c1.
            (case ReceivedError (RecordBytesTransferred (length bs) c1) of
               (True, c2) \<Rightarrow> Inr (True, c2)
             | (False, c2) \<Rightarrow>
                 (let copied1 = copied + of_nat (length bs)
                  in large_loop fs lpath rpath f1 copied1 tot (ReportProgress rpath copied1 tot c2)))))"
  by pat_completeness auto
termination
  by (relation "measure (\<lambda>(fs, lpath, rpath, f, _). file_left f fs)") (auto dest: file_read_left)

declare large_loop.simps [simp del]

definition SendLargeFile :: "string \<Rightarrow> string \<Rightarrow> string \<Rightarrow> u32 \<Rightarrow> client \<Rightarrow> (bool \<times> client) res" where
  "SendLargeFile path_and_mode lpath rpath mtime c =
     (case SendRequest ID_SEND path_and_mode c of
        (False, c1) \<Rightarrow>
          Inr (False, sc_Error (''failed to send ID_SEND message '' @ quoted path_and_mode @ '': '' @ strerror (cl_errno c1)) c1)
      | (True, c1) \<Rightarrow>
          (case fs_stat lpath (cl_fs c1) of
             Inl e \<Rightarrow> Inr (False, sc_Error (''cannot stat '' @ quoted lpath @ '': '' @ strerror e) c1)
           | Inr x \<Rightarrow>
               (case open_node lpath (cl_fs c1) of
                  Inl e \<Rightarrow> Inr (False, sc_Error (''opening '' @ quoted lpath @ '' locally failed: '' @ strerror e) c1)
                | Inr f \<Rightarrow>
                    rbind (large_loop (cl_fs c1) lpath rpath f 0 (of_nat (length (in_data x))) c1) (\<lambda>(ok, c2).
                    if \<not> ok then Inr (False, c2)
                    else rbind (WriteOrDie (sync_msg ID_DONE mtime) (c2\<lparr>sc_expect_done := True\<rparr>)) (\<lambda>c3. Inr (True, c3))))))"

text \<open>Whether a file on the device counts as up to date.\<close>

definition up_to_date :: "u32 \<Rightarrow> int \<Rightarrow> stat \<Rightarrow> bool" where
  "up_to_date mode mtime st \<longleftrightarrow>
     (S_ISREG (mode AND st_mode st) \<and> st_mtime st = mtime) \<or> (S_ISLNK (mode AND st_mode st) \<and> st_mtime st \<ge> mtime)"

definition sync_send :: "string \<Rightarrow> string \<Rightarrow> u32 \<Rightarrow> u32 \<Rightarrow> bool \<Rightarrow> client \<Rightarrow> (bool \<times> client) res" where
  "sync_send lpath rpath mtime mode sync c =
     (let path_and_mode = c_str rpath @ '','' @ dec (sint mode)
      in rbind (if sync then sync_lstat rpath c else Inr (None, c)) (\<lambda>(st, c1).
         if (case st of None \<Rightarrow> False | Some s \<Rightarrow> up_to_date mode (uint mtime) s) then Inr (True, RecordFilesSkipped 1 c1)
         else if S_ISLNK mode then
           (case fs_readlink lpath (cl_fs c1) of
              Inl e \<Rightarrow> Inr (False, sc_Error (''readlink '' @ quoted lpath @ '' failed: '' @ strerror e) c1)
            | Inr target \<Rightarrow>
                rbind (SendSmallFile path_and_mode rpath mtime (take (PATH_MAX - 1) target @ [NUL]) c1) (\<lambda>(ok, c2).
                if \<not> ok then Inr (False, c2) else CopyDone lpath rpath c2))
         else
           (case fs_stat lpath (cl_fs c1) of
              Inl e \<Rightarrow> Inr (False, sc_Error (''failed to stat local file '' @ quoted lpath @ '': '' @ strerror e) c1)
            | Inr x \<Rightarrow>
                rbind
                  (if length (in_data x) < SYNC_DATA_MAX then
                     (case ReadFileToString lpath (cl_fs c1) of
                        Inl e \<Rightarrow> Inr (False, sc_Error (''failed to read all of '' @ quoted lpath @ '': '' @ strerror e) c1)
                      | Inr data \<Rightarrow> SendSmallFile path_and_mode rpath mtime data c1)
                   else SendLargeFile path_and_mode lpath rpath mtime c1) (\<lambda>(ok, c2).
                if \<not> ok then Inr (False, c2) else CopyDone lpath rpath c2))))"

text \<open>The loop of \<open>sync_recv\<close>: the file is removed again on every failure.\<close>

definition cl_unlink :: "string \<Rightarrow> client \<Rightarrow> client" where
  "cl_unlink lpath c = c\<lparr>cl_fs := snd (adb_unlink lpath (cl_fs c))\<rparr>"

lemma cl_read_left:
  assumes "cl_read len c = (Some bs, c')"
  shows "sc_fd c' = sc_fd c" "script_left (cl_os c') (sc_fd c) \<le> script_left (cl_os c) (sc_fd c)"
    "len \<noteq> 0 \<Longrightarrow> script_left (cl_os c') (sc_fd c) < script_left (cl_os c) (sc_fd c)"
  using assms ReadFdExactly_left [of "sc_fd c" len "cl_os c"] by (auto simp: cl_read_def split: prod.splits sum.splits)

lemma cl_reads_left:
  assumes "(Some m, c1) = cl_read (Suc n) c" "(Some bs, c2) = cl_read len c1"
  shows "script_left (cl_os c2) (sc_fd c2) < script_left (cl_os c) (sc_fd c)"
  using cl_read_left [OF assms(1) [symmetric]] cl_read_left [OF assms(2) [symmetric]] by simp

lemma print_frame [simp]:
  "sc_fd (print_line l c) = sc_fd c" "sc_max (print_line l c) = sc_max c" "cl_os (print_line l c) = cl_os c"
  "cl_fs (print_line l c) = cl_fs c" "sc_expect_done (print_line l c) = sc_expect_done c" "cl_polls (print_line l c) = cl_polls c"
  "sc_have_stat_v2 (print_line l c) = sc_have_stat_v2 c"
  by (simp_all add: print_line_def)

lemma record_frame [simp]:
  "sc_fd (RecordBytesTransferred n c) = sc_fd c" "sc_max (RecordBytesTransferred n c) = sc_max c"
  "cl_os (RecordBytesTransferred n c) = cl_os c" "cl_fs (RecordBytesTransferred n c) = cl_fs c"
  "sc_expect_done (RecordBytesTransferred n c) = sc_expect_done c" "cl_polls (RecordBytesTransferred n c) = cl_polls c"
  by (simp_all add: RecordBytesTransferred_def)

function pull_loop :: "string \<Rightarrow> string \<Rightarrow> string \<Rightarrow> u64 \<Rightarrow> ofile \<Rightarrow> u64 \<Rightarrow> client \<Rightarrow> (bool \<times> client) res" where
  "pull_loop rpath lpath shown expected f copied c =
     (case cl_read 8 c of
        (None, c1) \<Rightarrow> Inr (False, cl_unlink lpath c1)
      | (Some m, c1) \<Rightarrow>
          if msg_id m = ID_DONE then Inr (True, RecordFilesTransferred 1 c1)
          else if msg_id m \<noteq> ID_DATA then
            rbind (ReportCopyFailure rpath lpath (msg_size m) (cl_unlink lpath c1)) (\<lambda>c2. Inr (False, c2))
          else if unat (msg_size m) > sc_max c1 then
            Inr (False, cl_unlink lpath (sc_Error (''msg.data.size too large: '' @ dec (uint (msg_size m))
              @ '' (max '' @ dec (int (sc_max c1)) @ '')'') c1))
          else
            (case cl_read (unat (msg_size m)) c1 of
               (None, c2) \<Rightarrow> Inr (False, cl_unlink lpath c2)
             | (Some bs, c2) \<Rightarrow>
                 (case file_write lpath f bs (cl_fs c2) of
                    (Inl e, fs) \<Rightarrow>
                      Inr (False, cl_unlink lpath (sc_Error (''cannot write '' @ quoted lpath @ '': '' @ strerror e) (c2\<lparr>cl_fs := fs\<rparr>)))
                  | (Inr f1, fs) \<Rightarrow>
                      (let copied1 = copied + of_nat (length bs)
                       in pull_loop rpath lpath shown expected f1 copied1
                            (ReportProgress shown copied1 expected (RecordBytesTransferred (length bs) (c2\<lparr>cl_fs := fs\<rparr>)))))))"
  by pat_completeness auto
termination
  by (relation "measure (\<lambda>(_, _, _, _, _, _, c). script_left (cl_os c) (sc_fd c))")
    (auto simp: ReportProgress_def eval_nat_numeral dest: cl_reads_left)

declare pull_loop.simps [simp del]

definition sync_recv :: "string \<Rightarrow> string \<Rightarrow> string option \<Rightarrow> u64 \<Rightarrow> client \<Rightarrow> (bool \<times> client) res" where
  "sync_recv rpath lpath name expected c =
     (case SendRequest ID_RECV rpath c of
        (False, c1) \<Rightarrow> Inr (False, c1)
      | (True, c1) \<Rightarrow>
          (case adb_creat lpath 0x1A4 (cl_fs (cl_unlink lpath c1)) of
             (Inl e, fs) \<Rightarrow>
               Inr (False, sc_Error (''cannot create '' @ quoted lpath @ '': '' @ strerror e) (c1\<lparr>cl_fs := fs\<rparr>))
           | (Inr f, fs) \<Rightarrow>
               pull_loop rpath lpath (case name of None \<Rightarrow> rpath | Some n \<Rightarrow> n) expected f 0 (c1\<lparr>cl_fs := fs\<rparr>)))"

text \<open>
  \<open>sync_ls\<close>: the entries for which it calls back, in order, and its result.
\<close>

record dent =
  de_mode :: u32
  de_size :: u32
  de_time :: u32
  de_name :: string

function ls_loop :: "client \<Rightarrow> bool \<times> dent list \<times> client" where
  "ls_loop c =
     (case cl_read 20 c of
        (None, c1) \<Rightarrow> (False, [], c1)
      | (Some m, c1) \<Rightarrow>
          if word_at 0 m = ID_DONE then (True, [], c1)
          else if word_at 0 m \<noteq> ID_DENT then (False, [], c1)
          else if unat (word_at 16 m) > 256 then (False, [], c1)
          else
            (case cl_read (unat (word_at 16 m)) c1 of
               (None, c2) \<Rightarrow> (False, [], c2)
             | (Some name, c2) \<Rightarrow>
                 (case ls_loop c2 of
                    (ok, es, c3) \<Rightarrow>
                      (ok, \<lparr>de_mode = word_at 4 m, de_size = word_at 8 m, de_time = word_at 12 m, de_name = c_str name\<rparr> # es, c3))))"
  by pat_completeness auto
termination
  by (relation "measure (\<lambda>c. script_left (cl_os c) (sc_fd c))") (auto simp: eval_nat_numeral dest: cl_reads_left)

declare ls_loop.simps [simp del]

definition sync_ls :: "string \<Rightarrow> client \<Rightarrow> bool \<times> dent list \<times> client" where
  "sync_ls path c = (case SendRequest ID_LIST path c of (False, c1) \<Rightarrow> (False, [], c1) | (True, c1) \<Rightarrow> ls_loop c1)"

section \<open>Directories and commands\<close>

definition add_separator :: "string \<Rightarrow> string" where
  "add_separator p = (if p \<noteq> [] \<and> last p = CHR ''/'' then p else p @ ''/'')"

definition should_pull_file :: "u32 \<Rightarrow> bool" where
  "should_pull_file mode \<longleftrightarrow> S_ISREG mode \<or> S_ISBLK mode \<or> S_ISCHR mode"

definition should_push_file :: "u32 \<Rightarrow> bool" where
  "should_push_file mode \<longleftrightarrow> S_ISREG mode \<or> S_ISLNK mode"

record copyinfo =
  ci_lpath :: string
  ci_rpath :: string
  ci_time :: int
  ci_mode :: u32
  ci_size :: u64
  ci_skip :: bool

definition copyinfo_new :: "string \<Rightarrow> string \<Rightarrow> string \<Rightarrow> u32 \<Rightarrow> copyinfo" where
  "copyinfo_new local_path remote_path name mode =
     (let l = add_separator local_path @ name; r = add_separator remote_path @ name
      in \<lparr>ci_lpath = (if S_ISDIR mode then add_separator l else l), ci_rpath = (if S_ISDIR mode then add_separator r else r),
          ci_time = 0, ci_mode = mode, ci_size = 0, ci_skip = False\<rparr>)"

definition IsDotOrDotDot :: "string \<Rightarrow> bool" where
  "IsDotOrDotDot name \<longleftrightarrow> c_str name = ''.'' \<or> c_str name = ''..''"

definition ComputeExpectedTotalBytes :: "copyinfo list \<Rightarrow> client \<Rightarrow> client" where
  "ComputeExpectedTotalBytes files c =
     c\<lparr>sc_current := (sc_current c)\<lparr>bytes_expected := (\<Sum>ci\<leftarrow>files. if ci_skip ci then 0 else ci_size ci),
                                     expect_multiple_files := True\<rparr>\<rparr>"

definition special_file :: "string \<Rightarrow> u32 \<Rightarrow> string" where
  "special_file path mode = ''skipping special file '' @ quoted path @ '' (mode = 0o'' @ digits 8 (unat mode) @ '')''"

text \<open>The entries of one local directory: the files it adds, and its directories.\<close>

fun local_entries :: "string \<Rightarrow> string \<Rightarrow> string list \<Rightarrow> copyinfo list \<Rightarrow> copyinfo list \<Rightarrow> client
    \<Rightarrow> copyinfo list \<times> copyinfo list \<times> client" where
  "local_entries lpath rpath [] files dirs c = (files, dirs, c)"
| "local_entries lpath rpath (name # names) files dirs c =
     (if IsDotOrDotDot name then local_entries lpath rpath names files dirs c
      else case fs_lstat (lpath @ name) (cl_fs c) of
             Inl e \<Rightarrow>
               local_entries lpath rpath names files dirs
                 (sc_Error (''cannot lstat '' @ quoted (lpath @ name) @ '': '' @ strerror e) c)
           | Inr x \<Rightarrow>
               (let ci = copyinfo_new lpath rpath name (in_mode x);
                    skip = \<not> should_push_file (in_mode x)
                in if S_ISDIR (in_mode x) then local_entries lpath rpath names files (dirs @ [ci]) c
                   else local_entries lpath rpath names
                          (files @ [ci\<lparr>ci_skip := skip, ci_time := in_mtime x, ci_size := of_nat (length (in_data x))\<rparr>]) dirs
                          (if skip then sc_Warning (special_file lpath (in_mode x)) c else c)))"

text \<open>
  \<open>local_build_list\<close>, the recursion kept as a stack of directories. A directory is on the list before it
  is read, and one that cannot be read is passed over, except for the first.
\<close>

partial_function (option) local_build_list ::
  "(string \<times> string) list \<Rightarrow> copyinfo list \<Rightarrow> string list \<Rightarrow> client \<Rightarrow> (copyinfo list \<times> string list \<times> client) option" where
  "local_build_list stack files directory_list c =
     (case stack of
        [] \<Rightarrow> Some (files, directory_list, c)
      | (lpath, rpath) # rest \<Rightarrow>
          (case fs_readdir lpath (cl_fs c) of
             Inl e \<Rightarrow>
               local_build_list rest files (directory_list @ [rpath])
                 (sc_Error (''cannot open '' @ quoted lpath @ '': '' @ strerror e) c)
           | Inr names \<Rightarrow>
               (case local_entries lpath rpath names files [] c of
                  (files1, dirs, c1) \<Rightarrow>
                    local_build_list (map (\<lambda>ci. (ci_lpath ci, ci_rpath ci)) dirs @ rest) files1 (directory_list @ [rpath]) c1)))"

text \<open>
  The list of the parents of the destination in \<open>copy_local_dir_remote\<close>, from the root downwards.
\<close>

partial_function (option) parent_dirs :: "string \<Rightarrow> string list \<Rightarrow> string list option" where
  "parent_dirs dirpath directory_list =
     (if dirpath = ''/'' then Some directory_list else parent_dirs (Dirname dirpath) (dirpath # directory_list))"

text \<open>The commands that create the directories on the device, each of at most 32 KiB, and the path that is too long, if any.\<close>

fun mkdir_commands :: "string list \<Rightarrow> string \<Rightarrow> string list \<times> string option" where
  "mkdir_commands [] cmd = (if cmd \<noteq> ''mkdir'' then [cmd] else [], None)"
| "mkdir_commands (dir # dirs) cmd =
     (let escaped = escape_arg dir
      in if length escaped > 16384 then ([], Some escaped)
         else if length cmd + length escaped > 32768 then
           (case mkdir_commands dirs (''mkdir'' @ '' '' @ escaped) of (cmds, too_long) \<Rightarrow> (cmd # cmds, too_long))
         else mkdir_commands dirs (cmd @ '' '' @ escaped))"

fun send_lstats :: "copyinfo list \<Rightarrow> client \<Rightarrow> bool \<times> client" where
  "send_lstats [] c = (True, c)"
| "send_lstats (ci # cis) c =
     (case SendLstat (ci_rpath ci) c of
        (False, c1) \<Rightarrow> (False, sc_Error ''failed to send lstat'' c1) | (True, c1) \<Rightarrow> send_lstats cis c1)"

fun finish_lstats :: "copyinfo list \<Rightarrow> client \<Rightarrow> (copyinfo list \<times> client) res" where
  "finish_lstats [] c = Inr ([], c)"
| "finish_lstats (ci # cis) c =
     rbind (FinishStat c) (\<lambda>(st, c1).
     rbind (finish_lstats cis c1) (\<lambda>(rest, c2).
     Inr ((case st of
             None \<Rightarrow> ci
           | Some s \<Rightarrow>
               if st_size s = sint (ci_size ci) \<and> up_to_date (ci_mode ci) (ci_time ci) s then ci\<lparr>ci_skip := True\<rparr> else ci) # rest, c2)))"

fun push_files :: "bool \<Rightarrow> copyinfo list \<Rightarrow> nat \<Rightarrow> client \<Rightarrow> (nat option \<times> client) res" where
  "push_files list_only [] skipped c = Inr (Some skipped, c)"
| "push_files list_only (ci # cis) skipped c =
     (if ci_skip ci then push_files list_only cis (Suc skipped) c
      else if list_only then
        push_files list_only cis skipped
          (print_line KeepInfoLine (print_line (InfoLine (''would push: '' @ ci_lpath ci @ '' -> '' @ ci_rpath ci)) c))
      else
        rbind (sync_send (ci_lpath ci) (ci_rpath ci) (of_int (ci_time ci)) (ci_mode ci) False c) (\<lambda>(ok, c1).
        if \<not> ok then Inr (None, c1) else push_files list_only cis skipped c1))"

text \<open>
  \<open>copy_local_dir_remote\<close>. The shell commands are run by \<open>send_shell_command\<close>, whose effect on the client is
  an argument. \<open>None\<close> stands for a run that does not end.
\<close>

definition copy_local_dir_remote ::
  "(string \<Rightarrow> client \<Rightarrow> client) \<Rightarrow> string \<Rightarrow> string \<Rightarrow> bool \<Rightarrow> bool \<Rightarrow> client \<Rightarrow> (bool \<times> client) res option" where
  "copy_local_dir_remote shell lpath0 rpath0 check_timestamps list_only c0 =
     (let c = NewTransfer c0; lpath = add_separator lpath0; rpath = add_separator rpath0
      in Option.bind (parent_dirs rpath []) (\<lambda>parents.
         case fs_readdir lpath (cl_fs c) of
           Inl e \<Rightarrow> Some (Inr (False, sc_Error (''cannot open '' @ quoted lpath @ '': '' @ strerror e) c))
         | Inr names \<Rightarrow>
             (case local_entries lpath rpath names [] [] c of
                (files0, dirs, c1) \<Rightarrow>
                  Option.bind (local_build_list (map (\<lambda>ci. (ci_lpath ci, ci_rpath ci)) dirs) files0 parents c1) (\<lambda>(files, directory_list, c2).
                  Some
                    (case (if ''shell_v2'' \<in> set (sc_features c2) then mkdir_commands directory_list ''mkdir'' else ([], None)) of
                       (cmds, Some path) \<Rightarrow> Inr (False, sc_Error (''path too long: '' @ path) (fold shell cmds c2))
                     | (cmds, None) \<Rightarrow>
                         (case (if check_timestamps then send_lstats files (fold shell cmds c2) else (True, fold shell cmds c2)) of
                            (False, c3) \<Rightarrow> Inr (False, c3)
                          | (True, c3) \<Rightarrow>
                              rbind (if check_timestamps then finish_lstats files c3 else Inr (files, c3)) (\<lambda>(files1, c4).
                              rbind (push_files list_only files1 0 (ComputeExpectedTotalBytes files1 c4)) (\<lambda>(r, c5).
                              case r of
                                None \<Rightarrow> Inr (False, c5)
                              | Some skipped \<Rightarrow> Inr (True, ReportTransferRate lpath True (RecordFilesSkipped skipped c5))))))))))"

text \<open>
  The loop over the sources of a push, with the destination and whether it exists and is a directory.
\<close>

fun push_sources :: "(string \<Rightarrow> client \<Rightarrow> client) \<Rightarrow> string \<Rightarrow> bool \<Rightarrow> bool \<Rightarrow> bool \<Rightarrow> string list \<Rightarrow> bool \<Rightarrow> client
    \<Rightarrow> (bool \<times> client) res option" where
  "push_sources shell dst dst_exists dst_isdir sync [] success c = Some (Inr (success, ReportOverallTransferRate True c))"
| "push_sources shell dst dst_exists dst_isdir sync (src # srcs) success c =
     (case fs_stat src (cl_fs c) of
        Inl e \<Rightarrow>
          push_sources shell dst dst_exists dst_isdir sync srcs False
            (sc_Error (''cannot stat '' @ quoted src @ '': '' @ strerror e) c)
      | Inr x \<Rightarrow>
          if S_ISDIR (in_mode x) then
            (if dst_exists \<and> \<not> dst_isdir then
               Some (Inr (False, sc_Error (''target '' @ quoted dst @ '' is not a directory'') c))
             else
               (case copy_local_dir_remote shell src (if dst_exists then add_separator dst @ Basename src else dst) sync False c of
                  None \<Rightarrow> None
                | Some (Inl e) \<Rightarrow> Some (Inl e)
                | Some (Inr (ok, c1)) \<Rightarrow> push_sources shell dst dst_exists dst_isdir sync srcs (success \<and> ok) c1))
          else if \<not> should_push_file (in_mode x) then
            push_sources shell dst dst_exists dst_isdir sync srcs success (sc_Warning (special_file src (in_mode x)) c)
          else
            (let dst_path = (if dst_isdir then add_separator dst @ Basename src else dst)
             in case sync_send src dst_path (of_int (in_mtime x)) (in_mode x) sync
                       (SetExpectedTotalBytes (of_nat (length (in_data x))) (NewTransfer c)) of
                  Inl e \<Rightarrow> Some (Inl e)
                | Inr (ok, c1) \<Rightarrow>
                    push_sources shell dst dst_exists dst_isdir sync srcs (success \<and> ok) (ReportTransferRate src True c1)))"

definition do_sync_push :: "(string \<Rightarrow> client \<Rightarrow> client) \<Rightarrow> string list \<Rightarrow> string \<Rightarrow> bool \<Rightarrow> client \<Rightarrow> (bool \<times> client) res option" where
  "do_sync_push shell srcs dst sync c =
     (if sc_fd c < 0 then Some (Inr (False, c))
      else case sync_stat_fallback dst c of
             Inl e \<Rightarrow> Some (Inl e)
           | Inr (st, c1) \<Rightarrow>
               if st = None \<and> cl_errno c1 \<noteq> ENOENT \<and> cl_errno c1 \<noteq> ENOPROTOOPT then
                 Some (Inr (False, sc_Error (''stat failed when trying to push to '' @ dst @ '': '' @ strerror (cl_errno c1)) c1))
               else
                 (let dst_exists = (st \<noteq> None);
                      dst_isdir = (case st of None \<Rightarrow> False | Some s \<Rightarrow> S_ISDIR (st_mode s))
                  in if \<not> dst_isdir \<and> length srcs > 1 then
                       Some (Inr (False, sc_Error (''target '' @ quoted dst @ '' is not a directory'') c1))
                     else if \<not> dst_isdir \<and> dst \<noteq> [] \<and> last dst = CHR ''/'' \<and> dst_exists then
                       Some (Inr (False, sc_Error (''failed to access '' @ quoted dst @ '': Not a directory'') c1))
                     else push_sources shell dst dst_exists dst_isdir sync srcs True c1))"

text \<open>What \<open>remote_build_list\<close> makes of a listing: files, directories, and the links it asks about afterwards.\<close>

fun remote_entries :: "string \<Rightarrow> string \<Rightarrow> dent list \<Rightarrow> copyinfo list \<Rightarrow> copyinfo list \<Rightarrow> copyinfo list \<Rightarrow> client
    \<Rightarrow> copyinfo list \<times> copyinfo list \<times> copyinfo list \<times> client" where
  "remote_entries lpath rpath [] files dirs links c = (files, dirs, links, c)"
| "remote_entries lpath rpath (e # es) files dirs links c =
     (let ci = copyinfo_new lpath rpath (de_name e) (de_mode e); skip = \<not> should_pull_file (de_mode e)
      in if IsDotOrDotDot (de_name e) then remote_entries lpath rpath es files dirs links c
         else if S_ISDIR (de_mode e) then remote_entries lpath rpath es files (dirs @ [ci]) links c
         else if S_ISLNK (de_mode e) then remote_entries lpath rpath es files dirs (links @ [ci]) c
         else remote_entries lpath rpath es
                (files @ [ci\<lparr>ci_skip := skip, ci_time := uint (de_time e), ci_size := ucast (de_size e)\<rparr>]) dirs links
                (if skip then sc_Warning (special_file (ci_rpath ci) (de_mode e)) c else c))"

fun check_links :: "copyinfo list \<Rightarrow> copyinfo list \<Rightarrow> copyinfo list \<Rightarrow> client \<Rightarrow> (copyinfo list \<times> copyinfo list \<times> client) res" where
  "check_links [] files dirs c = Inr (files, dirs, c)"
| "check_links (l # ls) files dirs c =
     rbind (sync_stat_fallback (ci_rpath l) c) (\<lambda>(st, c1).
     case st of
       None \<Rightarrow>
         check_links ls files dirs
           (sc_Warning (''stat failed for path '' @ ci_rpath l @ '': '' @ strerror (cl_errno c1)) c1)
     | Some s \<Rightarrow>
         if S_ISDIR (st_mode s) then check_links ls files (dirs @ [l]) c1 else check_links ls (files @ [l]) dirs c1)"

text \<open>
  \<open>remote_build_list\<close>, the recursion kept as a stack; the directories of a listing are visited from the
  last to the first. A device may list directories without end: then it is \<open>None\<close>.
\<close>

partial_function (option) remote_build_list ::
  "(string \<times> string) list \<Rightarrow> copyinfo list \<Rightarrow> client \<Rightarrow> (bool \<times> copyinfo list \<times> client) res option" where
  "remote_build_list stack files c =
     (case stack of
        [] \<Rightarrow> Some (Inr (True, files, c))
      | (rpath, lpath) # rest \<Rightarrow>
          (let here = copyinfo_new (Dirname lpath) (Dirname rpath) (Basename lpath) S_IFDIR
           in case sync_ls rpath c of
                (ok, es, c1) \<Rightarrow>
                  (case remote_entries lpath rpath es (files @ [here]) [] [] c1 of
                     (files1, dirs, links, c2) \<Rightarrow>
                       if \<not> ok then Some (Inr (False, files1, c2))
                       else
                         (case check_links links files1 dirs c2 of
                            Inl e \<Rightarrow> Some (Inl e)
                          | Inr (files2, dirs2, c3) \<Rightarrow>
                              remote_build_list (map (\<lambda>ci. (ci_rpath ci, ci_lpath ci)) (rev dirs2) @ rest) files2 c3))))"

definition set_time_and_mode :: "string \<Rightarrow> int \<Rightarrow> u32 \<Rightarrow> client \<Rightarrow> bool \<times> client" where
  "set_time_and_mode lpath time mode c =
     (case fs_utime lpath time (cl_fs c) of
        (r1, fs1) \<Rightarrow>
          (case fs_chmod lpath (mode AND NOT (fs_umask fs1)) fs1 of
             (r2, fs2) \<Rightarrow> (r1 = Inr () \<and> r2 = Inr (), c\<lparr>cl_fs := fs2\<rparr>)))"

fun pull_files :: "bool \<Rightarrow> copyinfo list \<Rightarrow> nat \<Rightarrow> client \<Rightarrow> (nat option \<times> client) res" where
  "pull_files copy_attrs [] skipped c = Inr (Some skipped, c)"
| "pull_files copy_attrs (ci # cis) skipped c =
     (if ci_skip ci then pull_files copy_attrs cis (Suc skipped) c
      else if S_ISDIR (ci_mode ci) then
        (case mkdirs (ci_lpath ci) (cl_fs c) of
           (Inl e, fs) \<Rightarrow>
             Inr (None, sc_Error (''failed to create directory '' @ quoted (ci_lpath ci) @ '': '' @ strerror e) (c\<lparr>cl_fs := fs\<rparr>))
         | (Inr _, fs) \<Rightarrow> pull_files copy_attrs cis skipped (c\<lparr>cl_fs := fs\<rparr>))
      else
        rbind (sync_recv (ci_rpath ci) (ci_lpath ci) None (ci_size ci) c) (\<lambda>(ok, c1).
        if \<not> ok then Inr (None, c1)
        else
          (case (if copy_attrs then set_time_and_mode (ci_lpath ci) (ci_time ci) (ci_mode ci) c1 else (True, c1)) of
             (False, c2) \<Rightarrow> Inr (None, c2)
           | (True, c2) \<Rightarrow> pull_files copy_attrs cis skipped c2)))"

definition copy_remote_dir_local :: "string \<Rightarrow> string \<Rightarrow> bool \<Rightarrow> client \<Rightarrow> (bool \<times> client) res option" where
  "copy_remote_dir_local rpath0 lpath0 copy_attrs c0 =
     (let lpath = add_separator lpath0; rpath = add_separator rpath0;
          c = print_line (InfoLine ''pull: building file list...'') (NewTransfer c0)
      in case remote_build_list [(rpath, lpath)] [] c of
           None \<Rightarrow> None
         | Some (Inl e) \<Rightarrow> Some (Inl e)
         | Some (Inr (ok, files, c1)) \<Rightarrow>
             if \<not> ok then Some (Inr (False, c1))
             else
               Some (rbind (pull_files copy_attrs files 0 (ComputeExpectedTotalBytes files c1)) (\<lambda>(r, c2).
                 case r of
                   None \<Rightarrow> Inr (False, c2)
                 | Some skipped \<Rightarrow> Inr (True, ReportTransferRate rpath False (RecordFilesSkipped skipped c2)))))"

fun pull_sources :: "string \<Rightarrow> bool \<Rightarrow> bool \<Rightarrow> bool \<Rightarrow> string option \<Rightarrow> string list \<Rightarrow> bool \<Rightarrow> client \<Rightarrow> (bool \<times> client) res option" where
  "pull_sources dst dst_exists dst_isdir copy_attrs name [] success c = Some (Inr (success, ReportOverallTransferRate False c))"
| "pull_sources dst dst_exists dst_isdir copy_attrs name (src # srcs) success c =
     (case sync_stat_fallback src c of
        Inl e \<Rightarrow> Some (Inl e)
      | Inr (None, c1) \<Rightarrow>
          pull_sources dst dst_exists dst_isdir copy_attrs name srcs False
            (sc_Error (if cl_errno c1 = ENOPROTOOPT then ''remote object '' @ quoted src @ '' does not exist''
                       else ''failed to stat remote object '' @ quoted src @ '': '' @ strerror (cl_errno c1)) c1)
      | Inr (Some st, c1) \<Rightarrow>
          if S_ISDIR (st_mode st) then
            (if dst_exists \<and> \<not> dst_isdir then
               Some (Inr (False, sc_Error (''target '' @ quoted dst @ '' is not a directory'') c1))
             else
               (case copy_remote_dir_local src (if dst_exists then add_separator dst @ Basename src else dst) copy_attrs c1 of
                  None \<Rightarrow> None
                | Some (Inl e) \<Rightarrow> Some (Inl e)
                | Some (Inr (ok, c2)) \<Rightarrow> pull_sources dst dst_exists dst_isdir copy_attrs name srcs (success \<and> ok) c2))
          else if \<not> should_pull_file (st_mode st) then
            pull_sources dst dst_exists dst_isdir copy_attrs name srcs success (sc_Warning (special_file src (st_mode st)) c1)
          else
            (let dst_path = (if dst_isdir then dst @ ''/'' @ Basename src else dst)
             in case sync_recv src dst_path name (of_int (st_size st)) (SetExpectedTotalBytes (of_int (st_size st)) (NewTransfer c1)) of
                  Inl e \<Rightarrow> Some (Inl e)
                | Inr (False, c2) \<Rightarrow> pull_sources dst dst_exists dst_isdir copy_attrs name srcs False c2
                | Inr (True, c2) \<Rightarrow>
                    (case (if copy_attrs then set_time_and_mode dst_path (st_mtime st) (st_mode st) c2 else (True, c2)) of
                       (False, c3) \<Rightarrow> pull_sources dst dst_exists dst_isdir copy_attrs name srcs False c3
                     | (True, c3) \<Rightarrow> pull_sources dst dst_exists dst_isdir copy_attrs name srcs success (ReportTransferRate src False c3))))"

definition do_sync_pull :: "string list \<Rightarrow> string \<Rightarrow> bool \<Rightarrow> string option \<Rightarrow> client \<Rightarrow> (bool \<times> client) res option" where
  "do_sync_pull srcs dst copy_attrs name c =
     (if sc_fd c < 0 then Some (Inr (False, c))
      else
        (let st = fs_stat dst (cl_fs c);
             dst_isdir = (case st of Inl e \<Rightarrow> False | Inr x \<Rightarrow> S_ISDIR (in_mode x));
             dst_exists = (case st of Inl e \<Rightarrow> False | Inr x \<Rightarrow> True);
             failed = (case st of
                         Inr x \<Rightarrow> None
                       | Inl e \<Rightarrow>
                           if length srcs = 1 \<and> e = ENOENT then
                             (case fs_stat (Dirname dst) (cl_fs c) of
                                Inl e2 \<Rightarrow> Some (''cannot create file/directory '' @ quoted dst @ '': '' @ strerror e2) | Inr _ \<Rightarrow> None)
                           else Some (''failed to access '' @ quoted dst @ '': '' @ strerror e))
         in case failed of
              Some text \<Rightarrow> Some (Inr (False, sc_Error text c))
            | None \<Rightarrow>
                if \<not> dst_isdir \<and> length srcs > 1 then
                  Some (Inr (False, sc_Error (''target '' @ quoted dst @ '' is not a directory'') c))
                else if \<not> dst_isdir \<and> dst \<noteq> [] \<and> last dst = CHR ''/'' \<and> dst_exists then
                  Some (Inr (False, sc_Error (''failed to access '' @ quoted dst @ '': Not a directory'') c))
                else pull_sources dst dst_exists dst_isdir copy_attrs name srcs True c))"

definition do_sync_sync :: "(string \<Rightarrow> client \<Rightarrow> client) \<Rightarrow> string \<Rightarrow> string \<Rightarrow> bool \<Rightarrow> client \<Rightarrow> (bool \<times> client) res option" where
  "do_sync_sync shell lpath rpath list_only c =
     (if sc_fd c < 0 then Some (Inr (False, c))
      else case copy_local_dir_remote shell lpath rpath True list_only c of
             None \<Rightarrow> None
           | Some (Inl e) \<Rightarrow> Some (Inl e)
           | Some (Inr (ok, c1)) \<Rightarrow> Some (Inr (ok, if list_only then c1 else ReportOverallTransferRate True c1)))"

end
