(* ===== verification/Spec2Isabelle.thy ===== *)
theory Spec2Isabelle
  imports TransportProps TransportFd StrParms Jstring RecordStream Usb FileSyncClient
begin

text \<open>
  A verification library for the Android Debug Bridge (adb): the server that runs on the host, the
  transfer of files between a client and a device, and the utility libraries below them. The models are
  those of the host build for Linux (\<open>ADB_HOST=1\<close>); the file service of the daemon is in its build for
  other systems than Android (\<open>ADB_HOST=0\<close>, \<open>ADB_NON_ANDROID=1\<close>). Paths are below \<open>src/\<close>.

  \<^bold>\<open>The program and its parts.\<close> The server keeps a list of transports, one per device or emulator. Each has a
  connection (TCP or USB) with threads that exchange packets with the device. Packets open, feed and close
  streams; a stream has a socket at either end, local (a descriptor), remote (a stream of a transport) or
  smart (a client whose request is being read). Listeners accept clients. Requests of clients that start
  with \<open>host:\<close> are answered by the server; all others are passed on to a device. One event loop runs
  everything that touches sockets; threads hand work to it.

  \<^bold>\<open>Conventions.\<close> A struct is a \<open>record\<close>, an enum a \<open>datatype\<close>, memory a map from addresses to objects; an
  operation takes the state and returns it updated. A step that can stop the process has the result type
  \<open>crash + 'a\<close> (theory \<open>Prelude\<close>): \<open>Abort\<close> and \<open>Exit\<close> are failed \<open>CHECK\<close>s and calls of \<open>exit\<close>; \<open>UseAfterFree\<close>,
  \<open>NullDeref\<close> and \<open>OutOfBounds\<close> are undefined behaviour. Machine integers are words. Bytes are characters. The
  operating system is a script per descriptor (theory \<open>Os\<close>) or a file system with calls that may fail
  (theory \<open>FileSys\<close>); the theorems hold for every script. A thread is the sequence of its turns between
  waits, and interleavings are the steps of an \<open>inductive\<close> relation.

  \<^bold>\<open>Theories and sources.\<close>
  \<^item> \<open>Prelude\<close>, \<open>Cstdlib\<close>, \<open>Os\<close>, \<open>Refinement\<close>: vocabulary, C library text functions, descriptors, simulation.
  \<^item> \<open>Base_Strings\<close>: \<open>lib/base/strings.cpp\<close>, \<open>parseint.h\<close>, \<open>parsenetaddress.cpp\<close>. \<open>AdbUtils\<close>: \<open>src/adb_utils.cpp\<close>.
  \<^item> \<open>IOVector\<close>, \<open>Protocol\<close>: \<open>src/types.h\<close>, \<open>src/adb.h\<close>. \<open>AdbIo\<close>: \<open>src/adb_io.cpp\<close>, \<open>src/shell_service_protocol.cpp\<close>.
  \<^item> \<open>FdEvent\<close>: \<open>src/fdevent.cpp\<close>. \<open>AdbState\<close>: the state of the server (\<open>src/socket.h\<close>, \<open>src/transport.h\<close>).
  \<^item> \<open>Transport\<close>, \<open>TransportLocal\<close>, \<open>TransportFd\<close>, \<open>Usb\<close>: \<open>src/transport.cpp\<close>, \<open>transport_local.cpp\<close>,
    \<open>transport_fd.cpp\<close>, \<open>transport_usb.cpp\<close> and \<open>client/usb_linux.cpp\<close>.
  \<^item> \<open>Sockets\<close>, \<open>SmartSocket\<close>, \<open>Services\<close>, \<open>Listeners\<close>, \<open>SocketSpec\<close>, \<open>HostRequest\<close>, \<open>Adb\<close>, \<open>Auth\<close>: \<open>src/sockets.cpp\<close>,
    \<open>services.cpp\<close>, \<open>adb_listeners.cpp\<close>, \<open>socket_spec.cpp\<close>, \<open>adb.cpp\<close>, \<open>client/auth.cpp\<close>.
  \<^item> \<open>SocketInv\<close>, \<open>SocketClose\<close>, \<open>SocketFlow\<close>, \<open>SocketCreate\<close>, \<open>SocketStep\<close>, \<open>ListenerInv\<close>, \<open>ServerInv\<close>,
    \<open>TransportInv\<close>, \<open>TransportProps\<close>: the invariant of the server and the operations that keep it.
  \<^item> \<open>FileSys\<close>, \<open>FileSync\<close>, \<open>FileSyncClient\<close>: \<open>lib/base/file.cpp\<close>, \<open>src/sysdeps/errno.cpp\<close>,
    \<open>src/file_sync_protocol.h\<close>, \<open>daemon/file_sync_service.cpp\<close>, \<open>client/file_sync_client.cpp\<close>.
  \<^item> \<open>Hashmap\<close>, \<open>StrParms\<close>, \<open>Jstring\<close>, \<open>RecordStream\<close>: \<open>lib/libcutils/hashmap.c\<close>, \<open>str_parms.c\<close>, \<open>strdup16to8.c\<close>,
    \<open>strdup8to16.c\<close>, \<open>record_stream.c\<close>.

  \<^bold>\<open>What the lemmas show.\<close> The event loop never uses a destroyed event in any reachable state (locale
  \<open>event_table\<close>). Byte containers behave as queues of bytes (locale \<open>byte_fifo\<close>). Everything that is written in a
  framed format is read back whatever pieces it arrives in: packets, protocol strings, shell packets, USB
  packets, records, feature lists, addresses. The choice of a transport is unique or reported as ambiguous.
  The invariant of the server (sockets, peers, listeners, transports, queues, descriptors) is kept by closing
  sockets, by the flow of data, and by every turn of the threads that register, reconnect and kick
  transports; retries end and emulators are bounded. Keys are tried once each. The hash table is a
  dictionary for every hash function (locale \<open>simulation\<close>); string conversions stay in their buffers; the
  descriptor search of a USB device stays in bounds and finds the interface; the scan of the bus is a
  mark-and-sweep.

  \<^bold>\<open>Bounds and fuel.\<close> \<open>sock_close\<close> takes a call depth: closing a socket closes its peer at most once, so depth 2
  is enough, which the lemmas of \<open>SocketClose\<close> prove. \<open>smart_call\<close> needs depth 1. The search of
  \<open>close_all_sockets\<close> restarts at most once per socket, which is the fuel of \<open>close_all_loop\<close>. \<open>read_record\<close> in
  \<open>RecordStream\<close> needs one step more than there are bytes to come. Each of these has its lemma that the fuel
  is enough. Loops that may not end are \<open>partial_function (option)\<close>: the bucket count of a hash table, the
  descriptors of a USB device, the lists of directories of a transfer. Links are followed 40 times, as
  Linux does.

  \<^bold>\<open>Not modelled.\<close> Launching processes and the command line (\<open>client/commandline.cpp\<close>, \<open>adb_client.cpp\<close>,
  \<open>adb_install.cpp\<close>); logging; mDNS and libusb, which are other libraries; Windows and macOS; RSA itself, a
  parameter; the daemon except for its file service, since it consists of calls into Android; the parts of
  \<open>liblog\<close> and \<open>libcutils\<close> that adb does not call.
\<close>

end
